(* ===== verification/Prelude.thy ===== *)
theory Prelude
  imports Main "HOL-Library.Sublist"
begin

text \<open>
  The vocabulary that all theories share: the exceptions the program can raise, results
  that are an exception or a value, raw string literals, the calls a check makes to its
  \<open>error\<close> callback, and the generic lemmas on lists that the component proofs use.
\<close>

named_theorems lint_defs \<open>definitions of the linter that the component proofs unfold\<close>

section \<open>Exceptions and results\<close>

text \<open>
  The Python exceptions that the modelled code can raise, explicitly (\<open>raise\<close>,
  \<open>assert\<close>) or by an operation applied outside its domain.
\<close>

datatype exn =
    ValueError string
  | AssertionError
  | AttributeError
  | IndexError
  | KeyError
  | TypeError

type_synonym 'a res = "exn + 'a"

definition bind_res :: "'a res \<Rightarrow> ('a \<Rightarrow> 'b res) \<Rightarrow> 'b res" where
  "bind_res m f = (case m of Inl e \<Rightarrow> Inl e | Inr x \<Rightarrow> f x)"

lemma bind_res_simps [simp]:
  "bind_res (Inl e) f = Inl e"
  "bind_res (Inr x) f = f x"
  by (simp_all add: bind_res_def)

lemma bind_res_Inr_iff [simp]:
  "bind_res m f = Inr y \<longleftrightarrow> (\<exists>x. m = Inr x \<and> f x = Inr y)"
  by (cases m) auto

text \<open>A loop whose body can raise: the first exception ends it.\<close>

fun fold_res :: "('a \<Rightarrow> 's \<Rightarrow> 's res) \<Rightarrow> 'a list \<Rightarrow> 's \<Rightarrow> 's res" where
  "fold_res f [] s = Inr s"
| "fold_res f (x # xs) s = bind_res (f x s) (fold_res f xs)"

lemma fold_res_append:
  "fold_res f (xs @ ys) s = bind_res (fold_res f xs s) (fold_res f ys)"
proof (induction xs arbitrary: s)
  case (Cons x xs)
  then show ?case by (cases "f x s") simp_all
qed simp

lemma fold_res_invariant:
  assumes "fold_res f xs s = Inr s'" and "P s"
    and "\<And>x t t'. x \<in> set xs \<Longrightarrow> P t \<Longrightarrow> f x t = Inr t' \<Longrightarrow> P t'"
  shows "P s'"
  using assms
proof (induction xs arbitrary: s)
  case (Cons x xs)
  then obtain t where t: "f x s = Inr t" and r: "fold_res f xs t = Inr s'" by auto
  from Cons.prems(2,3) t have "P t" by auto
  with Cons.IH [OF r] Cons.prems(3) show ?case by auto
qed simp

lemma fold_res_total:
  assumes "P s"
    and "\<And>x t. x \<in> set xs \<Longrightarrow> P t \<Longrightarrow> \<exists>t'. f x t = Inr t' \<and> P t'"
  shows "\<exists>s'. fold_res f xs s = Inr s' \<and> P s'"
  using assms
proof (induction xs arbitrary: s)
  case (Cons x xs)
  then obtain t where "f x s = Inr t" "P t" by (meson list.set_intros(1))
  with Cons.IH [of t] Cons.prems(2) show ?case by auto
qed simp

section \<open>Raw string literals\<close>

text \<open>
  An Isabelle string literal cannot hold a backslash, so the theories write a backquote
  for it: \<open>raw ''`s*''\<close> is the Python literal \<open>r'\s*'\<close>. No literal of the program
  contains a backquote of its own.
\<close>

definition backslash :: char where
  "backslash = CHR 0x5C"

definition raw :: "string \<Rightarrow> string" where
  "raw s = map (\<lambda>c. if c = CHR 0x60 then backslash else c) s"

lemma raw_append: "raw (s @ t) = raw s @ raw t"
  by (simp add: raw_def)

section \<open>Effects of a check\<close>

text \<open>
  A check of the linter receives a callback and calls it as
  \<open>error(filename, linenum, category, confidence, message)\<close>; one check also calls
  \<open>ParseNolintSuppressions(filename, raw_line, linenum, error)\<close>. A check never reads what
  these calls change, so its model returns the calls in the order in which the code makes
  them; theory \<open>Lint_State\<close> gives the calls their effect on the global state.
\<close>

datatype effect =
    ErrorCall (eff_file: string) (eff_line: int) (eff_category: string)
      (eff_confidence: int) (eff_message: string)
  | NolintCall string string int

fun is_error_call :: "effect \<Rightarrow> bool" where
  "is_error_call (ErrorCall _ _ _ _ _) = True"
| "is_error_call (NolintCall _ _ _) = False"

section \<open>Lists\<close>

text \<open>The first index of a list whose element satisfies a predicate.\<close>

fun first_index :: "('a \<Rightarrow> bool) \<Rightarrow> 'a list \<Rightarrow> nat option" where
  "first_index P [] = None"
| "first_index P (x # xs) = (if P x then Some 0 else map_option Suc (first_index P xs))"

lemma first_index_None: "first_index P xs = None \<longleftrightarrow> (\<forall>x \<in> set xs. \<not> P x)"
  by (induction xs) auto

lemma first_index_SomeD:
  "first_index P xs = Some i \<Longrightarrow>
     i < length xs \<and> P (xs ! i) \<and> (\<forall>j < i. \<not> P (xs ! j))"
proof (induction xs arbitrary: i)
  case (Cons x xs)
  show ?case
  proof (cases "P x")
    case False
    with Cons.prems obtain j where j: "first_index P xs = Some j" "i = Suc j" by auto
    from Cons.IH [OF j(1)] False j(2) show ?thesis
      by (auto simp: less_Suc_eq_0_disj)
  qed (use Cons.prems in auto)
qed simp

text \<open>
  Python's \<open>xs[i]\<close>: a negative index counts from the end; out of range raises.
\<close>

definition py_nth :: "'a list \<Rightarrow> int \<Rightarrow> 'a res" where
  "py_nth xs i =
     (let j = (if i < 0 then int (length xs) + i else i)
      in if 0 \<le> j \<and> j < int (length xs) then Inr (xs ! nat j) else Inl IndexError)"

lemma py_nth_nat [simp]: "i < length xs \<Longrightarrow> py_nth xs (int i) = Inr (xs ! i)"
  by (simp add: py_nth_def)

text \<open>Decimal numerals, for the \<open>%d\<close> of a message.\<close>

fun show_nat :: "nat \<Rightarrow> string" where
  "show_nat n = (if n < 10 then [char_of (48 + n)]
                 else show_nat (n div 10) @ [char_of (48 + n mod 10)])"

declare show_nat.simps [simp del]

definition show_int :: "int \<Rightarrow> string" where
  "show_int i = (if i < 0 then ''-'' @ show_nat (nat (- i)) else show_nat (nat i))"

end
