(* ===== verification/Py_Str.thy ===== *)
theory Py_Str
  imports Prelude
begin

text \<open>
  The Python string operations that the program uses, on \<open>string\<close>. The program reads its
  input as Unicode text; a character here is one code point below 256, and a method that
  treats Unicode whitespace or letters specially does so for those code points.
  A position that Python reports as \<open>-1\<close> is \<open>None\<close>.
\<close>

section \<open>Characters\<close>

definition code :: "char \<Rightarrow> nat" where
  "code c = of_char c"

text \<open>ASCII whitespace: \<open>\s\<close> of a regular expression and \<open>isspace\<close> of a byte string.\<close>

definition is_space :: "char \<Rightarrow> bool" where
  "is_space c \<longleftrightarrow> c \<in> {CHR '' '', CHR 0x09, CHR 0x0A, CHR 0x0B, CHR 0x0C, CHR 0x0D}"

text \<open>Whitespace of a Unicode string, as \<open>strip\<close> and \<open>split\<close> see it.\<close>

definition is_uspace :: "char \<Rightarrow> bool" where
  "is_uspace c \<longleftrightarrow> is_space c \<or>
     c \<in> {CHR 0x1C, CHR 0x1D, CHR 0x1E, CHR 0x1F, CHR 0x85, CHR 0xA0}"

definition is_digit :: "char \<Rightarrow> bool" where
  "is_digit c \<longleftrightarrow> 48 \<le> code c \<and> code c \<le> 57"

definition is_upper :: "char \<Rightarrow> bool" where
  "is_upper c \<longleftrightarrow> 65 \<le> code c \<and> code c \<le> 90"

definition is_lower :: "char \<Rightarrow> bool" where
  "is_lower c \<longleftrightarrow> 97 \<le> code c \<and> code c \<le> 122"

definition is_word :: "char \<Rightarrow> bool" where
  "is_word c \<longleftrightarrow> is_lower c \<or> is_upper c \<or> is_digit c \<or> c = CHR ''_''"

definition to_upper :: "char \<Rightarrow> char" where
  "to_upper c = (if is_lower c then char_of (code c - 32) else c)"

text \<open>\<open>unicode.lower\<close> below code point 256: ASCII and the accented capitals.\<close>

definition to_lower :: "char \<Rightarrow> char" where
  "to_lower c = (if is_upper c \<or> (192 \<le> code c \<and> code c \<le> 222 \<and> code c \<noteq> 215)
     then char_of (code c + 32) else c)"

definition str_upper :: "string \<Rightarrow> string" where
  "str_upper = map to_upper"

definition str_lower :: "string \<Rightarrow> string" where
  "str_lower = map to_lower"

section \<open>Comparison\<close>

text \<open>\<open>s < t\<close> on strings: lexicographic by code point.\<close>

fun str_less :: "string \<Rightarrow> string \<Rightarrow> bool" where
  "str_less s [] = False"
| "str_less [] (y # ys) = True"
| "str_less (x # xs) (y # ys) = (code x < code y \<or> x = y \<and> str_less xs ys)"

lemma code_eq_iff [simp]: "code c = code d \<longleftrightarrow> c = d"
  by (simp add: code_def)

lemma str_less_irrefl [simp]: "\<not> str_less s s"
  by (induction s) auto

lemma str_less_trans: "str_less s t \<Longrightarrow> str_less t u \<Longrightarrow> str_less s u"
proof (induction s t arbitrary: u rule: str_less.induct)
  case (2 y ys)
  then show ?case by (cases u) auto
next
  case (3 x xs y ys)
  then show ?case by (cases u) auto
qed simp

lemma str_less_linear: "str_less s t \<or> s = t \<or> str_less t s"
proof (induction s t rule: str_less.induct)
  case (1 s)
  then show ?case by (cases s) auto
next
  case (3 x xs y ys)
  then show ?case using code_eq_iff [of x y] by (auto simp: not_less_iff_gr_or_eq)
qed simp

section \<open>Searching\<close>

definition startswith :: "string \<Rightarrow> string \<Rightarrow> bool" where
  "startswith s p \<longleftrightarrow> take (length p) s = p"

definition endswith :: "string \<Rightarrow> string \<Rightarrow> bool" where
  "endswith s p \<longleftrightarrow> length p \<le> length s \<and> drop (length s - length p) s = p"

text \<open>\<open>s.find(sub)\<close>: the least position at which \<open>sub\<close> starts.\<close>

fun str_find :: "string \<Rightarrow> string \<Rightarrow> nat option" where
  "str_find s sub =
     (if startswith s sub then Some 0
      else case s of [] \<Rightarrow> None | _ # t \<Rightarrow> map_option Suc (str_find t sub))"

declare str_find.simps [simp del]

text \<open>\<open>sub in s\<close>\<close>

definition str_in :: "string \<Rightarrow> string \<Rightarrow> bool" where
  "str_in sub s \<longleftrightarrow> str_find s sub \<noteq> None"

text \<open>\<open>s.find(sub, start)\<close>\<close>

definition str_find_from :: "string \<Rightarrow> string \<Rightarrow> nat \<Rightarrow> nat option" where
  "str_find_from s sub i =
     (if i \<le> length s then map_option (\<lambda>j. i + j) (str_find (drop i s) sub) else None)"

text \<open>\<open>s.count(sub)\<close> of a non-empty \<open>sub\<close>: non-overlapping occurrences from the left.\<close>

function str_count :: "string \<Rightarrow> string \<Rightarrow> nat" where
  "str_count s sub =
     (if s = [] \<or> sub = [] then 0
      else if startswith s sub then Suc (str_count (drop (length sub) s) sub)
      else str_count (tl s) sub)"
  by pat_completeness auto
termination
  by (relation "measure (\<lambda>(s, sub). length s)") auto

text \<open>\<open>s.replace(old, new)\<close> of a non-empty \<open>old\<close>.\<close>

function str_replace :: "string \<Rightarrow> string \<Rightarrow> string \<Rightarrow> string" where
  "str_replace s old new =
     (if s = [] \<or> old = [] then s
      else if startswith s old then new @ str_replace (drop (length old) s) old new
      else hd s # str_replace (tl s) old new)"
  by pat_completeness auto
termination
  by (relation "measure (\<lambda>(s, old, new). length s)") auto

declare str_count.simps [simp del] str_replace.simps [simp del]

section \<open>Stripping, splitting, joining\<close>

definition lstrip_by :: "(char \<Rightarrow> bool) \<Rightarrow> string \<Rightarrow> string" where
  "lstrip_by P s = dropWhile P s"

definition rstrip_by :: "(char \<Rightarrow> bool) \<Rightarrow> string \<Rightarrow> string" where
  "rstrip_by P s = rev (dropWhile P (rev s))"

definition strip :: "string \<Rightarrow> string" where
  "strip s = rstrip_by is_uspace (lstrip_by is_uspace s)"

definition rstrip :: "string \<Rightarrow> string" where
  "rstrip s = rstrip_by is_uspace s"

text \<open>\<open>strip\<close> of a byte string, such as a command line argument.\<close>

definition strip_bytes :: "string \<Rightarrow> string" where
  "strip_bytes s = rstrip_by is_space (lstrip_by is_space s)"

text \<open>\<open>s.split(sep)\<close> for a one-character separator: never the empty list.\<close>

fun split_on :: "char \<Rightarrow> string \<Rightarrow> string list" where
  "split_on sep [] = [[]]"
| "split_on sep (c # cs) =
     (case split_on sep cs of
        [] \<Rightarrow> [[c]]
      | w # ws \<Rightarrow> if c = sep then [] # w # ws else (c # w) # ws)"

text \<open>\<open>s.split()\<close>: the maximal runs of non-whitespace.\<close>

fun words_acc :: "string \<Rightarrow> string \<Rightarrow> string list" where
  "words_acc [] w = (if w = [] then [] else [rev w])"
| "words_acc (c # cs) w =
     (if is_uspace c then (if w = [] then words_acc cs [] else rev w # words_acc cs [])
      else words_acc cs (c # w))"

definition split_ws :: "string \<Rightarrow> string list" where
  "split_ws s = words_acc s []"

text \<open>\<open>sep.join(parts)\<close>\<close>

fun str_join :: "string \<Rightarrow> string list \<Rightarrow> string" where
  "str_join sep [] = []"
| "str_join sep [w] = w"
| "str_join sep (w # ws) = w @ sep @ str_join sep ws"

section \<open>Properties\<close>

lemma startswith_Nil [simp]: "startswith s []"
  by (simp add: startswith_def)

lemma startswith_iff: "startswith s p \<longleftrightarrow> (\<exists>t. s = p @ t)"
  by (metis append_eq_conv_conj startswith_def)

lemma startswith_append [simp]: "startswith (p @ t) p"
  by (simp add: startswith_def)

lemma endswith_iff: "endswith s p \<longleftrightarrow> (\<exists>t. s = t @ p)"
proof
  assume "endswith s p"
  then have "s = take (length s - length p) s @ p"
    by (metis append_take_drop_id endswith_def)
  then show "\<exists>t. s = t @ p" by blast
qed (auto simp: endswith_def)

lemma str_find_Nil: "str_find [] sub = (if sub = [] then Some 0 else None)"
  by (subst str_find.simps) (auto simp: startswith_def)

lemma str_find_Cons:
  "str_find (c # s) sub =
     (if startswith (c # s) sub then Some 0 else map_option Suc (str_find s sub))"
  by (subst str_find.simps) simp

lemma str_find_SomeD:
  "str_find s sub = Some i \<Longrightarrow> \<exists>u v. s = u @ sub @ v \<and> length u = i"
proof (induction s arbitrary: i)
  case Nil
  then show ?case
    by (auto simp: str_find_Nil split: if_splits)
next
  case (Cons c s)
  show ?case
  proof (cases "startswith (c # s) sub")
    case True
    with Cons.prems have "i = 0" by (simp add: str_find_Cons)
    moreover obtain t where "c # s = sub @ t" using True by (auto simp: startswith_iff)
    ultimately show ?thesis by (intro exI [of _ "[]"] exI [of _ t]) simp
  next
    case False
    with Cons.prems obtain j where j: "str_find s sub = Some j" "i = Suc j"
      by (auto simp: str_find_Cons)
    from Cons.IH [OF j(1)] obtain u v where "s = u @ sub @ v" "length u = j" by blast
    with j(2) show ?thesis by (intro exI [of _ "c # u"] exI [of _ v]) simp
  qed
qed

lemma str_find_bound: "str_find s sub = Some i \<Longrightarrow> i + length sub \<le> length s"
  by (auto dest!: str_find_SomeD)

lemma str_find_None_iff: "str_find s sub = None \<longleftrightarrow> (\<nexists>u v. s = u @ sub @ v)"
proof (induction s)
  case Nil
  then show ?case by (simp add: str_find_Nil)
next
  case (Cons c s)
  show ?case
  proof (cases "startswith (c # s) sub")
    case True
    then obtain t where "c # s = [] @ sub @ t" by (auto simp: startswith_iff)
    moreover have "str_find (c # s) sub \<noteq> None" using True by (simp add: str_find_Cons)
    ultimately show ?thesis by blast
  next
    case False
    then have "str_find (c # s) sub = None \<longleftrightarrow> str_find s sub = None"
      by (simp add: str_find_Cons)
    also have "\<dots> \<longleftrightarrow> (\<nexists>u v. c # s = u @ sub @ v)"
      unfolding Cons.IH using False
      by (auto simp: startswith_iff Cons_eq_append_conv)
    finally show ?thesis .
  qed
qed

lemma str_find_least:
  assumes "str_find s sub = Some i" and "s = u @ sub @ v"
  shows "i \<le> length u"
  using assms
proof (induction s arbitrary: i u)
  case Nil
  then show ?case by (simp add: str_find_Nil split: if_splits)
next
  case (Cons c s)
  show ?case
  proof (cases "startswith (c # s) sub")
    case True
    with Cons.prems(1) have "i = 0" by (simp add: str_find_Cons)
    then show ?thesis by simp
  next
    case False
    with Cons.prems(1) obtain j where j: "str_find s sub = Some j" "i = Suc j"
      by (auto simp: str_find_Cons)
    from False Cons.prems(2) obtain u' where u': "u = c # u'" "s = u' @ sub @ v"
      by (cases u) (auto simp: startswith_iff)
    from Cons.IH [OF j(1) u'(2)] j(2) u'(1) show ?thesis by simp
  qed
qed

lemma split_on_nonempty [simp]: "split_on sep s \<noteq> []"
  by (induction s) (auto split: list.splits)

lemma split_on_no_sep: "w \<in> set (split_on sep s) \<Longrightarrow> sep \<notin> set w"
  by (induction s arbitrary: w) (fastforce split: list.splits if_splits)+

lemma str_join_Cons: "ws \<noteq> [] \<Longrightarrow> str_join sep (w # ws) = w @ sep @ str_join sep ws"
  by (cases ws) auto

lemma join_split_on: "str_join [sep] (split_on sep s) = s"
proof (induction s)
  case (Cons c s)
  obtain w ws where w: "split_on sep s = w # ws"
    by (meson neq_Nil_conv split_on_nonempty)
  with Cons show ?case by (cases ws) auto
qed simp

lemma split_on_unique: "sep \<notin> set s \<Longrightarrow> split_on sep s = [s]"
  by (induction s) auto

lemma split_on_append:
  "sep \<notin> set w \<Longrightarrow> split_on sep (w @ sep # s) = w # split_on sep s"
proof (induction w)
  case Nil
  then show ?case by (auto split: list.splits)
qed auto

lemma words_acc_clean:
  "\<forall>c \<in> set w. \<not> is_uspace c \<Longrightarrow>
   v \<in> set (words_acc s w) \<Longrightarrow> v \<noteq> [] \<and> (\<forall>c \<in> set v. \<not> is_uspace c)"
proof (induction s arbitrary: w)
  case (Cons c s)
  show ?case
  proof (cases "is_uspace c")
    case True
    with Cons.prems Cons.IH [of "[]"] show ?thesis by (auto split: if_splits)
  next
    case False
    with Cons.prems Cons.IH [of "c # w"] show ?thesis by auto
  qed
qed (auto split: if_splits)

lemma split_ws_clean:
  "v \<in> set (split_ws s) \<Longrightarrow> v \<noteq> [] \<and> (\<forall>c \<in> set v. \<not> is_uspace c)"
  unfolding split_ws_def by (rule words_acc_clean) auto

lemma strip_set: "set (strip s) \<subseteq> set s"
  unfolding strip_def rstrip_by_def lstrip_by_def
  by (auto dest!: set_dropWhileD)

lemma rstrip_prefix: "\<exists>t. s = rstrip s @ t"
proof -
  have "s = rev (dropWhile is_uspace (rev s)) @ rev (takeWhile is_uspace (rev s))"
    by (metis rev_append rev_rev_ident takeWhile_dropWhile_id)
  then show ?thesis unfolding rstrip_def rstrip_by_def by blast
qed

lemma to_upper_word: "is_word c \<Longrightarrow> is_word (to_upper c)"
  by (auto simp: to_upper_def is_word_def is_lower_def is_upper_def is_digit_def code_def)

lemma to_upper_not_lower: "\<not> is_lower (to_upper c)"
  by (auto simp: to_upper_def is_lower_def code_def)

end
