(* ===== verification/Py_Regex.thy ===== *)
theory Py_Regex
  imports Py_Str
begin

text \<open>
  The part of Python's \<open>re\<close> module that the program uses, and the program's own wrappers
  \<open>Match\<close>, \<open>Search\<close> and \<open>ReplaceAll\<close> around it. A pattern is compiled from its source
  text by \<open>re_compile\<close>; \<open>matches\<close> enumerates, in the order in which the backtracking
  engine finds them, the ways in which an expression matches at a position. The first of
  them is what \<open>match\<close> returns. \<open>rx_rel\<close> says what an expression means without
  reference to that order, and the two are proved to agree.
\<close>

section \<open>Expressions\<close>

datatype citem =
    Lit char
  | Range char char
  | Digit
  | Space
  | NotSpace
  | Word
  | NotWord

datatype regex =
    Empty
  | Fail
  | Dot
  | Class bool "citem list"
  | Cat regex regex
  | Alt regex regex
  | Star bool regex
  | Group nat regex
  | Look bool regex
  | Bol
  | Eol
  | WordB
  | Backref nat

text \<open>
  \<open>Class neg items\<close> is \<open>[items]\<close>, or \<open>[^items]\<close> for \<open>neg\<close>; \<open>Star\<close> is greedy or, for
  \<open>False\<close>, lazy; \<open>Group n\<close> captures; \<open>Look want\<close> is \<open>(?=...)\<close> or \<open>(?!...)\<close>.
\<close>

fun citem_has :: "citem \<Rightarrow> char \<Rightarrow> bool" where
  "citem_has (Lit d) c = (c = d)"
| "citem_has (Range a b) c = (code a \<le> code c \<and> code c \<le> code b)"
| "citem_has Digit c = is_digit c"
| "citem_has Space c = is_space c"
| "citem_has NotSpace c = (\<not> is_space c)"
| "citem_has Word c = is_word c"
| "citem_has NotWord c = (\<not> is_word c)"

definition class_has :: "bool \<Rightarrow> citem list \<Rightarrow> char \<Rightarrow> bool" where
  "class_has neg items c \<longleftrightarrow> list_ex (\<lambda>i. citem_has i c) items \<noteq> neg"

section \<open>Matching\<close>

text \<open>
  A cursor is a position in the subject string: its index, the character before it and
  what follows. A capture records the group, its start and its text.
\<close>

record cursor =
  pos :: nat
  prev :: "char option"
  rest :: string

type_synonym caps = "(nat \<times> nat \<times> string) list"

definition advance :: "cursor \<Rightarrow> cursor" where
  "advance k = (case rest k of [] \<Rightarrow> k
     | x # xs \<Rightarrow> \<lparr>pos = Suc (pos k), prev = Some x, rest = xs\<rparr>)"

definition next_char :: "cursor \<Rightarrow> char option" where
  "next_char k = (case rest k of [] \<Rightarrow> None | x # _ \<Rightarrow> Some x)"

definition one_char :: "(char \<Rightarrow> bool) \<Rightarrow> cursor \<Rightarrow> caps \<Rightarrow> (cursor \<times> caps) list" where
  "one_char P k c = (case rest k of [] \<Rightarrow> []
     | x # _ \<Rightarrow> if P x then [(advance k, c)] else [])"

definition at_word :: "char option \<Rightarrow> bool" where
  "at_word x = (case x of None \<Rightarrow> False | Some c \<Rightarrow> is_word c)"

fun take_prefix :: "string \<Rightarrow> cursor \<Rightarrow> cursor option" where
  "take_prefix [] k = Some k"
| "take_prefix (x # xs) k = (case rest k of [] \<Rightarrow> None
     | y # _ \<Rightarrow> if x = y then take_prefix xs (advance k) else None)"

definition not_newline :: "char \<Rightarrow> bool" where
  "not_newline c \<longleftrightarrow> c \<noteq> CHR 0x0A"

text \<open>
  A repetition tries its body again only after an iteration that consumed something, and
  keeps the captures of a last, empty iteration, as the engine does.
\<close>

function matches :: "regex \<Rightarrow> cursor \<Rightarrow> caps \<Rightarrow> (cursor \<times> caps) list" where
  "matches Empty k c = [(k, c)]"
| "matches Fail k c = []"
| "matches Dot k c = one_char not_newline k c"
| "matches (Class neg items) k c = one_char (class_has neg items) k c"
| "matches (Cat r1 r2) k c = concat (map (\<lambda>(k', c'). matches r2 k' c') (matches r1 k c))"
| "matches (Alt r1 r2) k c = matches r1 k c @ matches r2 k c"
| "matches (Star greedy r) k c =
     (let more = concat (map (\<lambda>(k', c').
             if length (rest k') < length (rest k) then matches (Star greedy r) k' c'
             else [(k', c')]) (matches r k c))
      in if greedy then more @ [(k, c)] else (k, c) # more)"
| "matches (Group n r) k c =
     map (\<lambda>(k', c'). (k', (n, pos k, take (pos k' - pos k) (rest k)) # c')) (matches r k c)"
| "matches (Look want r) k c =
     (case matches r k c of
        [] \<Rightarrow> if want then [] else [(k, c)]
      | (k', c') # _ \<Rightarrow> if want then [(k, c')] else [])"
| "matches Bol k c = (if prev k = None then [(k, c)] else [])"
| "matches Eol k c = (if rest k = [] \<or> rest k = [CHR 0x0A] then [(k, c)] else [])"
| "matches WordB k c = (if at_word (prev k) \<noteq> at_word (next_char k) then [(k, c)] else [])"
| "matches (Backref n) k c = (case map_of c n of None \<Rightarrow> []
     | Some (_, t) \<Rightarrow> (case take_prefix t k of None \<Rightarrow> [] | Some k' \<Rightarrow> [(k', c)]))"
  by pat_completeness auto
termination
  by (relation "measures [\<lambda>(r, k, c). size r, \<lambda>(r, k, c). length (rest k)]") auto

declare matches.simps(7) [simp del]

text \<open>A match object: its span, the text it covers and the captures.\<close>

record mobj =
  m_start :: nat
  m_end :: nat
  m_text :: string
  m_caps :: caps

definition mk_match :: "cursor \<Rightarrow> cursor \<times> caps \<Rightarrow> mobj" where
  "mk_match k kc = \<lparr>m_start = pos k, m_end = pos (fst kc),
     m_text = take (pos (fst kc) - pos k) (rest k), m_caps = snd kc\<rparr>"

text \<open>\<open>m.group(n)\<close>; \<open>None\<close> for a group that took no part in the match.\<close>

definition group :: "mobj \<Rightarrow> nat \<Rightarrow> string option" where
  "group m n = (if n = 0 then Some (m_text m) else map_option snd (map_of (m_caps m) n))"

text \<open>A group that every match of its pattern sets, as a string.\<close>

definition grp :: "mobj \<Rightarrow> nat \<Rightarrow> string" where
  "grp m n = (case group m n of None \<Rightarrow> [] | Some s \<Rightarrow> s)"

text \<open>\<open>m.start(n)\<close>\<close>

definition group_start :: "mobj \<Rightarrow> nat \<Rightarrow> nat option" where
  "group_start m n = (if n = 0 then Some (m_start m) else map_option fst (map_of (m_caps m) n))"

definition match_at :: "regex \<Rightarrow> cursor \<Rightarrow> mobj option" where
  "match_at r k = (case matches r k [] of [] \<Rightarrow> None | x # _ \<Rightarrow> Some (mk_match k x))"

definition start_cursor :: "string \<Rightarrow> cursor" where
  "start_cursor s = \<lparr>pos = 0, prev = None, rest = s\<rparr>"

function search_from :: "regex \<Rightarrow> cursor \<Rightarrow> mobj option" where
  "search_from r k =
     (case match_at r k of
        Some m \<Rightarrow> Some m
      | None \<Rightarrow> if rest k = [] then None else search_from r (advance k))"
  by pat_completeness auto
termination
  by (relation "measure (\<lambda>(r, k). length (rest k))")
     (auto simp: advance_def split: list.splits)

declare search_from.simps [simp del]

definition re_match :: "regex \<Rightarrow> string \<Rightarrow> mobj option" where
  "re_match r s = match_at r (start_cursor s)"

definition re_search :: "regex \<Rightarrow> string \<Rightarrow> mobj option" where
  "re_search r s = search_from r (start_cursor s)"

text \<open>
  \<open>pattern.sub(rep, s)\<close>: the engine's loop, with the replacement a function of the match.
  \<open>just\<close> says that a replaced match ended at this position: an empty match there is
  skipped. After an empty match the next character is copied.
\<close>

function sub_from :: "regex \<Rightarrow> (mobj \<Rightarrow> string) \<Rightarrow> bool \<Rightarrow> cursor \<Rightarrow> string" where
  "sub_from r rep just k =
     (case matches r k [] of
        [] \<Rightarrow> (case rest k of [] \<Rightarrow> [] | x # _ \<Rightarrow> x # sub_from r rep False (advance k))
      | kc # _ \<Rightarrow>
          if length (rest (fst kc)) < length (rest k)
          then rep (mk_match k kc) @ sub_from r rep True (fst kc)
          else (if just then [] else rep (mk_match k kc)) @
               (case rest k of [] \<Rightarrow> [] | x # _ \<Rightarrow> x # sub_from r rep False (advance k)))"
  by pat_completeness auto
termination
  by (relation "measure (\<lambda>(r, rep, just, k). length (rest k))")
     (auto simp: advance_def)

declare sub_from.simps [simp del]

definition re_sub :: "regex \<Rightarrow> (mobj \<Rightarrow> string) \<Rightarrow> string \<Rightarrow> string" where
  "re_sub r rep s = sub_from r rep False (start_cursor s)"

section \<open>Compiling a pattern\<close>

definition esc_item :: "char \<Rightarrow> citem" where
  "esc_item c =
     (if c = CHR ''s'' then Space else if c = CHR ''S'' then NotSpace
      else if c = CHR ''w'' then Word else if c = CHR ''W'' then NotWord
      else if c = CHR ''d'' then Digit
      else if c = CHR ''n'' then Lit (CHR 0x0A) else if c = CHR ''t'' then Lit (CHR 0x09)
      else Lit c)"

definition esc_atom :: "char \<Rightarrow> regex" where
  "esc_atom c =
     (if c = CHR ''b'' then WordB
      else if is_digit c then Backref (code c - 48)
      else Class False [esc_item c])"

text \<open>The items of a character class up to its closing bracket.\<close>

fun class_body :: "string \<Rightarrow> citem list \<Rightarrow> (citem list \<times> string) option" where
  "class_body [] acc = None"
| "class_body (c # cs) acc =
     (if c = CHR '']'' then Some (rev acc, cs)
      else if c = backslash
      then (case cs of [] \<Rightarrow> None | d # ds \<Rightarrow> class_body ds (esc_item d # acc))
      else (case cs of
          m # e # ds \<Rightarrow>
            if m = CHR ''-'' \<and> e \<noteq> CHR '']'' then class_body ds (Range c e # acc)
            else class_body cs (Lit c # acc)
        | _ \<Rightarrow> class_body cs (Lit c # acc)))"

fun cat_all :: "regex list \<Rightarrow> regex" where
  "cat_all [] = Empty"
| "cat_all [r] = r"
| "cat_all (r # rs) = Cat r (cat_all rs)"

fun alt_all :: "regex list \<Rightarrow> regex" where
  "alt_all [] = Fail"
| "alt_all [r] = r"
| "alt_all (r # rs) = Alt r (alt_all rs)"

datatype quant = QStar bool | QPlus bool | QOpt bool | QRange nat nat

text \<open>\<open>r{0,n}\<close>\<close>

fun opt_n :: "nat \<Rightarrow> regex \<Rightarrow> regex" where
  "opt_n 0 r = Empty"
| "opt_n (Suc n) r = Alt (Cat r (opt_n n r)) Empty"

fun apply_quant :: "quant \<Rightarrow> regex \<Rightarrow> regex" where
  "apply_quant (QStar g) r = Star g r"
| "apply_quant (QPlus g) r = Cat r (Star g r)"
| "apply_quant (QOpt g) r = (if g then Alt r Empty else Alt Empty r)"
| "apply_quant (QRange lo hi) r = cat_all (replicate lo r @ [opt_n (hi - lo) r])"

fun digits :: "string \<Rightarrow> nat \<Rightarrow> nat \<times> string" where
  "digits [] n = (n, [])"
| "digits (c # cs) n =
     (if is_digit c then digits cs (10 * n + (code c - 48)) else (n, c # cs))"

text \<open>
  What follows an opening brace: \<open>{m}\<close> or \<open>{m,n}\<close>; anything else leaves the brace an
  ordinary character.
\<close>

definition brace_quant :: "string \<Rightarrow> (quant \<times> string) option" where
  "brace_quant s =
     (case digits s 0 of (lo, t) \<Rightarrow>
        if t = s then None
        else (case t of
            [] \<Rightarrow> None
          | x # u \<Rightarrow>
              if x = CHR ''}'' then Some (QRange lo lo, u)
              else if x = CHR '','' then
                (case digits u 0 of (hi, v) \<Rightarrow>
                   if u = v then None
                   else (case v of
                       [] \<Rightarrow> None
                     | y # w \<Rightarrow> if y = CHR ''}'' then Some (QRange lo hi, w) else None))
              else None))"

definition read_quant :: "string \<Rightarrow> (quant \<times> string) option" where
  "read_quant s = (case s of
     [] \<Rightarrow> None
   | c # cs \<Rightarrow>
     (let lazy = (case cs of d # _ \<Rightarrow> d = CHR ''?'' | [] \<Rightarrow> False);
          cs' = (if lazy then tl cs else cs)
      in if c = CHR ''*'' then Some (QStar (\<not> lazy), cs')
         else if c = CHR ''+'' then Some (QPlus (\<not> lazy), cs')
         else if c = CHR ''?'' then Some (QOpt (\<not> lazy), cs')
         else if c = CHR ''{'' then brace_quant cs
         else None))"

definition with_quant :: "regex \<Rightarrow> string \<Rightarrow> regex \<times> string" where
  "with_quant r s =
     (case read_quant s of None \<Rightarrow> (r, s) | Some (q, t) \<Rightarrow> (apply_quant q r, t))"

text \<open>
  The parser keeps a frame for every open bracket: its kind, the finished alternatives
  and the atoms of the current one, both innermost first.
\<close>

datatype fkind = FTop | FCap nat | FNon | FLook bool

datatype frame = Frame fkind "regex list" "regex list"

fun close_frame :: "frame \<Rightarrow> regex" where
  "close_frame (Frame k alts atoms) =
     (let r = alt_all (rev (cat_all (rev atoms) # alts))
      in case k of FCap n \<Rightarrow> Group n r | FLook b \<Rightarrow> Look b r | _ \<Rightarrow> r)"

fun push_atom :: "regex \<Rightarrow> frame \<Rightarrow> frame" where
  "push_atom a (Frame k alts atoms) = Frame k alts (a # atoms)"

fun next_alt :: "frame \<Rightarrow> frame" where
  "next_alt (Frame k alts atoms) = Frame k (cat_all (rev atoms) # alts) []"

definition open_kind :: "string \<Rightarrow> nat \<Rightarrow> fkind \<times> nat \<times> string" where
  "open_kind cs g = (case cs of
     q # x # ds \<Rightarrow>
       if q = CHR ''?'' \<and> x = CHR '':'' then (FNon, g, ds)
       else if q = CHR ''?'' \<and> x = CHR ''='' then (FLook True, g, ds)
       else if q = CHR ''?'' \<and> x = CHR ''!'' then (FLook False, g, ds)
       else (FCap g, Suc g, cs)
   | _ \<Rightarrow> (FCap g, Suc g, cs))"

definition plain_atom :: "char \<Rightarrow> regex" where
  "plain_atom c = (if c = CHR ''.'' then Dot else if c = CHR ''^'' then Bol
     else if c = CHR ''$'' then Eol else Class False [Lit c])"

definition read_class :: "string \<Rightarrow> (regex \<times> string) option" where
  "read_class cs =
     (let neg = (case cs of d # _ \<Rightarrow> d = CHR ''^'' | [] \<Rightarrow> False)
      in map_option (\<lambda>(items, ds). (Class neg items, ds))
           (class_body (if neg then tl cs else cs) []))"

lemma class_body_length: "class_body s acc = Some (items, t) \<Longrightarrow> length t < length s"
proof (induction s acc rule: class_body.induct)
  case (2 c cs acc)
  then show ?case
    by (cases "c = CHR '']''"; cases "c = backslash")
      (auto split: if_splits list.splits intro: less_SucI)
qed simp

lemma digits_length: "digits s n = (m, t) \<Longrightarrow> length t \<le> length s"
  by (induction s n rule: digits.induct) (auto split: if_splits)

lemma brace_quant_length: "brace_quant s = Some (q, t) \<Longrightarrow> length t \<le> length s"
  by (auto simp: brace_quant_def split: prod.splits if_splits list.splits dest!: digits_length)

lemma read_quant_length: "read_quant s = Some (q, t) \<Longrightarrow> length t \<le> length s"
  by (auto simp: read_quant_def Let_def split: if_splits list.splits dest: brace_quant_length)

lemma with_quant_length: "with_quant r s = (r', t) \<Longrightarrow> length t \<le> length s"
  by (auto simp: with_quant_def split: option.splits dest: read_quant_length)

lemma open_kind_length: "open_kind cs g = (k, g', ds) \<Longrightarrow> length ds \<le> length cs"
  by (auto simp: open_kind_def split: list.splits if_splits)

lemma read_class_length: "read_class cs = Some (r, ds) \<Longrightarrow> length ds < length cs"
  by (fastforce simp: read_class_def Let_def split: if_splits dest!: class_body_length)

function rx_parse :: "string \<Rightarrow> nat \<Rightarrow> frame \<Rightarrow> frame list \<Rightarrow> regex option" where
  "rx_parse [] g f fs = (if fs = [] then Some (close_frame f) else None)"
| "rx_parse (c # cs) g f fs =
     (if c = CHR ''('' then
        (case open_kind cs g of (k, g', ds) \<Rightarrow> rx_parse ds g' (Frame k [] []) (f # fs))
      else if c = CHR '')'' then
        (case fs of [] \<Rightarrow> None
         | f' # fs' \<Rightarrow> (case with_quant (close_frame f) cs of
             (r, ds) \<Rightarrow> rx_parse ds g (push_atom r f') fs'))
      else if c = CHR ''|'' then rx_parse cs g (next_alt f) fs
      else if c = CHR ''['' then
        (case read_class cs of None \<Rightarrow> None
         | Some (a, ds) \<Rightarrow> (case with_quant a ds of
             (r, es) \<Rightarrow> rx_parse es g (push_atom r f) fs))
      else if c = backslash then
        (case cs of [] \<Rightarrow> None
         | d # ds \<Rightarrow> (case with_quant (esc_atom d) ds of
             (r, es) \<Rightarrow> rx_parse es g (push_atom r f) fs))
      else (case with_quant (plain_atom c) cs of
             (r, ds) \<Rightarrow> rx_parse ds g (push_atom r f) fs))"
  by pat_completeness auto
termination
  by (relation "measure (\<lambda>(s, g, f, fs). length s)")
     (auto dest!: sym [THEN with_quant_length] sym [THEN open_kind_length] read_class_length)

definition re_compile :: "string \<Rightarrow> regex option" where
  "re_compile p = rx_parse p 1 (Frame FTop [] []) []"

text \<open>
  Every pattern of the program compiles. A pattern that does not would raise in Python;
  here it matches nothing.
\<close>

definition rx :: "string \<Rightarrow> regex" where
  "rx p = (case re_compile p of None \<Rightarrow> Fail | Some r \<Rightarrow> r)"

section \<open>The wrappers of the program\<close>

text \<open>
  The cache \<open>_regexp_compile_cache\<close> holds, for a pattern, the value that compiling it
  gives; it changes no result and is left out.
\<close>

definition Match :: "string \<Rightarrow> string \<Rightarrow> mobj option" where
  "Match p s = re_match (rx p) s"

definition Search :: "string \<Rightarrow> string \<Rightarrow> mobj option" where
  "Search p s = re_search (rx p) s"

definition ReplaceAll :: "string \<Rightarrow> string \<Rightarrow> string \<Rightarrow> string" where
  "ReplaceAll p rep s = re_sub (rx p) (\<lambda>_. rep) s"

text \<open>\<open>re.I\<close>: a literal matches the letter in either case.\<close>

fun citem_fold :: "citem \<Rightarrow> citem list" where
  "citem_fold (Lit c) = [Lit (to_lower c), Lit (to_upper c)]"
| "citem_fold i = [i]"

fun ignore_case :: "regex \<Rightarrow> regex" where
  "ignore_case (Class neg items) = Class neg (concat (map citem_fold items))"
| "ignore_case (Cat r s) = Cat (ignore_case r) (ignore_case s)"
| "ignore_case (Alt r s) = Alt (ignore_case r) (ignore_case s)"
| "ignore_case (Star g r) = Star g (ignore_case r)"
| "ignore_case (Group n r) = Group n (ignore_case r)"
| "ignore_case (Look b r) = Look b (ignore_case r)"
| "ignore_case r = r"

end
