(* ===== verification/Regex_Semantics.thy ===== *)
theory Regex_Semantics
  imports Py_Regex
begin

text \<open>
  What a regular expression means, independently of the order in which the engine
  explores it: \<open>rx_rel\<close> maps an expression without back references to the relation
  between the cursors at which a match starts and ends. The engine is proved sound and
  complete for it; \<open>Match\<close>, \<open>Search\<close> and \<open>ReplaceAll\<close> inherit their laws from that.
\<close>

section \<open>Cursors of one subject string\<close>

text \<open>\<open>reach k k'\<close>: \<open>k'\<close> lies in the same subject, at or after \<open>k\<close>.\<close>

definition reach :: "cursor \<Rightarrow> cursor \<Rightarrow> bool" where
  "reach k k' \<longleftrightarrow> (\<exists>w. rest k = w @ rest k' \<and> pos k' = pos k + length w \<and>
     prev k' = (if w = [] then prev k else Some (last w)))"

lemma reach_refl [simp]: "reach k k"
  by (simp add: reach_def)

lemma reach_trans: "reach k k' \<Longrightarrow> reach k' k'' \<Longrightarrow> reach k k''"
  unfolding reach_def by (fastforce simp: last_append)

lemma reach_advance [simp]: "reach k (advance k)"
  by (cases "rest k") (auto simp: reach_def advance_def intro: exI [of _ "[_]"])

lemma reach_length: "reach k k' \<Longrightarrow> length (rest k') \<le> length (rest k)"
  by (auto simp: reach_def)

lemma reach_pos: "reach k k' \<Longrightarrow> pos k' = pos k + (length (rest k) - length (rest k'))"
  by (auto simp: reach_def)

lemma reach_same: "reach k k' \<Longrightarrow> \<not> length (rest k') < length (rest k) \<Longrightarrow> k' = k"
  by (auto simp: reach_def)

lemma reach_text: "reach k k' \<Longrightarrow> take (pos k' - pos k) (rest k) @ rest k' = rest k"
  by (auto simp: reach_def)

lemma reach_rest: "reach k k' \<Longrightarrow> rest k' = drop (pos k' - pos k) (rest k)"
  by (auto simp: reach_def)

lemma take_prefix_reach: "take_prefix t k = Some k' \<Longrightarrow> reach k k'"
  by (induction t k rule: take_prefix.induct)
     (auto split: list.splits if_splits intro: reach_trans [OF reach_advance])

lemma one_char_reach: "(k', c') \<in> set (one_char P k c) \<Longrightarrow> reach k k'"
  by (auto simp: one_char_def split: list.splits if_splits)

lemma matches_Star_iff:
  "x \<in> set (matches (Star g r) k c) \<longleftrightarrow>
     x = (k, c) \<or> (\<exists>k1 c1. (k1, c1) \<in> set (matches r k c) \<and>
       (if length (rest k1) < length (rest k) then x \<in> set (matches (Star g r) k1 c1)
        else x = (k1, c1)))"
proof -
  have "x \<in> set (matches (Star g r) k c) \<longleftrightarrow> x = (k, c) \<or>
     (\<exists>kc \<in> set (matches r k c). x \<in> set (if length (rest (fst kc)) < length (rest k)
        then matches (Star g r) (fst kc) (snd kc) else [kc]))"
    by (subst matches.simps(7)) (auto simp: Let_def split_beta)
  then show ?thesis by (auto split: if_splits) (metis fst_conv snd_conv)+
qed

text \<open>Everything the engine returns lies in the subject, at or after the start.\<close>

lemma matches_reach: "(k', c') \<in> set (matches r k c) \<Longrightarrow> reach k k'"
proof (induction r k c arbitrary: k' c' rule: matches.induct)
  case (5 r1 r2 k c)
  then obtain k1 c1 where *: "(k1, c1) \<in> set (matches r1 k c)" "(k', c') \<in> set (matches r2 k1 c1)"
    by auto
  from "5.IH"(1) [OF *(1)] "5.IH"(2) [OF *(1) refl *(2)] show ?case by (rule reach_trans)
next
  case (7 greedy r k c)
  show ?case
  proof (cases "k' = k")
    case False
    with "7.prems" obtain k1 c1 where *: "(k1, c1) \<in> set (matches r k c)"
      and **: "if length (rest k1) < length (rest k)
        then (k', c') \<in> set (matches (Star greedy r) k1 c1) else (k', c') = (k1, c1)"
      by (subst (asm) matches_Star_iff) auto
    have "reach k k1" by (rule "7.IH"(1) [OF *])
    moreover have "reach k1 k'"
      using ** "7.IH"(2) [OF * refl] by (auto split: if_splits)
    ultimately show ?thesis by (rule reach_trans)
  qed simp
next
  case (9 want r k c)
  then show ?case by (auto split: list.splits if_splits)
qed (auto split: if_splits option.splits list.splits
      dest: one_char_reach take_prefix_reach sym [THEN take_prefix_reach])

section \<open>The meaning of an expression\<close>

definition char_rel :: "(char \<Rightarrow> bool) \<Rightarrow> (cursor \<times> cursor) set" where
  "char_rel P = {(k, k'). k' = advance k \<and> (\<exists>x. next_char k = Some x \<and> P x)}"

definition test_rel :: "(cursor \<Rightarrow> bool) \<Rightarrow> (cursor \<times> cursor) set" where
  "test_rel P = {(k, k'). k' = k \<and> P k}"

fun rx_rel :: "regex \<Rightarrow> (cursor \<times> cursor) set" where
  "rx_rel Empty = Id"
| "rx_rel Fail = {}"
| "rx_rel Dot = char_rel not_newline"
| "rx_rel (Class neg items) = char_rel (class_has neg items)"
| "rx_rel (Cat r1 r2) = rx_rel r1 O rx_rel r2"
| "rx_rel (Alt r1 r2) = rx_rel r1 \<union> rx_rel r2"
| "rx_rel (Star greedy r) = (rx_rel r)\<^sup>*"
| "rx_rel (Group n r) = rx_rel r"
| "rx_rel (Look want r) = test_rel (\<lambda>k. (k \<in> Domain (rx_rel r)) = want)"
| "rx_rel Bol = test_rel (\<lambda>k. prev k = None)"
| "rx_rel Eol = test_rel (\<lambda>k. rest k = [] \<or> rest k = [CHR 0x0A])"
| "rx_rel WordB = test_rel (\<lambda>k. at_word (prev k) \<noteq> at_word (next_char k))"
| "rx_rel (Backref n) = {}"

fun no_backref :: "regex \<Rightarrow> bool" where
  "no_backref (Cat r1 r2) = (no_backref r1 \<and> no_backref r2)"
| "no_backref (Alt r1 r2) = (no_backref r1 \<and> no_backref r2)"
| "no_backref (Star g r) = no_backref r"
| "no_backref (Group n r) = no_backref r"
| "no_backref (Look b r) = no_backref r"
| "no_backref (Backref n) = False"
| "no_backref r = True"

lemma one_char_rel: "fst ` set (one_char P k c) = char_rel P `` {k}"
  by (auto simp: one_char_def char_rel_def next_char_def split: list.splits)

lemma star_sound:
  assumes IH: "\<And>k c. fst ` set (matches r k c) = R `` {k}"
  shows "(k', c') \<in> set (matches (Star g r) k c) \<Longrightarrow> (k, k') \<in> R\<^sup>*"
proof (induction k arbitrary: c k' c' rule: measure_induct_rule [of "\<lambda>k. length (rest k)"])
  case (less k)
  show ?case
  proof (cases "k' = k")
    case False
    with less.prems obtain k1 c1 where *: "(k1, c1) \<in> set (matches r k c)"
      and **: "if length (rest k1) < length (rest k)
        then (k', c') \<in> set (matches (Star g r) k1 c1) else (k', c') = (k1, c1)"
      by (subst (asm) matches_Star_iff) auto
    from * IH [of k c] have "(k, k1) \<in> R" by force
    moreover from ** less.IH [of k1 k' c' c1] have "(k1, k') \<in> R\<^sup>*" by (auto split: if_splits)
    ultimately show ?thesis by (rule converse_rtrancl_into_rtrancl)
  qed simp
qed

lemma star_complete:
  assumes IH: "\<And>k c. fst ` set (matches r k c) = R `` {k}"
  shows "(k, k') \<in> R\<^sup>* \<Longrightarrow> k' \<in> fst ` set (matches (Star g r) k c)"
proof (induction arbitrary: c rule: converse_rtrancl_induct)
  case base
  have "(k', c) \<in> set (matches (Star g r) k' c)" by (subst matches_Star_iff) simp
  then show ?case by force
next
  case (step k k1)
  from IH [of k c] step.hyps(1) obtain c1 where c1: "(k1, c1) \<in> set (matches r k c)" by force
  show ?case
  proof (cases "length (rest k1) < length (rest k)")
    case True
    from step.IH [of c1] obtain c2 where "(k', c2) \<in> set (matches (Star g r) k1 c1)" by force
    with c1 True have "(k', c2) \<in> set (matches (Star g r) k c)"
      by (subst matches_Star_iff) auto
    then show ?thesis by force
  next
    case False
    with matches_reach [OF c1] have "k1 = k" by (rule reach_same)
    with step.IH show ?thesis by simp
  qed
qed

text \<open>The engine finds exactly the ends that the relation allows.\<close>

lemma matches_rx_rel: "no_backref r \<Longrightarrow> fst ` set (matches r k c) = rx_rel r `` {k}"
proof (induction r arbitrary: k c)
  case (Cat r1 r2)
  have "fst ` set (matches (Cat r1 r2) k c) =
      (\<Union>kc \<in> set (matches r1 k c). fst ` set (matches r2 (fst kc) (snd kc)))"
    by (auto simp: image_Union split_beta)
  also have "\<dots> = (\<Union>kc \<in> set (matches r1 k c). rx_rel r2 `` {fst kc})"
    using Cat by simp
  also have "\<dots> = (\<Union>k1 \<in> fst ` set (matches r1 k c). rx_rel r2 `` {k1})"
    by auto
  also have "\<dots> = rx_rel (Cat r1 r2) `` {k}"
    using Cat by auto
  finally show ?case .
next
  case (Star g r)
  then have "\<And>k c. fst ` set (matches r k c) = rx_rel r `` {k}" by simp
  note star = star_sound [OF this] star_complete [OF this]
  show ?case
  proof (intro set_eqI iffI)
    fix k' assume "k' \<in> fst ` set (matches (Star g r) k c)"
    then obtain c' where "(k', c') \<in> set (matches (Star g r) k c)" by auto
    then show "k' \<in> rx_rel (Star g r) `` {k}" by (auto dest: star(1))
  next
    fix k' assume "k' \<in> rx_rel (Star g r) `` {k}"
    then show "k' \<in> fst ` set (matches (Star g r) k c)" by (auto intro: star(2))
  qed
next
  case (Look b r)
  then have "fst ` set (matches r k c) = rx_rel r `` {k}" by simp
  then have "matches r k c = [] \<longleftrightarrow> k \<notin> Domain (rx_rel r)"
    by (metis Domain.cases Domain_iff Image_singleton_iff empty_iff image_is_empty
        set_empty ex_in_conv)
  then show ?case by (auto simp: test_rel_def split: list.splits)
qed (auto simp: one_char_rel test_rel_def image_Un Image_def image_image split_beta)

lemma match_at_None_iff:
  "no_backref r \<Longrightarrow> match_at r k = None \<longleftrightarrow> k \<notin> Domain (rx_rel r)"
  using matches_rx_rel [of r k "[]"]
  by (auto simp: match_at_def split: list.splits)

text \<open>How characters and runs of characters show in the subject.\<close>

lemma char_rel_rest: "(k, k') \<in> char_rel P \<Longrightarrow> \<exists>x. rest k = x # rest k' \<and> P x"
  by (auto simp: char_rel_def next_char_def advance_def split: list.splits)

lemma char_star_rest:
  "(k, k') \<in> (char_rel P)\<^sup>* \<Longrightarrow> \<exists>w. rest k = w @ rest k' \<and> (\<forall>x \<in> set w. P x)"
proof (induction rule: converse_rtrancl_induct)
  case base
  show ?case by (intro exI [of _ "[]"]) simp
next
  case (step k k1)
  from char_rel_rest [OF step.hyps(1)] obtain x where "rest k = x # rest k1" "P x" by blast
  with step.IH show ?case by (metis append_Cons set_ConsD)
qed

lemma char_relI: "rest k = x # xs \<Longrightarrow> P x \<Longrightarrow> (k, advance k) \<in> char_rel P"
  by (simp add: char_rel_def next_char_def)

lemma char_starI:
  "rest k = w @ v \<Longrightarrow> \<forall>x \<in> set w. P x \<Longrightarrow>
     \<exists>k'. (k, k') \<in> (char_rel P)\<^sup>* \<and> rest k' = v \<and> pos k' = pos k + length w"
proof (induction w arbitrary: k)
  case Nil
  then show ?case by (intro exI [of _ k]) simp
next
  case (Cons x w)
  then have st: "(k, advance k) \<in> char_rel P" by (auto intro: char_relI)
  from Cons have a: "rest (advance k) = w @ v" "pos (advance k) = Suc (pos k)"
    by (simp_all add: advance_def)
  from Cons.IH [OF a(1)] Cons.prems(2) obtain k' where
    "(advance k, k') \<in> (char_rel P)\<^sup>*" "rest k' = v" "pos k' = pos (advance k) + length w" by auto
  with st a(2) show ?case by (auto intro: converse_rtrancl_into_rtrancl)
qed

section \<open>Match objects\<close>

lemma match_at_SomeD:
  assumes "match_at r k = Some m"
  obtains k' c where "matches r k [] \<noteq> []" "hd (matches r k []) = (k', c)" "reach k k'"
    "m = mk_match k (k', c)"
proof -
  from assms obtain kc kcs where *: "matches r k [] = kc # kcs" "m = mk_match k kc"
    by (auto simp: match_at_def split: list.splits)
  obtain k' c where "kc = (k', c)" by (cases kc)
  with * matches_reach [of k' c r k "[]"] that show ?thesis by simp
qed

text \<open>A match of \<open>s\<close> at a cursor covers a substring that starts there.\<close>

lemma match_at_span:
  assumes "match_at r k = Some m"
  shows "m_start m = pos k" "m_start m \<le> m_end m" "m_end m \<le> pos k + length (rest k)"
    "m_text m = take (m_end m - m_start m) (rest k)"
    "length (m_text m) = m_end m - m_start m"
proof -
  from assms obtain k' c where *: "reach k k'" "m = mk_match k (k', c)"
    by (rule match_at_SomeD)
  from reach_pos [OF *(1)] reach_length [OF *(1)] *(2)
  show "m_start m = pos k" "m_start m \<le> m_end m" "m_end m \<le> pos k + length (rest k)"
    "m_text m = take (m_end m - m_start m) (rest k)"
    "length (m_text m) = m_end m - m_start m"
    by (simp_all add: mk_match_def)
qed

lemma search_from_SomeD:
  "search_from r k = Some m \<Longrightarrow>
     \<exists>k1. reach k k1 \<and> match_at r k1 = Some m \<and>
       (\<forall>k2. reach k k2 \<longrightarrow> pos k2 < pos k1 \<longrightarrow> match_at r k2 = None)"
proof (induction r k rule: search_from.induct)
  case (1 r k)
  show ?case
  proof (cases "match_at r k")
    case (Some m')
    with "1.prems" have "m = m'" by (simp add: search_from.simps)
    with Some show ?thesis by (intro exI [of _ k]) (auto dest: reach_pos)
  next
    case None
    with "1.prems" have ne: "rest k \<noteq> []" and s: "search_from r (advance k) = Some m"
      by (auto simp: search_from.simps [of r k] split: if_splits)
    from "1.IH" [OF None ne s] obtain k1 where k1: "reach (advance k) k1"
      "match_at r k1 = Some m"
      "\<forall>k2. reach (advance k) k2 \<longrightarrow> pos k2 < pos k1 \<longrightarrow> match_at r k2 = None" by blast
    have "k2 = k \<or> reach (advance k) k2" if "reach k k2" for k2
    proof -
      from that obtain w where w: "rest k = w @ rest k2" "pos k2 = pos k + length w"
        "prev k2 = (if w = [] then prev k else Some (last w))" by (auto simp: reach_def)
      show ?thesis
      proof (cases w)
        case Nil
        with w show ?thesis by simp
      next
        case (Cons x xs)
        with w show ?thesis by (auto simp: reach_def advance_def intro!: exI [of _ xs])
      qed
    qed
    with k1 None reach_trans [OF reach_advance k1(1)] show ?thesis by metis
  qed
qed

lemma search_from_None_iff:
  "search_from r k = None \<longleftrightarrow> (\<forall>k'. reach k k' \<longrightarrow> match_at r k' = None)"
proof (induction r k rule: search_from.induct)
  case (1 r k)
  have split: "reach k k' \<longleftrightarrow> k' = k \<or> rest k \<noteq> [] \<and> reach (advance k) k'" for k'
  proof
    assume "reach k k'"
    then obtain w where w: "rest k = w @ rest k'" "pos k' = pos k + length w"
      "prev k' = (if w = [] then prev k else Some (last w))" by (auto simp: reach_def)
    show "k' = k \<or> rest k \<noteq> [] \<and> reach (advance k) k'"
    proof (cases w)
      case Nil
      with w show ?thesis by simp
    next
      case (Cons x xs)
      with w show ?thesis by (auto simp: reach_def advance_def intro!: exI [of _ xs])
    qed
  qed (auto intro: reach_trans [OF reach_advance])
  show ?case
  proof (cases "match_at r k")
    case None
    show ?thesis
    proof (cases "rest k = []")
      case True
      with None show ?thesis by (auto simp: search_from.simps [of r k] split)
    next
      case False
      with None "1.IH" [OF None False] show ?thesis
        by (auto simp: search_from.simps [of r k] split)
    qed
  next
    case (Some m)
    then show ?thesis by (auto simp: search_from.simps [of r k] intro: exI [of _ k])
  qed
qed

section \<open>Captures\<close>

text \<open>The capturing groups of an expression, with their bodies.\<close>

fun groups_of :: "regex \<Rightarrow> (nat \<times> regex) list" where
  "groups_of (Cat r1 r2) = groups_of r1 @ groups_of r2"
| "groups_of (Alt r1 r2) = groups_of r1 @ groups_of r2"
| "groups_of (Star g r) = groups_of r"
| "groups_of (Group n r) = (n, r) # groups_of r"
| "groups_of (Look b r) = groups_of r"
| "groups_of r = []"

text \<open>
  A capture is sound for a list of groups and a start cursor when its text is what the body
  of its group matched somewhere at or after the start.
\<close>

definition capture_ok :: "(nat \<times> regex) list \<Rightarrow> cursor \<Rightarrow> nat \<times> nat \<times> string \<Rightarrow> bool" where
  "capture_ok gs k = (\<lambda>(n, i, t). \<exists>r k1 k2 c1 c2. (n, r) \<in> set gs \<and> reach k k1 \<and> reach k1 k2 \<and>
     (k2, c2) \<in> set (matches r k1 c1) \<and> i = pos k1 \<and> rest k1 = t @ rest k2)"

definition captures_ok :: "(nat \<times> regex) list \<Rightarrow> cursor \<Rightarrow> caps \<Rightarrow> caps \<Rightarrow> bool" where
  "captures_ok gs k c c' \<longleftrightarrow> (\<exists>d. c' = d @ c \<and> (\<forall>x \<in> set d. capture_ok gs k x))"

lemma capture_okI:
  "(n, r) \<in> set gs \<Longrightarrow> reach k k1 \<Longrightarrow> reach k1 k2 \<Longrightarrow> (k2, c2) \<in> set (matches r k1 c1) \<Longrightarrow>
   i = pos k1 \<Longrightarrow> rest k1 = t @ rest k2 \<Longrightarrow> capture_ok gs k (n, i, t)"
  unfolding capture_ok_def by blast

lemma capture_okE:
  assumes "capture_ok gs k x"
  obtains n t r k1 k2 c1 c2 where "x = (n, pos k1, t)" "(n, r) \<in> set gs" "reach k k1"
    "reach k1 k2" "(k2, c2) \<in> set (matches r k1 c1)" "rest k1 = t @ rest k2"
  using assms unfolding capture_ok_def by (cases x) auto

lemma captures_ok_refl [simp]: "captures_ok gs k c c"
  by (simp add: captures_ok_def)

lemma capture_ok_mono:
  "capture_ok gs k1 x \<Longrightarrow> reach k k1 \<Longrightarrow> set gs \<subseteq> set gs' \<Longrightarrow> capture_ok gs' k x"
proof (elim capture_okE)
  fix n t r k2 k3 c1 c2
  assume *: "reach k k1" "set gs \<subseteq> set gs'" "x = (n, pos k2, t)" "(n, r) \<in> set gs"
    "reach k1 k2" "reach k2 k3" "(k3, c2) \<in> set (matches r k2 c1)" "rest k2 = t @ rest k3"
  then have "(n, r) \<in> set gs'" "reach k k2" by (auto intro: reach_trans)
  from capture_okI [OF this *(6,7) refl *(8)] *(3) show "capture_ok gs' k x" by simp
qed

lemma captures_ok_trans:
  assumes "captures_ok gs k c c1" and "captures_ok gs' k1 c1 c2"
    and "reach k k1" and "set gs \<subseteq> set hs" and "set gs' \<subseteq> set hs"
  shows "captures_ok hs k c c2"
proof -
  from assms(1,2) obtain d e where "c1 = d @ c" "\<forall>x \<in> set d. capture_ok gs k x"
    "c2 = e @ c1" "\<forall>x \<in> set e. capture_ok gs' k1 x" by (auto simp: captures_ok_def)
  with assms(3-5) show ?thesis
    by (auto simp: captures_ok_def intro!: exI [of _ "e @ d"]
        intro: capture_ok_mono [of gs k] capture_ok_mono [of gs' k1])
qed

lemma captures_ok_mono:
  "captures_ok gs k c c' \<Longrightarrow> set gs \<subseteq> set gs' \<Longrightarrow> captures_ok gs' k c c'"
  by (rule captures_ok_trans [of gs k c c' gs k c']) auto

lemma matches_captures: "(k', c') \<in> set (matches r k c) \<Longrightarrow> captures_ok (groups_of r) k c c'"
proof (induction r k c arbitrary: k' c' rule: matches.induct)
  case (5 r1 r2 k c)
  then obtain k1 c1 where *: "(k1, c1) \<in> set (matches r1 k c)" "(k', c') \<in> set (matches r2 k1 c1)"
    by auto
  from "5.IH"(1) [OF *(1)] "5.IH"(2) [OF *(1) refl *(2)] matches_reach [OF *(1)]
  show ?case by (rule captures_ok_trans) auto
next
  case (6 r1 r2 k c)
  then have "captures_ok (groups_of r1) k c c' \<or> captures_ok (groups_of r2) k c c'" by auto
  then show ?case by (auto elim: captures_ok_mono)
next
  case (7 greedy r k c)
  show ?case
  proof (cases "(k', c') = (k, c)")
    case False
    with "7.prems" obtain k1 c1 where *: "(k1, c1) \<in> set (matches r k c)"
      and **: "if length (rest k1) < length (rest k)
        then (k', c') \<in> set (matches (Star greedy r) k1 c1) else (k', c') = (k1, c1)"
      by (subst (asm) matches_Star_iff) auto
    have 1: "captures_ok (groups_of r) k c c1" by (rule "7.IH"(1) [OF *])
    have 2: "captures_ok (groups_of r) k1 c1 c'"
      using ** "7.IH"(2) [OF * refl] by (auto split: if_splits)
    from 1 2 matches_reach [OF *] show ?thesis by (rule captures_ok_trans) auto
  qed simp
next
  case (8 n r k c)
  then obtain c1 where *: "(k', c1) \<in> set (matches r k c)"
    and c': "c' = (n, pos k, take (pos k' - pos k) (rest k)) # c1" by auto
  from "8.IH" [OF *] obtain d where d: "c1 = d @ c" "\<forall>x \<in> set d. capture_ok (groups_of r) k x"
    by (auto simp: captures_ok_def)
  have "capture_ok (groups_of (Group n r)) k (n, pos k, take (pos k' - pos k) (rest k))"
    by (rule capture_okI [OF _ reach_refl matches_reach [OF *] *])
       (simp_all add: reach_text [OF matches_reach [OF *]])
  moreover have "capture_ok (groups_of (Group n r)) k x" if "x \<in> set d" for x
    using d(2) that by (auto intro: capture_ok_mono [of "groups_of r" k])
  ultimately show ?case
    using c' d(1) by (auto simp: captures_ok_def intro!: exI [of _ "(n, pos k, _) # d"])
next
  case (9 want r k c)
  then show ?case by (auto split: list.splits if_splits)
qed (auto simp: one_char_def split: if_splits list.splits option.splits)

text \<open>
  So a group of a match object was matched by the body of a group of that number, inside
  the subject.
\<close>

lemma match_at_group:
  assumes "match_at r k = Some m" and "group m n = Some t" and "n \<noteq> 0"
  shows "\<exists>r' k1 k2 c1 c2. (n, r') \<in> set (groups_of r) \<and> reach k k1 \<and> reach k1 k2 \<and>
     (k2, c2) \<in> set (matches r' k1 c1) \<and> rest k1 = t @ rest k2"
proof -
  from assms(1) obtain k' c where *: "matches r k [] \<noteq> []" "hd (matches r k []) = (k', c)"
    "m = mk_match k (k', c)" by (rule match_at_SomeD)
  from *(1,2) have "(k', c) \<in> set (matches r k [])" by (metis hd_in_set)
  from matches_captures [OF this] have ok: "\<forall>x \<in> set c. capture_ok (groups_of r) k x"
    by (auto simp: captures_ok_def)
  from assms(2,3) *(3) obtain i where "map_of c n = Some (i, t)"
    by (auto simp: group_def mk_match_def)
  then have "(n, i, t) \<in> set c" by (rule map_of_SomeD)
  with ok have "capture_ok (groups_of r) k (n, i, t)" by blast
  then show ?thesis unfolding capture_ok_def by blast
qed

section \<open>Subject positions\<close>

definition cursor_at :: "string \<Rightarrow> nat \<Rightarrow> cursor" where
  "cursor_at s i =
     \<lparr>pos = i, prev = (if i = 0 then None else Some (s ! (i - 1))), rest = drop i s\<rparr>"

lemma cursor_at_0 [simp]: "cursor_at s 0 = start_cursor s"
  by (simp add: cursor_at_def start_cursor_def)

lemma reach_start: "reach (start_cursor s) k \<Longrightarrow> pos k \<le> length s \<and> k = cursor_at s (pos k)"
proof -
  assume "reach (start_cursor s) k"
  then obtain w where w: "s = w @ rest k" "pos k = length w"
    "prev k = (if w = [] then None else Some (last w))"
    by (auto simp: reach_def start_cursor_def)
  moreover have "last w = s ! (length w - 1)" if "w \<noteq> []"
    using w(1) that by (metis diff_less last_conv_nth length_greater_0_conv nth_append zero_less_one)
  ultimately show "pos k \<le> length s \<and> k = cursor_at s (pos k)"
    by (auto simp: cursor_at_def)
qed

lemma reach_cursor_at: "i \<le> length s \<Longrightarrow> reach (start_cursor s) (cursor_at s i)"
  unfolding reach_def start_cursor_def cursor_at_def
  by (intro exI [of _ "take i s"])
     (auto simp: last_conv_nth nth_append min_def)

lemma match_at_rel:
  assumes "no_backref r" and "match_at r k = Some m"
  shows "\<exists>k'. reach k k' \<and> (k, k') \<in> rx_rel r \<and> m_start m = pos k \<and> m_end m = pos k'"
proof -
  from assms(2) obtain k' c where *: "matches r k [] \<noteq> []" "hd (matches r k []) = (k', c)"
    "reach k k'" "m = mk_match k (k', c)" by (rule match_at_SomeD)
  from *(1,2) have "k' \<in> fst ` set (matches r k [])" by (metis fst_conv hd_in_set image_eqI)
  with matches_rx_rel [OF assms(1)] have "(k, k') \<in> rx_rel r" by auto
  with * show ?thesis by (auto simp: mk_match_def)
qed

section \<open>Substitution\<close>

text \<open>Deleting all matches leaves a subsequence; without a match nothing changes.\<close>

lemma sub_from_delete: "subseq (sub_from r (\<lambda>_. []) just k) (rest k)"
proof (induction r "\<lambda>_::mobj. []::string" just k rule: sub_from.induct)
  case (1 r just k)
  have adv: "rest k = x # xs \<Longrightarrow> rest (advance k) = xs" for x xs
    by (simp add: advance_def)
  show ?case
  proof (cases "matches r k []")
    case Nil
    with "1"(1) adv show ?thesis
      by (subst sub_from.simps) (auto split: list.splits)
  next
    case (Cons kc kcs)
    obtain k' c' where kc: "kc = (k', c')" by (cases kc)
    with Cons have "reach k k'" by (metis list.set_intros(1) matches_reach)
    then obtain w where w: "rest k = w @ rest k'" by (auto simp: reach_def)
    show ?thesis
    proof (cases "length (rest k') < length (rest k)")
      case True
      with "1"(2) [OF Cons] kc have "subseq (sub_from r (\<lambda>_. []) True k') (rest k')" by simp
      with w have "subseq (sub_from r (\<lambda>_. []) True k') (rest k)"
        by (simp add: list_emb_append2)
      with Cons kc True show ?thesis by (subst sub_from.simps) simp
    next
      case False
      with "1"(3) [OF Cons] kc Cons adv show ?thesis
        by (subst sub_from.simps) (auto split: list.splits)
    qed
  qed
qed

lemma sub_from_no_match:
  "(\<And>k'. reach k k' \<Longrightarrow> matches r k' [] = []) \<Longrightarrow> sub_from r rep just k = rest k"
proof (induction r rep just k rule: sub_from.induct)
  case (1 r rep just k)
  from "1.prems" [of k] have no: "matches r k [] = []" by simp
  show ?case
  proof (cases "rest k")
    case Nil
    with no show ?thesis by (subst sub_from.simps) simp
  next
    case (Cons x xs)
    have "sub_from r rep False (advance k) = rest (advance k)"
      using "1.IH"(1) [OF no Cons] "1.prems" reach_trans [OF reach_advance] by blast
    with no Cons show ?thesis by (subst sub_from.simps) (simp add: advance_def)
  qed
qed

text \<open>Replacing a character class works character by character.\<close>

lemma sub_from_class:
  "sub_from (Class neg items) (\<lambda>_. rep) just k =
     concat (map (\<lambda>c. if class_has neg items c then rep else [c]) (rest k))"
proof (induction "rest k" arbitrary: k just)
  case Nil
  then show ?case by (subst sub_from.simps) (simp add: one_char_def)
next
  case (Cons x xs)
  then have a: "rest (advance k) = xs" by (simp add: advance_def flip: Cons.hyps(2))
  from Cons.hyps(1) [of "advance k"] a Cons.hyps(2) [symmetric] show ?case
    by (subst sub_from.simps) (simp add: one_char_def)
qed

section \<open>The laws of the wrappers\<close>

lemma Search_None_iff:
  "Search p s = None \<longleftrightarrow> (\<forall>i \<le> length s. match_at (rx p) (cursor_at s i) = None)"
  unfolding Search_def re_search_def search_from_None_iff
  using reach_start reach_cursor_at by metis

lemma Search_SomeD:
  assumes "Search p s = Some m"
  shows "m_start m \<le> length s" "match_at (rx p) (cursor_at s (m_start m)) = Some m"
    "\<forall>i < m_start m. match_at (rx p) (cursor_at s i) = None"
proof -
  from assms obtain k1 where k1: "reach (start_cursor s) k1" "match_at (rx p) k1 = Some m"
    "\<forall>k2. reach (start_cursor s) k2 \<longrightarrow> pos k2 < pos k1 \<longrightarrow> match_at (rx p) k2 = None"
    unfolding Search_def re_search_def by (blast dest: search_from_SomeD)
  from match_at_span(1) [OF k1(2)] have st: "m_start m = pos k1" .
  from reach_start [OF k1(1)] st have k: "pos k1 \<le> length s" "k1 = cursor_at s (m_start m)" by auto
  with st k1(2) show "m_start m \<le> length s" "match_at (rx p) (cursor_at s (m_start m)) = Some m"
    by auto
  have "pos (cursor_at s i) = i" for i by (simp add: cursor_at_def)
  with k1(3) st k(1) reach_cursor_at [of _ s]
  show "\<forall>i < m_start m. match_at (rx p) (cursor_at s i) = None"
    by (metis le_trans nat_less_le)
qed

lemma ReplaceAll_delete: "subseq (ReplaceAll p [] s) s"
  unfolding ReplaceAll_def re_sub_def
  using sub_from_delete [of "rx p" False "start_cursor s"] by (simp add: start_cursor_def)

lemma re_sub_no_match:
  assumes "\<forall>i \<le> length s. match_at r (cursor_at s i) = None"
  shows "re_sub r rep s = s"
proof -
  have "matches r k' [] = []" if "reach (start_cursor s) k'" for k'
    using assms reach_start [OF that] by (metis (no_types, lifting) list.case_eq_if match_at_def option.simps(3))
  then have "sub_from r rep False (start_cursor s) = rest (start_cursor s)"
    by (rule sub_from_no_match)
  then show ?thesis by (simp add: re_sub_def start_cursor_def)
qed

section \<open>Reading the groups of a sequence\<close>

text \<open>
  A pattern that is a sequence of groups and other parts divides the subject: these
  lemmas follow the parts one by one, with the captures that each adds.
\<close>

lemma matches_Cat_iff:
  "(k2, c2) \<in> set (matches (Cat r s) k c) \<longleftrightarrow>
     (\<exists>k1 c1. (k1, c1) \<in> set (matches r k c) \<and> (k2, c2) \<in> set (matches s k1 c1))"
  by auto

lemma matches_GroupD:
  assumes "(k1, c1) \<in> set (matches (Group n r) k c)"
  shows "\<exists>w c0. c1 = (n, pos k, w) # c0 \<and> rest k = w @ rest k1 \<and> (k1, c0) \<in> set (matches r k c)"
proof -
  from assms obtain c0 where c0: "(k1, c0) \<in> set (matches r k c)"
    "c1 = (n, pos k, take (pos k1 - pos k) (rest k)) # c0" by auto
  with reach_text [OF matches_reach [OF c0(1)]] show ?thesis by metis
qed

lemma matches_plainD:
  assumes "groups_of r = []" and "(k1, c1) \<in> set (matches r k c)"
  shows "c1 = c \<and> (\<exists>w. rest k = w @ rest k1)"
proof -
  from matches_captures [OF assms(2)] assms(1) obtain d where
    d: "c1 = d @ c" "\<forall>x \<in> set d. \<not> True" by (auto simp: captures_ok_def capture_ok_def)
  then have "c1 = c" by (cases d) auto
  with reach_text [OF matches_reach [OF assms(2)]] show ?thesis by metis
qed

lemma matches_ClassD:
  "(k1, c1) \<in> set (matches (Class neg items) k c) \<Longrightarrow>
     c1 = c \<and> (\<exists>x. rest k = x # rest k1 \<and> class_has neg items x)"
  by (auto simp: one_char_def advance_def split: list.splits if_splits)

lemma matches_relD: "no_backref r \<Longrightarrow> (k1, c1) \<in> set (matches r k c) \<Longrightarrow> (k, k1) \<in> rx_rel r"
  using matches_rx_rel [of r k c] by force

lemma Match_SomeD:
  assumes "Match p s = Some m"
  shows "\<exists>k'. (k', m_caps m) \<in> set (matches (rx p) (start_cursor s) [])"
proof -
  from assms obtain k' c where "matches (rx p) (start_cursor s) [] \<noteq> []"
    "hd (matches (rx p) (start_cursor s) []) = (k', c)" "m = mk_match (start_cursor s) (k', c)"
    unfolding Match_def re_match_def by (rule match_at_SomeD)
  then show ?thesis by (auto simp: mk_match_def intro!: exI [of _ k'] dest: hd_in_set)
qed

lemma Match_None_iff: "no_backref (rx p) \<Longrightarrow> Match p s = None \<longleftrightarrow> start_cursor s \<notin> Domain (rx_rel (rx p))"
  unfolding Match_def re_match_def by (rule match_at_None_iff)

lemma grp_caps: "n \<noteq> 0 \<Longrightarrow> grp m n = (case map_of (m_caps m) n of None \<Rightarrow> [] | Some (i, t) \<Rightarrow> t)"
  by (auto simp: grp_def group_def split: option.splits)

lemma start_cursor_sel [simp]:
  "rest (start_cursor s) = s" "prev (start_cursor s) = None" "pos (start_cursor s) = 0"
  by (simp_all add: start_cursor_def)

text \<open>
  C14: \<open>Search\<close> finds the leftmost match and misses none. Against the relational meaning of
  the pattern (\<open>rx_rel\<close>, free of any matching order): when it returns a match, the pattern
  relates the start of the match to its end, the text is the substring between them, and no
  match starts earlier; when it returns \<open>None\<close>, the pattern matches at no position of the
  subject. The pattern must have no back-reference.
\<close>

theorem search_leftmost:
  assumes "no_backref (rx p)"
  shows "case Search p s of
      None \<Rightarrow> \<forall>i \<le> length s. cursor_at s i \<notin> Domain (rx_rel (rx p))
    | Some m \<Rightarrow> m_start m \<le> m_end m \<and> m_end m \<le> length s \<and>
        (cursor_at s (m_start m), cursor_at s (m_end m)) \<in> rx_rel (rx p) \<and>
        m_text m = take (m_end m - m_start m) (drop (m_start m) s) \<and>
        (\<forall>i < m_start m. cursor_at s i \<notin> Domain (rx_rel (rx p)))"
proof (cases "Search p s")
  case None
  with Search_None_iff [of p s] match_at_None_iff [OF assms] show ?thesis by simp
next
  case (Some m)
  let ?k = "cursor_at s (m_start m)"
  note S = Search_SomeD [OF Some]
  from match_at_rel [OF assms S(2)] obtain k' where
    k': "reach ?k k'" "(?k, k') \<in> rx_rel (rx p)" "m_end m = pos k'" by blast
  from reach_start [OF reach_trans [OF reach_cursor_at [OF S(1)] k'(1)]] k'(3)
  have e: "m_end m \<le> length s" "k' = cursor_at s (m_end m)" by simp_all
  have "rest ?k = drop (m_start m) s" by (simp add: cursor_at_def)
  with match_at_span [OF S(2)] e k'(2) S(3) match_at_None_iff [OF assms] Some show ?thesis by simp
qed

theorem search_leftmost_witness:
  "\<exists>m. Search ''b+'' ''abbc'' = Some m \<and> m_start m = 1 \<and>
     m_text m = take (m_end m - m_start m) (drop (m_start m) ''abbc'') \<and>
     cursor_at ''abbc'' 0 \<notin> Domain (rx_rel (rx ''b+''))"
proof -
  have "no_backref (rx ''b+'')" by code_simp
  moreover have "map_option m_start (Search ''b+'' ''abbc'') = Some 1" by code_simp
  ultimately show ?thesis using search_leftmost [of "''b+''" "''abbc''"] by (auto split: option.splits)
qed

end
