(* ===== verification/Expressions.thy ===== *)
theory Expressions
  imports Regex_Semantics
begin

text \<open>
  Matching brackets over the cleansed lines of a file: \<open>FindEndOfExpressionInLine\<close> and
  \<open>CloseExpression\<close> scan forward, \<open>FindStartOfExpressionInLine\<close> and
  \<open>ReverseCloseExpression\<close> backward. A stack holds the brackets that are still open; its
  head is the last element of the Python list.
\<close>

section \<open>Scanning forward in a line\<close>

text \<open>
  The result of scanning a line: the position of the end, an unclosed or mismatched
  expression (\<open>(-1, None)\<close>), or the stack at the end of the line (\<open>(-1, stack)\<close>).
\<close>

datatype scan = Found nat | Broken | Pending string

definition is_open :: "char \<Rightarrow> bool" where
  "is_open c \<longleftrightarrow> c \<in> {CHR ''('', CHR ''['', CHR ''{''}"

definition is_close :: "char \<Rightarrow> bool" where
  "is_close c \<longleftrightarrow> c \<in> {CHR '')'', CHR '']'', CHR ''}''}"

definition closes :: "char \<Rightarrow> char \<Rightarrow> bool" where
  "closes a b \<longleftrightarrow> a = CHR ''('' \<and> b = CHR '')'' \<or> a = CHR ''['' \<and> b = CHR '']'' \<or>
     a = CHR ''{'' \<and> b = CHR ''}''"

text \<open>\<open>while stack and stack[-1] == c: stack.pop()\<close>\<close>

definition pop_all :: "char \<Rightarrow> string \<Rightarrow> string" where
  "pop_all c stack = dropWhile (\<lambda>x. x = c) stack"

definition OPERATOR_AT_END :: string where
  "OPERATOR_AT_END = raw ''`boperator`s*$''"

text \<open>
  One iteration at index \<open>i\<close>: stop with a result, or go on with a new stack.
\<close>

definition end_step :: "string \<Rightarrow> nat \<Rightarrow> string \<Rightarrow> scan + string" where
  "end_step line i stack =
     (let char = line ! i
      in if is_open char then Inr (char # stack)
         else if char = CHR ''<'' then
           (if 0 < i \<and> line ! (i - 1) = CHR ''<'' then
              (case stack of
                 s # stack' \<Rightarrow> if s = CHR ''<'' then
                     (if stack' = [] then Inl Broken else Inr stack')
                   else Inr stack
               | [] \<Rightarrow> Inr stack)
            else if 0 < i \<and> Search OPERATOR_AT_END (take i line) \<noteq> None then Inr stack
            else Inr (CHR ''<'' # stack))
         else if is_close char then
           (case pop_all CHR ''<'' stack of
              [] \<Rightarrow> Inl Broken
            | s # stack' \<Rightarrow>
                if closes s char then (if stack' = [] then Inl (Found (i + 1)) else Inr stack')
                else Inl Broken)
         else if char = CHR ''>'' then
           (if 0 < i \<and> (line ! (i - 1) = CHR ''-'' \<or>
                        Search OPERATOR_AT_END (take (i - 1) line) \<noteq> None) then Inr stack
            else (case stack of
                [] \<Rightarrow> Inr stack
              | s # stack' \<Rightarrow> if s = CHR ''<'' then
                    (if stack' = [] then Inl (Found (i + 1)) else Inr stack')
                  else Inr stack))
         else if char = CHR '';'' then
           (case pop_all CHR ''<'' stack of
              [] \<Rightarrow> Inl Broken
            | stack' \<Rightarrow> Inr stack')
         else Inr stack)"

function end_loop :: "string \<Rightarrow> nat \<Rightarrow> string \<Rightarrow> scan" where
  "end_loop line i stack =
     (if i < length line then
        (case end_step line i stack of Inl r \<Rightarrow> r | Inr stack' \<Rightarrow> end_loop line (Suc i) stack')
      else Pending stack)"
  by pat_completeness auto
termination
  by (relation "measure (\<lambda>(line, i, stack). length line - i)") auto

declare end_loop.simps [simp del]

definition FindEndOfExpressionInLine :: "string \<Rightarrow> nat \<Rightarrow> string \<Rightarrow> scan" where
  "FindEndOfExpressionInLine line startpos stack = end_loop line startpos stack"

section \<open>Closing an expression\<close>

text \<open>
  \<open>CloseExpression\<close> returns the line, its number and the position past the is_close
  bracket, or \<open>(line, NumLines, -1)\<close>. The loop runs while the stack is not empty and a
  line is left; \<open>line\<close> is the last line scanned.
\<close>

function close_loop :: "string list \<Rightarrow> string \<Rightarrow> nat \<Rightarrow> scan \<Rightarrow> string \<times> nat \<times> int" where
  "close_loop elided line linenum r =
     (case r of
        Found e \<Rightarrow> (line, linenum, int e)
      | Broken \<Rightarrow> (line, length elided, -1)
      | Pending stack \<Rightarrow>
          if stack \<noteq> [] \<and> Suc linenum < length elided then
            close_loop elided (elided ! Suc linenum) (Suc linenum)
              (FindEndOfExpressionInLine (elided ! Suc linenum) 0 stack)
          else (line, length elided, -1))"
  by pat_completeness auto
termination
  by (relation "measure (\<lambda>(elided, line, linenum, r). length elided - linenum)") auto

declare close_loop.simps [simp del]

definition CloseExpression :: "string list \<Rightarrow> nat \<Rightarrow> nat \<Rightarrow> (string \<times> nat \<times> int) res" where
  "CloseExpression elided linenum col =
     bind_res (py_nth elided (int linenum)) (\<lambda>line.
     bind_res (py_nth line (int col)) (\<lambda>char.
       if \<not> (is_open char \<or> char = CHR ''<'') \<or> Match ''<[<=]'' (drop col line) \<noteq> None
       then Inr (line, length elided, -1)
       else Inr (close_loop elided line linenum (FindEndOfExpressionInLine line col []))))"

section \<open>Scanning backward in a line\<close>

text \<open>
  One iteration of \<open>FindStartOfExpressionInLine\<close> at \<open>i\<close>: a result, or the new stack with
  the number of characters that the step consumes.
\<close>

definition start_step :: "string \<Rightarrow> nat \<Rightarrow> string \<Rightarrow> scan + (string \<times> nat)" where
  "start_step line i stack =
     (let char = line ! i
      in if is_close char then Inr (char # stack, 1)
         else if char = CHR ''>'' then
           (if 0 < i \<and> (line ! (i - 1) = CHR ''-'' \<or>
                        Match (raw ''`s>=`s'') (drop (i - 1) line) \<noteq> None \<or>
                        Search OPERATOR_AT_END (take i line) \<noteq> None)
            then Inr (stack, 2) else Inr (CHR ''>'' # stack, 1))
         else if char = CHR ''<'' then
           (if 0 < i \<and> line ! (i - 1) = CHR ''<'' then Inr (stack, 2)
            else (case stack of
                [] \<Rightarrow> Inr (stack, 1)
              | s # stack' \<Rightarrow> if s = CHR ''>'' then
                    (if stack' = [] then Inl (Found i) else Inr (stack', 1))
                  else Inr (stack, 1)))
         else if is_open char then
           (case pop_all CHR ''>'' stack of
              [] \<Rightarrow> Inl Broken
            | s # stack' \<Rightarrow>
                if closes char s then (if stack' = [] then Inl (Found i) else Inr (stack', 1))
                else Inl Broken)
         else if char = CHR '';'' then
           (case pop_all CHR ''>'' stack of
              [] \<Rightarrow> Inl Broken
            | stack' \<Rightarrow> Inr (stack', 1))
         else Inr (stack, 1))"

text \<open>\<open>n\<close> is \<open>i + 1\<close>, so that the loop ends at 0.\<close>

function start_loop :: "string \<Rightarrow> nat \<Rightarrow> string \<Rightarrow> scan" where
  "start_loop line n stack =
     (if n = 0 then Pending stack
      else (case start_step line (n - 1) stack of
          Inl r \<Rightarrow> r
        | Inr (stack', d) \<Rightarrow> start_loop line (n - (if d = 0 then 1 else d)) stack'))"
  by pat_completeness auto
termination
  by (relation "measure (\<lambda>(line, n, stack). n)") auto

declare start_loop.simps [simp del]

definition FindStartOfExpressionInLine :: "string \<Rightarrow> nat \<Rightarrow> string \<Rightarrow> scan" where
  "FindStartOfExpressionInLine line endpos stack = start_loop line (Suc endpos) stack"

function reverse_loop :: "string list \<Rightarrow> string \<Rightarrow> nat \<Rightarrow> scan \<Rightarrow> string \<times> nat \<times> int" where
  "reverse_loop elided line linenum r =
     (case r of
        Found p \<Rightarrow> (line, linenum, int p)
      | Broken \<Rightarrow> (line, 0, -1)
      | Pending stack \<Rightarrow>
          if stack \<noteq> [] \<and> 0 < linenum then
            reverse_loop elided (elided ! (linenum - 1)) (linenum - 1)
              (start_loop (elided ! (linenum - 1)) (length (elided ! (linenum - 1))) stack)
          else (line, 0, -1))"
  by pat_completeness auto
termination
  by (relation "measure (\<lambda>(elided, line, linenum, r). linenum)") auto

declare reverse_loop.simps [simp del]

definition ReverseCloseExpression :: "string list \<Rightarrow> nat \<Rightarrow> nat \<Rightarrow> (string \<times> nat \<times> int) res" where
  "ReverseCloseExpression elided linenum col =
     bind_res (py_nth elided (int linenum)) (\<lambda>line.
     bind_res (py_nth line (int col)) (\<lambda>char.
       if \<not> (is_close char \<or> char = CHR ''>'')
       then Inr (line, 0, -1)
       else Inr (reverse_loop elided line linenum (FindStartOfExpressionInLine line col []))))"

section \<open>Bounds of the scans\<close>

lemma end_step_Found: "end_step line i stack = Inl (Found e) \<Longrightarrow> e = i + 1"
  by (auto simp: end_step_def Let_def split: if_splits list.splits)

lemma end_loop_Found:
  "end_loop line i stack = Found e \<Longrightarrow> i < e \<and> e \<le> length line \<and>
     (\<exists>stack'. end_step line (e - 1) stack' = Inl (Found e))"
proof (induction line i stack rule: end_loop.induct)
  case (1 line i stack)
  then have i: "i < length line" by (subst (asm) end_loop.simps) (auto split: if_splits)
  show ?case
  proof (cases "end_step line i stack")
    case (Inl r)
    with "1.prems" i have "r = Found e" by (subst (asm) end_loop.simps) simp
    with Inl end_step_Found [of line i stack e] i show ?thesis by auto
  next
    case (Inr stack')
    with "1.prems" i have "end_loop line (Suc i) stack' = Found e"
      by (subst (asm) end_loop.simps) simp
    from "1.IH" [OF i Inr this] show ?thesis by auto
  qed
qed

text \<open>An empty stack never closes anything at its first character.\<close>

lemma end_step_Nil: "end_step line i [] \<noteq> Inl (Found e)"
  by (auto simp: end_step_def Let_def pop_all_def split: if_splits)

lemma end_loop_Nil: "end_loop line i [] = Found e \<Longrightarrow> Suc i < e"
proof -
  assume f: "end_loop line i [] = Found e"
  from end_loop_Found [OF f] have i: "i < length line" by auto
  show "Suc i < e"
  proof (cases "end_step line i []")
    case (Inl r)
    with f i end_step_Nil [of line i e] show ?thesis by (subst (asm) end_loop.simps) simp
  next
    case (Inr stack')
    with f i have "end_loop line (Suc i) stack' = Found e" by (subst (asm) end_loop.simps) simp
    from end_loop_Found [OF this] show ?thesis by simp
  qed
qed

lemma close_loop_bounds:
  "close_loop elided line n r = (line', n', p) \<Longrightarrow> 0 \<le> p \<Longrightarrow> n < length elided \<Longrightarrow>
   line = elided ! n \<Longrightarrow> (\<And>e. r = Found e \<Longrightarrow> lo < e \<and> e \<le> length line) \<Longrightarrow>
     n \<le> n' \<and> n' < length elided \<and> line' = elided ! n' \<and> nat p \<le> length line' \<and> 0 < p \<and>
     (n' = n \<longrightarrow> int lo < p)"
proof (induction elided line n r arbitrary: lo rule: close_loop.induct)
  case (1 elided line n r)
  show ?case
  proof (cases r)
    case (Found e)
    with "1.prems" show ?thesis by (subst (asm) close_loop.simps) auto
  next
    case Broken
    with "1.prems" show ?thesis by (subst (asm) close_loop.simps) auto
  next
    case (Pending stack)
    with "1.prems"(1,2) close_loop.simps [of elided line n r]
    have c: "stack \<noteq> [] \<and> Suc n < length elided"
      and rec: "close_loop elided (elided ! Suc n) (Suc n)
        (FindEndOfExpressionInLine (elided ! Suc n) 0 stack) = (line', n', p)"
      by (auto split: if_splits)
    have "Suc n \<le> n' \<and> n' < length elided \<and> line' = elided ! n' \<and> nat p \<le> length line' \<and> 0 < p \<and>
        (n' = Suc n \<longrightarrow> int 0 < p)"
      using c by (intro "1.IH" [OF Pending c rec "1.prems"(2)])
         (auto simp: FindEndOfExpressionInLine_def dest: end_loop_Found)
    then show ?thesis by auto
  qed
qed

lemma close_loop_neg: "close_loop elided line n r = (line', n', p) \<Longrightarrow> p \<noteq> -1 \<Longrightarrow> 0 \<le> p"
proof (induction elided line n r rule: close_loop.induct)
  case (1 elided line n r)
  with close_loop.simps [of elided line n r] show ?case by (cases r) (auto split: if_splits)
qed

section \<open>Balanced brackets\<close>

text \<open>
  The grammar of balanced text, for brackets that open (\<open>push\<close>), brackets that close
  (\<open>pop\<close>) and a relation that says which close which; other characters are free.
\<close>

inductive balanced ::
  "(char \<Rightarrow> bool) \<Rightarrow> (char \<Rightarrow> bool) \<Rightarrow> (char \<Rightarrow> char \<Rightarrow> bool) \<Rightarrow> string \<Rightarrow> bool"
  for push pop mat where
  nil: "balanced push pop mat []"
| other: "\<not> push c \<Longrightarrow> \<not> pop c \<Longrightarrow> balanced push pop mat w \<Longrightarrow> balanced push pop mat (c # w)"
| wrap: "mat a b \<Longrightarrow> balanced push pop mat u \<Longrightarrow> balanced push pop mat v \<Longrightarrow>
     balanced push pop mat (a # u @ b # v)"

text \<open>\<open>w\<close> closes all brackets of a stack, its last character the last of them.\<close>

fun closes_stack ::
  "(char \<Rightarrow> bool) \<Rightarrow> (char \<Rightarrow> bool) \<Rightarrow> (char \<Rightarrow> char \<Rightarrow> bool) \<Rightarrow> string \<Rightarrow> string \<Rightarrow> bool" where
  "closes_stack push pop mat [] w = (w = [])"
| "closes_stack push pop mat (a # st) w =
     (\<exists>u b v. w = u @ b # v \<and> balanced push pop mat u \<and> mat a b \<and> closes_stack push pop mat st v)"

text \<open>A stack machine that reads a text and stops where the stack becomes empty.\<close>

fun bscan ::
  "(char \<Rightarrow> bool) \<Rightarrow> (char \<Rightarrow> bool) \<Rightarrow> (char \<Rightarrow> char \<Rightarrow> bool) \<Rightarrow> nat \<Rightarrow> string \<Rightarrow> string \<Rightarrow> scan"
where
  "bscan push pop mat i [] stack = Pending stack"
| "bscan push pop mat i (c # cs) stack =
     (if push c then bscan push pop mat (Suc i) cs (c # stack)
      else if pop c then
        (case stack of
           [] \<Rightarrow> Broken
         | s # st \<Rightarrow> if mat s c then (if st = [] then Found (Suc i)
                                    else bscan push pop mat (Suc i) cs st)
                    else Broken)
      else bscan push pop mat (Suc i) cs stack)"

text \<open>
  The interface of the two scanners: what a pair of bracket predicates has to satisfy for
  the stack machine to recognise the grammar.
\<close>

locale bracket_pair =
  fixes push pop :: "char \<Rightarrow> bool" and mat :: "char \<Rightarrow> char \<Rightarrow> bool"
  assumes mat_push: "mat a b \<Longrightarrow> push a"
    and mat_pop: "mat a b \<Longrightarrow> pop b"
    and excl: "push c \<Longrightarrow> \<not> pop c"
begin

lemma balanced_append:
  "balanced push pop mat u \<Longrightarrow> balanced push pop mat v \<Longrightarrow> balanced push pop mat (u @ v)"
  by (induction rule: balanced.induct) (auto intro: balanced.intros)

lemma closes_stack_grow:
  assumes "closes_stack push pop mat st w" and "st \<noteq> []" and "balanced push pop mat u"
  shows "closes_stack push pop mat st (u @ w)"
proof -
  from assms(2) obtain a st' where st: "st = a # st'" by (cases st) auto
  with assms(1) obtain x b v where "w = x @ b # v" "balanced push pop mat x" "mat a b"
    "closes_stack push pop mat st' v" by auto
  with balanced_append [OF assms(3)] show ?thesis
    by (auto simp: st intro!: exI [of _ "u @ x"])
qed

lemma bscan_sound:
  "bscan push pop mat i w stack = Found e \<Longrightarrow> stack \<noteq> [] \<Longrightarrow>
     i < e \<and> e \<le> i + length w \<and> closes_stack push pop mat stack (take (e - i) w)"
proof (induction w arbitrary: i stack)
  case (Cons c w)
  have shift: "take (e - i) (c # w) = c # take (e - Suc i) w" if "Suc i \<le> e"
    using that by (simp add: take_Cons' Suc_diff_le)
  show ?case
  proof (cases "push c")
    case True
    with Cons.prems have "bscan push pop mat (Suc i) w (c # stack) = Found e" by simp
    from Cons.IH [OF this list.discI [OF refl]] have IH: "Suc i < e" "e \<le> Suc i + length w"
      and cl: "closes_stack push pop mat (c # stack) (take (e - Suc i) w)" by blast+
    from cl obtain u b v where w: "take (e - Suc i) w = u @ b # v" "balanced push pop mat u" "mat c b"
      "closes_stack push pop mat stack v" by auto
    have "balanced push pop mat (c # u @ b # [])" using w by (auto intro: balanced.intros)
    from closes_stack_grow [OF w(4) Cons.prems(2) this] w(1) shift IH show ?thesis by simp
  next
    case np: False
    show ?thesis
    proof (cases "pop c")
      case True
      with np Cons.prems obtain s st where st: "stack = s # st" "mat s c"
        by (cases stack) (auto split: if_splits)
      show ?thesis
      proof (cases "st = []")
        case True
        with st np \<open>pop c\<close> Cons.prems have "e = Suc i" by simp
        with st True show ?thesis by (auto intro!: exI [of _ "[]"] balanced.nil)
      next
        case False
        with st np \<open>pop c\<close> Cons.prems have "bscan push pop mat (Suc i) w st = Found e" by simp
        from Cons.IH [OF this False] shift st show ?thesis
          by (auto intro!: exI [of _ "[]"] balanced.nil)
      qed
    next
      case False
      with np Cons.prems have "bscan push pop mat (Suc i) w stack = Found e" by simp
      note IH = Cons.IH [OF this Cons.prems(2)]
      have "balanced push pop mat [c]" using np False by (auto intro: balanced.intros)
      from closes_stack_grow [OF _ Cons.prems(2) this] IH shift show ?thesis by simp
    qed
  qed
qed simp

lemma bscan_balanced:
  "balanced push pop mat u \<Longrightarrow> stack \<noteq> [] \<Longrightarrow>
     bscan push pop mat i (u @ w) stack = bscan push pop mat (i + length u) w stack"
proof (induction arbitrary: i stack w rule: balanced.induct)
  case (wrap a b u v)
  from mat_push [OF wrap.hyps(1)] mat_pop [OF wrap.hyps(1)] excl [of b]
  have "push a" "pop b" "\<not> push b" by auto
  with wrap show ?case by (simp add: add.assoc)
qed auto

lemma bscan_complete:
  "closes_stack push pop mat stack u \<Longrightarrow> stack \<noteq> [] \<Longrightarrow>
     bscan push pop mat i (u @ w) stack = Found (i + length u)"
proof (induction stack arbitrary: i u)
  case (Cons a st)
  then obtain x b v where u: "u = x @ b # v" "balanced push pop mat x" "mat a b"
    "closes_stack push pop mat st v" by auto
  from mat_pop [OF u(3)] excl have b: "pop b" "\<not> push b" by auto
  show ?case
  proof (cases "st = []")
    case True
    with u b show ?thesis by (simp add: bscan_balanced)
  next
    case False
    with Cons.IH [OF u(4) False] u b show ?thesis by (simp add: bscan_balanced)
  qed
qed simp

lemma bscan_append:
  "stack \<noteq> [] \<Longrightarrow> bscan push pop mat i (u @ w) stack =
     (case bscan push pop mat i u stack of
        Pending st \<Rightarrow> bscan push pop mat (i + length u) w st
      | r \<Rightarrow> r)"
  by (induction u arbitrary: i stack) (auto split: list.splits scan.splits)

lemma bscan_shift:
  "bscan push pop mat (d + i) w stack =
     (case bscan push pop mat i w stack of Found e \<Rightarrow> Found (d + e) | r \<Rightarrow> r)"
proof (induction w arbitrary: i stack)
  case (Cons c w)
  from Cons.IH [of "Suc i"] show ?case by (auto split: list.splits scan.splits)
qed simp

lemma bscan_pending_push:
  "bscan push pop mat i w stack = Pending st \<Longrightarrow> \<forall>c \<in> set stack. push c \<Longrightarrow> \<forall>c \<in> set st. push c"
proof (induction w arbitrary: i stack)
  case (Cons c w)
  show ?case
  proof (cases "push c")
    case True
    with Cons.prems have "bscan push pop mat (Suc i) w (c # stack) = Pending st"
      "\<forall>x \<in> set (c # stack). push x" by simp_all
    then show ?thesis by (rule Cons.IH)
  next
    case False
    with Cons.prems obtain st' where
      "bscan push pop mat (Suc i) w st' = Pending st" "\<forall>x \<in> set st'. push x"
      by (auto split: if_splits list.splits)
    then show ?thesis by (rule Cons.IH)
  qed
qed simp

lemma bscan_pending: "bscan push pop mat i w stack = Pending st \<Longrightarrow> stack \<noteq> [] \<Longrightarrow> st \<noteq> []"
  by (induction w arbitrary: i stack) (auto split: if_splits list.splits)

text \<open>From an opening bracket: the end found is the end of a balanced expression.\<close>

lemma bscan_expression:
  assumes "push a"
  shows "bscan push pop mat i (a # w) [] = Found e \<longleftrightarrow>
    (\<exists>u b v. w = u @ b # v \<and> balanced push pop mat u \<and> mat a b \<and> e = i + length u + 2)"
proof
  assume "bscan push pop mat i (a # w) [] = Found e"
  with assms have f: "bscan push pop mat (Suc i) w [a] = Found e" by simp
  from bscan_sound [OF f] obtain u b where
    u: "take (e - Suc i) w = u @ [b]" "balanced push pop mat u" "mat a b" "Suc i < e"
      "e \<le> Suc i + length w" by auto
  then have "w = u @ b # drop (e - Suc i) w"
    by (metis append.assoc append_Cons append_Nil append_take_drop_id)
  moreover have "e = i + length u + 2" using arg_cong [OF u(1), of length] u(4,5) by simp
  ultimately show "\<exists>u b v. w = u @ b # v \<and> balanced push pop mat u \<and> mat a b \<and>
      e = i + length u + 2" using u(2,3) by blast
next
  assume "\<exists>u b v. w = u @ b # v \<and> balanced push pop mat u \<and> mat a b \<and> e = i + length u + 2"
  then obtain u b v where u: "w = u @ b # v" "balanced push pop mat u" "mat a b"
    "e = i + length u + 2" by blast
  then have "closes_stack push pop mat [a] (u @ [b])" by auto
  from bscan_complete [OF this, of "Suc i" v] u assms
  show "bscan push pop mat i (a # w) [] = Found e" by simp
qed

end

interpretation fwd: bracket_pair is_open is_close closes
  by unfold_locales (auto simp: is_open_def is_close_def closes_def)

interpretation bwd: bracket_pair is_close is_open "\<lambda>a b. closes b a"
  by unfold_locales (auto simp: is_open_def is_close_def closes_def)

section \<open>Angle brackets\<close>

text \<open>
  The scanners guess which \<open><\<close> and \<open>>\<close> delimit template arguments and keep their guesses
  on the same stack as the other brackets. From a round, square or curly bracket the guesses
  cannot change what is found: a closing bracket and a semicolon drop the guesses above the
  bracket they meet, so the stack without its guesses is the stack of the machine above. A
  stack is \<open>live\<close> when its oldest entry is a bracket, and the others are brackets or guesses
  \<open>a\<close>; it can only become empty when that bracket is closed.
\<close>

definition live :: "(char \<Rightarrow> bool) \<Rightarrow> char \<Rightarrow> string \<Rightarrow> bool" where
  "live P a stack \<longleftrightarrow> stack \<noteq> [] \<and> P (last stack) \<and> \<not> P a \<and> (\<forall>x \<in> set stack. P x \<or> x = a)"

abbreviation solid :: "char \<Rightarrow> string \<Rightarrow> string" where
  "solid a \<equiv> filter (\<lambda>x. x \<noteq> a)"

lemma live_push: "live P a stack \<Longrightarrow> P x \<or> x = a \<Longrightarrow> live P a (x # stack)"
  by (auto simp: live_def)

lemma live_pop: "live P a (x # stack) \<Longrightarrow> stack \<noteq> [] \<Longrightarrow> live P a stack"
  by (auto simp: live_def)

lemma live_not_guess: "live P a (x # stack) \<Longrightarrow> stack = [] \<Longrightarrow> x \<noteq> a"
  by (auto simp: live_def)

lemma live_solid: "live P a stack \<Longrightarrow> solid a stack \<noteq> []"
  by (auto simp: live_def filter_empty_conv intro!: bexI [of _ "last stack"])

lemma live_pop_all:
  "live P a stack \<Longrightarrow> \<exists>s st. pop_all a stack = s # st \<and> P s \<and> s \<noteq> a \<and> live P a (s # st) \<and>
     solid a stack = s # solid a st"
proof (induction stack)
  case (Cons x stack)
  show ?case
  proof (cases "x = a")
    case True
    with Cons.prems live_not_guess [of P a x stack] have "live P a stack" by (auto intro: live_pop)
    from Cons.IH [OF this] True show ?thesis by (simp add: pop_all_def)
  next
    case False
    with Cons.prems show ?thesis by (simp add: pop_all_def live_def)
  qed
qed (simp add: live_def)

abbreviation fscan :: "nat \<Rightarrow> string \<Rightarrow> string \<Rightarrow> scan" where
  "fscan \<equiv> bscan is_open is_close closes"

abbreviation balanced_text :: "string \<Rightarrow> bool" where
  "balanced_text \<equiv> balanced is_open is_close closes"

lemma end_step_fscan:
  assumes "live is_open CHR ''<'' stack"
  shows "case end_step line i stack of
      Inl r \<Rightarrow> fscan i (line ! i # w) (solid CHR ''<'' stack) = r \<and> (\<forall>st. r \<noteq> Pending st)
    | Inr st \<Rightarrow> live is_open CHR ''<'' st \<and>
        fscan i (line ! i # w) (solid CHR ''<'' stack) = fscan (Suc i) w (solid CHR ''<'' st)"
proof -
  from live_pop_all [OF assms] obtain s st where p: "pop_all CHR ''<'' stack = s # st" "is_open s"
    "s \<noteq> CHR ''<''" "live is_open CHR ''<'' (s # st)" "solid CHR ''<'' stack = s # solid CHR ''<'' st"
    by blast
  have top: "xs \<noteq> [] \<and> live is_open CHR ''<'' xs" if "stack = CHR ''<'' # xs" for xs
    using that assms live_not_guess [of is_open "CHR ''<''" "CHR ''<''" xs] by (auto intro: live_pop)
  consider (op) "is_open (line ! i)" | (cl) "is_close (line ! i)"
    | (lt) "line ! i = CHR ''<''" | (gt) "line ! i = CHR ''>''"
    | (other) "\<not> is_open (line ! i)" "\<not> is_close (line ! i)" "line ! i \<noteq> CHR ''<''" "line ! i \<noteq> CHR ''>''"
    by blast
  then show ?thesis
  proof cases
    case op
    then have "line ! i \<noteq> CHR ''<''" by (auto simp: is_open_def)
    with op show ?thesis using live_push [OF assms, of "line ! i"] by (simp add: end_step_def)
  next
    case cl
    then have c: "\<not> is_open (line ! i)" "line ! i \<noteq> CHR ''<''" by (auto simp: is_open_def is_close_def)
    show ?thesis
    proof (cases "st = []")
      case True
      with cl c p show ?thesis by (simp add: end_step_def Let_def)
    next
      case False
      from live_pop [OF p(4) this] have l: "live is_open CHR ''<'' st" .
      from live_solid [OF l] cl c p l False show ?thesis by (simp add: end_step_def Let_def)
    qed
  next
    case lt
    then have c: "\<not> is_open (line ! i)" "\<not> is_close (line ! i)" by (auto simp: is_open_def is_close_def)
    have "\<exists>st'. end_step line i stack = Inr st' \<and> live is_open CHR ''<'' st' \<and>
        solid CHR ''<'' st' = solid CHR ''<'' stack"
      unfolding end_step_def Let_def using c lt assms live_push [OF assms, of "CHR ''<''"] top
      by (auto split: list.split)
    with c show ?thesis by auto
  next
    case gt
    then have c: "\<not> is_open (line ! i)" "\<not> is_close (line ! i)" by (auto simp: is_open_def is_close_def)
    have "\<exists>st'. end_step line i stack = Inr st' \<and> live is_open CHR ''<'' st' \<and>
        solid CHR ''<'' st' = solid CHR ''<'' stack"
      unfolding end_step_def Let_def using c gt assms top by (auto split: list.split)
    with c show ?thesis by auto
  next
    case other
    have "\<exists>st'. end_step line i stack = Inr st' \<and> live is_open CHR ''<'' st' \<and>
        solid CHR ''<'' st' = solid CHR ''<'' stack"
      unfolding end_step_def Let_def using other assms p by auto
    with other show ?thesis by auto
  qed
qed

lemma end_loop_fscan:
  "live is_open CHR ''<'' stack \<Longrightarrow>
   case end_loop line i stack of
      Pending st \<Rightarrow> live is_open CHR ''<'' st \<and>
        fscan i (drop i line) (solid CHR ''<'' stack) = Pending (solid CHR ''<'' st)
    | r \<Rightarrow> fscan i (drop i line) (solid CHR ''<'' stack) = r"
proof (induction line i stack rule: end_loop.induct)
  case (1 line i stack)
  show ?case
  proof (cases "i < length line")
    case True
    then have d: "drop i line = line ! i # drop (Suc i) line" by (simp add: Cons_nth_drop_Suc)
    note step = end_step_fscan [OF "1.prems", where line = line and i = i and w = "drop (Suc i) line", folded d]
    have loop: "end_loop line i stack =
        (case end_step line i stack of Inl r \<Rightarrow> r | Inr st \<Rightarrow> end_loop line (Suc i) st)"
      using True by (subst end_loop.simps) simp
    show ?thesis
    proof (cases "end_step line i stack")
      case (Inl r)
      with step loop show ?thesis by (cases r) auto
    next
      case (Inr st)
      with step have "live is_open CHR ''<'' st" by simp
      from "1.IH" [OF True Inr this] step loop Inr show ?thesis by (simp cong: scan.case_cong)
    qed
  next
    case False
    with "1.prems" show ?thesis by (simp add: end_loop.simps)
  qed
qed

text \<open>
  A position of the file as an offset into its lines joined to one text. A position with a
  character at it is determined by its offset.
\<close>

definition offset :: "string list \<Rightarrow> nat \<Rightarrow> nat \<Rightarrow> nat" where
  "offset elided n p = length (concat (take n elided)) + p"

lemma offset_Suc: "n < length elided \<Longrightarrow> offset elided (Suc n) p = offset elided n (length (elided ! n) + p)"
  by (simp add: offset_def take_Suc_conv_app_nth)

lemma drop_offset:
  assumes "n < length elided" "p \<le> length (elided ! n)"
  shows "drop (offset elided n p) (concat elided) = drop p (elided ! n) @ concat (drop (Suc n) elided)"
proof -
  have "concat elided = concat (take n elided) @ elided ! n @ concat (drop (Suc n) elided)"
    using arg_cong [OF id_take_nth_drop [OF assms(1)], of concat] by simp
  then show ?thesis using assms(2) by (simp add: offset_def)
qed

lemma drop_offset_Cons:
  "n < length elided \<Longrightarrow> p < length (elided ! n) \<Longrightarrow>
     drop (offset elided n p) (concat elided) =
       elided ! n ! p # drop (Suc p) (elided ! n) @ concat (drop (Suc n) elided)"
  by (simp add: drop_offset flip: Cons_nth_drop_Suc)

lemma take_offset:
  assumes "n < length elided" "p \<le> length (elided ! n)"
  shows "take (offset elided n p) (concat elided) = concat (take n elided) @ take p (elided ! n)"
proof -
  have "concat elided = concat (take n elided) @ elided ! n @ concat (drop (Suc n) elided)"
    using arg_cong [OF id_take_nth_drop [OF assms(1)], of concat] by simp
  then show ?thesis using assms(2) by (simp add: offset_def)
qed

lemma offset_mono: "n < n' \<Longrightarrow> n' \<le> length elided \<Longrightarrow> p < length (elided ! n) \<Longrightarrow>
    offset elided n p < offset elided n' p'"
proof (induction n' arbitrary: p')
  case (Suc m)
  show ?case
  proof (cases "n = m")
    case True
    with Suc.prems offset_Suc [of m elided p'] show ?thesis by (simp add: offset_def)
  next
    case False
    with Suc.prems Suc.IH [of "length (elided ! m) + p'"] offset_Suc [of m elided p']
    show ?thesis by simp
  qed
qed simp

lemma offset_inj:
  assumes "offset elided n p = offset elided n' p'" "n < length elided" "n' < length elided"
    "p < length (elided ! n)" "p' < length (elided ! n')"
  shows "n = n' \<and> p = p'"
proof -
  have "n = n'"
    using assms offset_mono [of n n' elided p p'] offset_mono [of n' n elided p' p]
    by (cases n n' rule: linorder_cases) auto
  with assms(1) show ?thesis by (simp add: offset_def)
qed

lemma close_loop_text:
  assumes "live is_open CHR ''<'' stack" and "n < length elided"
  shows "case fscan 0 (concat (drop (Suc n) elided)) (solid CHR ''<'' stack) of
      Found t \<Rightarrow> \<exists>n' p. close_loop elided line n (Pending stack) = (elided ! n', n', int p) \<and>
        n' < length elided \<and> 0 < p \<and> p \<le> length (elided ! n') \<and>
        offset elided n' p = offset elided (Suc n) t
    | _ \<Rightarrow> snd (close_loop elided line n (Pending stack)) = (length elided, -1)"
  using assms
proof (induction "length elided - n" arbitrary: n stack line)
  case (Suc k)
  show ?case
  proof (cases "Suc n < length elided")
    case False
    then show ?thesis by (simp add: close_loop.simps)
  next
    case True
    let ?x = "elided ! Suc n" and ?t = "concat (drop (Suc (Suc n)) elided)"
    have t: "concat (drop (Suc n) elided) = ?x @ ?t" using True by (simp flip: Cons_nth_drop_Suc)
    let ?S = "solid CHR ''<'' stack"
    from live_solid [OF Suc.prems(1)] have S: "?S \<noteq> []" .
    have ne: "stack \<noteq> []" using Suc.prems(1) by (simp add: live_def)
    have loop: "close_loop elided line n (Pending stack) =
        close_loop elided ?x (Suc n) (end_loop ?x 0 stack)"
      using True ne by (subst close_loop.simps) (simp add: FindEndOfExpressionInLine_def)
    have scan: "fscan 0 (concat (drop (Suc n) elided)) ?S =
        (case fscan 0 ?x ?S of Pending st \<Rightarrow> fscan (length ?x) ?t st | r \<Rightarrow> r)"
      unfolding t fwd.bscan_append [OF S] add_0 by (rule refl)
    note L = end_loop_fscan [OF Suc.prems(1), where line = ?x and i = 0, unfolded drop_0]
    show ?thesis
    proof (cases "end_loop ?x 0 stack")
      case (Found e)
      with L have F: "fscan 0 ?x ?S = Found e" by simp
      with fwd.bscan_sound [OF F S] have e: "0 < e" "e \<le> length ?x" by auto
      have "close_loop elided line n (Pending stack) = (?x, Suc n, int e)"
        using Found loop by (simp add: close_loop.simps)
      with e True F scan show ?thesis by auto
    next
      case Broken
      with loop scan L show ?thesis by (simp add: close_loop.simps)
    next
      case (Pending st)
      with L have st: "live is_open CHR ''<'' st" "fscan 0 ?x ?S = Pending (solid CHR ''<'' st)" by auto
      have "k = length elided - Suc n" using Suc.hyps(2) by simp
      note IH = Suc.hyps(1) [OF this st(1) True, of ?x]
      have sc: "fscan 0 (concat (drop (Suc n) elided)) ?S =
          (case fscan 0 ?t (solid CHR ''<'' st) of Found e \<Rightarrow> Found (length ?x + e) | r \<Rightarrow> r)"
        using scan st(2) fwd.bscan_shift [of "length ?x" 0 ?t "solid CHR ''<'' st"] by simp
      show ?thesis
        using IH loop Pending sc offset_Suc [OF True]
        by (cases "fscan 0 ?t (solid CHR ''<'' st)") auto
    qed
  qed
qed simp

lemma angle_pattern:
  "rx ''<[<=]'' = Cat (Class False [Lit CHR ''<'']) (Class False [Lit CHR ''<'', Lit CHR ''=''])"
  by code_simp

lemma no_shift_match: "c \<noteq> CHR ''<'' \<Longrightarrow> Match ''<[<=]'' (c # w) = None"
  by (simp add: Match_def re_match_def match_at_def angle_pattern start_cursor_def one_char_def
      class_has_def)

text \<open>The forward scan from an opening bracket, over the text of the whole file.\<close>

lemma CloseExpression_scan:
  assumes n: "n < length elided" and c: "c < length (elided ! n)" and a: "is_open (elided ! n ! c)"
  shows "case fscan 0 (drop (offset elided n c) (concat elided)) [] of
      Found t \<Rightarrow> \<exists>n' p. CloseExpression elided n c = Inr (elided ! n', n', int p) \<and>
        n' < length elided \<and> 0 < p \<and> p \<le> length (elided ! n') \<and>
        offset elided n' p = offset elided n c + t
    | _ \<Rightarrow> \<exists>line'. CloseExpression elided n c = Inr (line', length elided, -1)"
proof -
  let ?l = "elided ! n" and ?t = "concat (drop (Suc n) elided)"
  let ?x = "drop (Suc c) ?l" and ?a = "elided ! n ! c"
  have d: "drop c ?l = ?a # ?x" using c by (simp add: Cons_nth_drop_Suc)
  have T: "drop (offset elided n c) (concat elided) = (?a # ?x) @ ?t"
    using drop_offset [OF n less_imp_le [OF c]] d by simp
  have "?a \<noteq> CHR ''<''" using a by (auto simp: is_open_def)
  then have "CloseExpression elided n c = Inr (close_loop elided ?l n (end_loop ?l c []))"
    using n c a by (simp add: CloseExpression_def FindEndOfExpressionInLine_def d no_shift_match)
  also have "end_loop ?l c [] = end_loop ?l (Suc c) [?a]"
    using c a by (subst end_loop.simps) (simp add: end_step_def)
  finally have loop: "CloseExpression elided n c = Inr (close_loop elided ?l n (end_loop ?l (Suc c) [?a]))" .
  have la: "live is_open CHR ''<'' [?a]" "solid CHR ''<'' [?a] = [?a]"
    using a by (auto simp: live_def is_open_def)
  note F = end_loop_fscan [OF la(1), where line = ?l and i = "Suc c", unfolded la(2)]
  have sh: "fscan (Suc c) ?x [?a] = (case fscan 1 ?x [?a] of Found e \<Rightarrow> Found (c + e) | r \<Rightarrow> r)"
    using fwd.bscan_shift [of c 1 ?x "[?a]"] by simp
  have scan: "fscan 0 (drop (offset elided n c) (concat elided)) [] =
      (case fscan 1 ?x [?a] of Pending st \<Rightarrow> fscan (1 + length ?x) ?t st | r \<Rightarrow> r)"
    using a fwd.bscan_append [of "[?a]" 1 ?x ?t] by (simp add: T)
  show ?thesis
  proof (cases "end_loop ?l (Suc c) [?a]")
    case (Found e')
    with F sh obtain e where e: "fscan 1 ?x [?a] = Found e" "e' = c + e" by (auto split: scan.splits)
    with fwd.bscan_sound [OF e(1)] c have "1 < e" "c + e \<le> length ?l" by auto
    moreover have "CloseExpression elided n c = Inr (?l, n, int (c + e))"
      using loop Found e(2) by (simp add: close_loop.simps)
    ultimately show ?thesis using e(1) scan n by (auto simp: offset_def)
  next
    case Broken
    with F sh have "fscan 1 ?x [?a] = Broken" by (auto split: scan.splits)
    with Broken loop scan show ?thesis by (simp add: close_loop.simps)
  next
    case (Pending st)
    with F sh have st: "live is_open CHR ''<'' st" "fscan 1 ?x [?a] = Pending (solid CHR ''<'' st)"
      by (auto split: scan.splits)
    note L = close_loop_text [OF st(1) n, of ?l]
    have sc: "fscan 0 (drop (offset elided n c) (concat elided)) [] =
        (case fscan 0 ?t (solid CHR ''<'' st) of Found e \<Rightarrow> Found (1 + length ?x + e) | r \<Rightarrow> r)"
      using scan st(2) fwd.bscan_shift [of "1 + length ?x" 0 ?t "solid CHR ''<'' st"] by simp
    have off: "offset elided (Suc n) t = offset elided n c + (1 + length ?x + t)" for t
      using offset_Suc [OF n, of t] c by (simp add: offset_def)
    show ?thesis
    proof (cases "fscan 0 ?t (solid CHR ''<'' st)")
      case (Found e)
      with L loop Pending off [of e] sc show ?thesis by auto
    qed (use L loop Pending sc in \<open>auto simp: prod_eq_iff\<close>)
  qed
qed

section \<open>The backward scan\<close>

abbreviation rscan :: "nat \<Rightarrow> string \<Rightarrow> string \<Rightarrow> scan" where
  "rscan \<equiv> bscan is_close is_open (\<lambda>a b. closes b a)"

definition neutral :: "char \<Rightarrow> bool" where
  "neutral c \<longleftrightarrow> \<not> is_open c \<and> \<not> is_close c"

text \<open>
  The scan backward sometimes steps over two characters at once. The second one is the
  \<open>-\<close> of \<open>->\<close>, the first \<open><\<close> of \<open><<\<close>, the white space before \<open>>=\<close>, or what precedes the
  angle bracket of \<open>operator>\<close>: never a bracket.
\<close>

lemma operator_pattern: "rx OPERATOR_AT_END = Cat WordB (Cat (Class False [Lit CHR ''o''])
    (Cat (Class False [Lit CHR ''p'']) (Cat (Class False [Lit CHR ''e''])
    (Cat (Class False [Lit CHR ''r'']) (Cat (Class False [Lit CHR ''a''])
    (Cat (Class False [Lit CHR ''t'']) (Cat (Class False [Lit CHR ''o''])
    (Cat (Class False [Lit CHR ''r'']) (Cat (Star True (Class False [Space])) Eol)))))))))"
  by code_simp

lemma space_neutral: "is_space c \<Longrightarrow> neutral c"
  by (auto simp: is_space_def neutral_def is_open_def is_close_def)

lemma operator_at_end_last:
  assumes "Search OPERATOR_AT_END s \<noteq> None" and "s \<noteq> []"
  shows "neutral (last s)"
proof -
  from assms(1) obtain m where m: "Search OPERATOR_AT_END s = Some m" by auto
  have nb: "no_backref (rx OPERATOR_AT_END)" by (simp add: operator_pattern)
  let ?k = "cursor_at s (m_start m)"
  from match_at_rel [OF nb Search_SomeD(2) [OF m]] obtain k' where
    "(?k, k') \<in> rx_rel (rx OPERATOR_AT_END)" by blast
  then obtain k1 k2 k3 k4 k5 k6 k7 k8 k9 where
    "(k1, k2) \<in> char_rel (class_has False [Lit CHR ''o''])"
    "(k2, k3) \<in> char_rel (class_has False [Lit CHR ''p''])"
    "(k3, k4) \<in> char_rel (class_has False [Lit CHR ''e''])"
    "(k4, k5) \<in> char_rel (class_has False [Lit CHR ''r''])"
    "(k5, k6) \<in> char_rel (class_has False [Lit CHR ''a''])"
    "(k6, k7) \<in> char_rel (class_has False [Lit CHR ''t''])"
    "(k7, k8) \<in> char_rel (class_has False [Lit CHR ''o''])"
    and r: "(k8, k9) \<in> char_rel (class_has False [Lit CHR ''r''])"
    and k: "k1 = ?k" "(k9, k') \<in> (char_rel (class_has False [Space]))\<^sup>*"
      "rest k' = [] \<or> rest k' = [CHR 0x0A]"
    unfolding operator_pattern by (auto simp: test_rel_def) blast+
  from this(1-7) have "\<exists>u. rest k1 = u @ rest k8" by (auto dest!: char_rel_rest)
  then obtain u where u: "drop (m_start m) s = u @ rest k8" by (auto simp: k(1) cursor_at_def)
  from char_rel_rest [OF r] char_star_rest [OF k(2)] obtain x w where
    w: "rest k8 = x # w @ rest k'" "\<forall>c \<in> set w. is_space c" "x = CHR ''r''"
    by (auto simp: class_has_def)
  have "s = (take (m_start m) s @ u) @ x # w @ rest k'"
    using u w(1) append_take_drop_id [of "m_start m" s] by simp
  from arg_cong [OF this, of last]
  have "last s = last ((take (m_start m) s @ u) @ x # w @ rest k')" .
  also have "\<dots> = last (x # w @ rest k')" by simp
  finally have l: "last s = last (x # w @ rest k')" .
  have "is_space CHR 0x0A" by (simp add: is_space_def)
  with w(2,3) k(3) have "\<forall>c \<in> set (x # w @ rest k'). c = CHR ''r'' \<or> is_space c" by auto
  with l have "last s = CHR ''r'' \<or> is_space (last s)"
    by (metis last_in_set list.distinct(1))
  moreover have "neutral CHR ''r''" by (simp add: neutral_def is_open_def is_close_def)
  ultimately show ?thesis by (metis space_neutral)
qed

lemma spaced_ge_pattern: "rx (raw ''`s>=`s'') = Cat (Class False [Space])
    (Cat (Class False [Lit CHR ''>'']) (Cat (Class False [Lit CHR ''='']) (Class False [Space])))"
  by code_simp

lemma spaced_ge_head:
  assumes "Match (raw ''`s>=`s'') (c # w) \<noteq> None"
  shows "neutral c"
proof -
  have nb: "no_backref (rx (raw ''`s>=`s''))" by (simp add: spaced_ge_pattern)
  from assms Match_None_iff [OF nb, of "c # w"] obtain k where
    "(start_cursor (c # w), k) \<in> char_rel (class_has False [Space])"
    by (auto simp: spaced_ge_pattern)
  from char_rel_rest [OF this] show ?thesis by (auto simp: class_has_def intro: space_neutral)
qed

lemma start_step_rscan:
  assumes "live is_close CHR ''>'' stack" and "i < length line"
  shows "case start_step line i stack of
      Inl (Found j) \<Rightarrow> j = i \<and> rscan 0 (line ! i # w) (solid CHR ''>'' stack) = Found 1
    | Inl Broken \<Rightarrow> rscan 0 (line ! i # w) (solid CHR ''>'' stack) = Broken
    | Inl (Pending st) \<Rightarrow> False
    | Inr (st, d) \<Rightarrow> live is_close CHR ''>'' st \<and>
        (d = 1 \<and> rscan 0 (line ! i # w) (solid CHR ''>'' stack) = rscan 1 w (solid CHR ''>'' st) \<or>
         d = 2 \<and> 0 < i \<and> st = stack \<and> neutral (line ! i) \<and> neutral (line ! (i - 1)))"
proof -
  from live_pop_all [OF assms(1)] obtain s st where p: "pop_all CHR ''>'' stack = s # st" "is_close s"
    "s \<noteq> CHR ''>''" "live is_close CHR ''>'' (s # st)" "solid CHR ''>'' stack = s # solid CHR ''>'' st"
    by blast
  have top: "xs \<noteq> [] \<and> live is_close CHR ''>'' xs" if "stack = CHR ''>'' # xs" for xs
    using that assms(1) live_not_guess [of is_close "CHR ''>''" "CHR ''>''" xs] by (auto intro: live_pop)
  consider (cl) "is_close (line ! i)" | (op) "is_open (line ! i)"
    | (gt) "line ! i = CHR ''>''" | (lt) "line ! i = CHR ''<''"
    | (other) "\<not> is_open (line ! i)" "\<not> is_close (line ! i)" "line ! i \<noteq> CHR ''<''" "line ! i \<noteq> CHR ''>''"
    by blast
  then show ?thesis
  proof cases
    case cl
    then have "line ! i \<noteq> CHR ''>''" by (auto simp: is_close_def)
    with cl show ?thesis using live_push [OF assms(1), of "line ! i"] by (simp add: start_step_def)
  next
    case op
    then have c: "\<not> is_close (line ! i)" "line ! i \<noteq> CHR ''<''" "line ! i \<noteq> CHR ''>''"
      by (auto simp: is_open_def is_close_def)
    show ?thesis
    proof (cases "st = []")
      case True
      with op c p show ?thesis by (simp add: start_step_def Let_def)
    next
      case False
      from live_pop [OF p(4) this] have l: "live is_close CHR ''>'' st" .
      from live_solid [OF l] op c p l False show ?thesis by (simp add: start_step_def Let_def)
    qed
  next
    case gt
    then have c: "\<not> is_open (line ! i)" "\<not> is_close (line ! i)" by (auto simp: is_open_def is_close_def)
    show ?thesis
    proof (cases "0 < i \<and> (line ! (i - 1) = CHR ''-'' \<or>
        Match (raw ''`s>=`s'') (drop (i - 1) line) \<noteq> None \<or>
        Search OPERATOR_AT_END (take i line) \<noteq> None)")
      case True
      then obtain h where h: "i = Suc h" by (cases i) auto
      with assms(2) have "drop h line = line ! h # drop i line" "last (take i line) = line ! h"
        by (simp_all add: Cons_nth_drop_Suc take_Suc_conv_app_nth)
      moreover have "neutral CHR ''-''" "take i line \<noteq> []"
        using h assms(2) by (auto simp: neutral_def is_open_def is_close_def)
      ultimately have "neutral (line ! (i - 1))"
        using True h spaced_ge_head [of "line ! h" "drop i line"] operator_at_end_last [of "take i line"]
        by (metis diff_Suc_1)
      moreover have "start_step line i stack = Inr (stack, 2)"
        using gt True c unfolding start_step_def Let_def by simp
      ultimately show ?thesis using c True assms(1) by (simp add: neutral_def)
    next
      case False
      then have "start_step line i stack = Inr (CHR ''>'' # stack, 1)"
        using gt c unfolding start_step_def Let_def by simp
      with c gt live_push [OF assms(1), of "CHR ''>''"] show ?thesis by simp
    qed
  next
    case lt
    then have c: "\<not> is_open (line ! i)" "\<not> is_close (line ! i)" by (auto simp: is_open_def is_close_def)
    show ?thesis
    proof (cases "0 < i \<and> line ! (i - 1) = CHR ''<''")
      case True
      then have "start_step line i stack = Inr (stack, 2)"
        using lt c unfolding start_step_def Let_def by simp
      with True c lt assms(1) show ?thesis by (simp add: neutral_def)
    next
      case False
      then have "\<exists>st'. start_step line i stack = Inr (st', 1) \<and> live is_close CHR ''>'' st' \<and>
          solid CHR ''>'' st' = solid CHR ''>'' stack"
        unfolding start_step_def Let_def using lt c assms(1) top by (auto split: list.split)
      with c show ?thesis by auto
    qed
  next
    case other
    have "\<exists>st'. start_step line i stack = Inr (st', 1) \<and> live is_close CHR ''>'' st' \<and>
        solid CHR ''>'' st' = solid CHR ''>'' stack"
      unfolding start_step_def Let_def using other assms(1) p by auto
    with other show ?thesis by auto
  qed
qed

lemma start_loop_rscan:
  "n \<le> length line \<Longrightarrow> live is_close CHR ''>'' stack \<Longrightarrow>
     case start_loop line n stack of
       Found j \<Rightarrow> j < n \<and> rscan 0 (rev (take n line)) (solid CHR ''>'' stack) = Found (n - j)
     | Broken \<Rightarrow> rscan 0 (rev (take n line)) (solid CHR ''>'' stack) = Broken
     | Pending st \<Rightarrow> live is_close CHR ''>'' st \<and>
         rscan 0 (rev (take n line)) (solid CHR ''>'' stack) = Pending (solid CHR ''>'' st)"
proof (induction n arbitrary: stack rule: less_induct)
  case (less n)
  show ?case
  proof (cases n)
    case 0
    with less.prems show ?thesis by (simp add: start_loop.simps)
  next
    case (Suc m)
    let ?S = "solid CHR ''>'' stack"
    have m: "m < length line" using less.prems(1) Suc by simp
    have t: "rev (take n line) = line ! m # rev (take m line)"
      using m Suc by (simp add: take_Suc_conv_app_nth)
    have loop: "start_loop line n stack = (case start_step line m stack of
        Inl r \<Rightarrow> r | Inr (st, d) \<Rightarrow> start_loop line (n - (if d = 0 then 1 else d)) st)"
      using Suc by (subst start_loop.simps) simp
    note step = start_step_rscan [OF less.prems(2) m, where w = "rev (take m line)", folded t]
    show ?thesis
    proof (cases "start_step line m stack")
      case (Inl r)
      with step loop Suc show ?thesis by (cases r) auto
    next
      case (Inr sd)
      obtain st d where sd: "sd = (st, d)" by (cases sd)
      from step Inr sd have l: "live is_close CHR ''>'' st"
        and "d = 1 \<and> rscan 0 (rev (take n line)) ?S = rscan 1 (rev (take m line)) (solid CHR ''>'' st) \<or>
          d = 2 \<and> 0 < m \<and> st = stack \<and> neutral (line ! m) \<and> neutral (line ! (m - 1))" by auto
      then consider (one) "d = 1"
          "rscan 0 (rev (take n line)) ?S = rscan 1 (rev (take m line)) (solid CHR ''>'' st)"
        | (two) "d = 2" "0 < m" "st = stack" "neutral (line ! m)" "neutral (line ! (m - 1))" by blast
      then show ?thesis
      proof cases
        case one
        from less.IH [OF _ _ l, of m] Suc m loop Inr sd one
          bwd.bscan_shift [of 1 0 "rev (take m line)" "solid CHR ''>'' st"]
        show ?thesis by (auto split: scan.splits)
      next
        case two
        then obtain h where h: "m = Suc h" by (cases m) auto
        have "rscan 0 (rev (take n line)) ?S = rscan 2 (rev (take h line)) ?S"
          using t h m two(4,5) by (simp add: take_Suc_conv_app_nth neutral_def numeral_2_eq_2)
        with less.IH [OF _ _ l, of h] Suc m loop Inr sd two h
          bwd.bscan_shift [of 2 0 "rev (take h line)" "solid CHR ''>'' st"]
        show ?thesis by (auto split: scan.splits)
      qed
    qed
  qed
qed

lemma reverse_loop_text:
  assumes "live is_close CHR ''>'' stack" and "n \<le> length elided"
  shows "case rscan 0 (rev (concat (take n elided))) (solid CHR ''>'' stack) of
      Found t \<Rightarrow> \<exists>n' p. reverse_loop elided line n (Pending stack) = (elided ! n', n', int p) \<and>
        n' < length elided \<and> p < length (elided ! n') \<and>
        offset elided n' p + t = offset elided n 0
    | _ \<Rightarrow> snd (reverse_loop elided line n (Pending stack)) = (0, -1)"
  using assms
proof (induction n arbitrary: stack line)
  case 0
  then show ?case by (simp add: reverse_loop.simps)
next
  case (Suc m)
  let ?x = "elided ! m" and ?t = "concat (take m elided)" and ?S = "solid CHR ''>'' stack"
  from Suc.prems(2) have m: "m < length elided" by simp
  have t: "concat (take (Suc m) elided) = ?t @ ?x" using m by (simp add: take_Suc_conv_app_nth)
  from live_solid [OF Suc.prems(1)] have S: "?S \<noteq> []" .
  have ne: "stack \<noteq> []" using Suc.prems(1) by (simp add: live_def)
  have loop: "reverse_loop elided line (Suc m) (Pending stack) =
      reverse_loop elided ?x m (start_loop ?x (length ?x) stack)"
    using ne by (subst reverse_loop.simps) simp
  have scan: "rscan 0 (rev (concat (take (Suc m) elided))) ?S =
      (case rscan 0 (rev ?x) ?S of Pending st \<Rightarrow> rscan (length ?x) (rev ?t) st | r \<Rightarrow> r)"
    unfolding t rev_append bwd.bscan_append [OF S] add_0 length_rev by (rule refl)
  note L = start_loop_rscan [OF order_refl Suc.prems(1), of ?x, unfolded take_all [OF order_refl]]
  have off: "offset elided (Suc m) 0 = offset elided m 0 + length ?x"
    using offset_Suc [OF m, of 0] by (simp add: offset_def)
  show ?case
  proof (cases "start_loop ?x (length ?x) stack")
    case (Found p)
    with L have F: "rscan 0 (rev ?x) ?S = Found (length ?x - p)" "p < length ?x" by auto
    have "reverse_loop elided line (Suc m) (Pending stack) = (?x, m, int p)"
      using Found loop by (simp add: reverse_loop.simps)
    with F m scan off show ?thesis by (auto simp: offset_def)
  next
    case Broken
    with loop scan L show ?thesis by (simp add: reverse_loop.simps)
  next
    case (Pending st)
    with L have st: "live is_close CHR ''>'' st" "rscan 0 (rev ?x) ?S = Pending (solid CHR ''>'' st)"
      by auto
    note IH = Suc.IH [OF st(1) less_imp_le [OF m], of ?x]
    have sc: "rscan 0 (rev (concat (take (Suc m) elided))) ?S =
        (case rscan 0 (rev ?t) (solid CHR ''>'' st) of Found e \<Rightarrow> Found (length ?x + e) | r \<Rightarrow> r)"
      using scan st(2) bwd.bscan_shift [of "length ?x" 0 "rev ?t" "solid CHR ''>'' st"] by simp
    show ?thesis
      using IH loop Pending sc off by (cases "rscan 0 (rev ?t) (solid CHR ''>'' st)") fastforce+
  qed
qed

lemma ReverseCloseExpression_scan:
  assumes n: "n < length elided" and c: "c < length (elided ! n)" and a: "is_close (elided ! n ! c)"
  shows "case rscan 0 (rev (take (offset elided n (Suc c)) (concat elided))) [] of
      Found t \<Rightarrow> \<exists>n' p. ReverseCloseExpression elided n c = Inr (elided ! n', n', int p) \<and>
        n' < length elided \<and> p < length (elided ! n') \<and>
        offset elided n' p + t = offset elided n (Suc c)
    | _ \<Rightarrow> \<exists>line'. ReverseCloseExpression elided n c = Inr (line', 0, -1)"
proof -
  let ?l = "elided ! n" and ?t = "concat (take n elided)"
  let ?x = "take c ?l" and ?a = "elided ! n ! c"
  have T: "take (offset elided n (Suc c)) (concat elided) = ?t @ ?x @ [?a]"
    using take_offset [OF n Suc_leI [OF c]] c by (simp add: take_Suc_conv_app_nth)
  have step: "start_step ?l c [] = Inr ([?a], 1)" using a by (simp add: start_step_def)
  have loop: "ReverseCloseExpression elided n c = Inr (reverse_loop elided ?l n (start_loop ?l c [?a]))"
    using n c a step start_loop.simps [of ?l "Suc c" "[]"]
    by (simp add: ReverseCloseExpression_def FindStartOfExpressionInLine_def)
  have la: "live is_close CHR ''>'' [?a]" "solid CHR ''>'' [?a] = [?a]"
    using a by (auto simp: live_def is_close_def)
  note F = start_loop_rscan [OF less_imp_le [OF c] la(1), unfolded la(2)]
  have sh: "rscan 1 (rev ?x) [?a] = (case rscan 0 (rev ?x) [?a] of Found e \<Rightarrow> Found (1 + e) | r \<Rightarrow> r)"
    using bwd.bscan_shift [of 1 0 "rev ?x" "[?a]"] by simp
  have len: "length (rev ?x) = c" using c by simp
  have scan: "rscan 0 (rev (take (offset elided n (Suc c)) (concat elided))) [] =
      (case rscan 1 (rev ?x) [?a] of Pending st \<Rightarrow> rscan (Suc c) (rev ?t) st | r \<Rightarrow> r)"
    using a bwd.bscan_append [of "[?a]" 1 "rev ?x" "rev ?t", unfolded len plus_1_eq_Suc] by (simp add: T)
  show ?thesis
  proof (cases "start_loop ?l c [?a]")
    case (Found p)
    with F sh have "rscan 1 (rev ?x) [?a] = Found (1 + (c - p))" "p < c" by auto
    moreover have "ReverseCloseExpression elided n c = Inr (?l, n, int p)"
      using loop Found by (simp add: reverse_loop.simps)
    ultimately show ?thesis using scan n c by (auto simp: offset_def)
  next
    case Broken
    with F sh scan loop show ?thesis by (simp add: reverse_loop.simps)
  next
    case (Pending st)
    with F sh have st: "live is_close CHR ''>'' st" "rscan 1 (rev ?x) [?a] = Pending (solid CHR ''>'' st)"
      by auto
    note L = reverse_loop_text [OF st(1) less_imp_le [OF n], of ?l]
    have sc: "rscan 0 (rev (take (offset elided n (Suc c)) (concat elided))) [] =
        (case rscan 0 (rev ?t) (solid CHR ''>'' st) of Found e \<Rightarrow> Found (Suc c + e) | r \<Rightarrow> r)"
      using scan st(2) bwd.bscan_shift [of "Suc c" 0 "rev ?t" "solid CHR ''>'' st"] by simp
    have off: "offset elided n (Suc c) = offset elided n 0 + Suc c" by (simp add: offset_def)
    show ?thesis
    proof (cases "rscan 0 (rev ?t) (solid CHR ''>'' st)")
      case (Found e)
      with L loop Pending off sc show ?thesis by auto
    qed (use L loop Pending sc in \<open>auto simp: prod_eq_iff\<close>)
  qed
qed

lemma balanced_rev:
  "balanced_text u \<Longrightarrow> balanced is_close is_open (\<lambda>a b. closes b a) (rev u)"
proof (induction rule: balanced.induct)
  case (other c w)
  then have "balanced is_close is_open (\<lambda>a b. closes b a) [c]" by (auto intro: balanced.intros)
  from bwd.balanced_append [OF other.IH this] show ?case by simp
next
  case (wrap a b u v)
  then have "balanced is_close is_open (\<lambda>a b. closes b a) (b # rev u @ a # [])"
    by (intro balanced.wrap balanced.nil)
  from bwd.balanced_append [OF wrap.IH(2) this] show ?case by simp
qed (simp add: balanced.nil)

section \<open>What the scanners find\<close>

text \<open>
  C2: on any text, \<open>CloseExpression\<close> called at an opening parenthesis, square or curly
  bracket decides whether the text from there begins with a balanced expression, over as many
  lines as it takes. If \<open>a u b\<close> is one, with \<open>u\<close> balanced in the three kinds of brackets and
  \<open>b\<close> closing \<open>a\<close>, the position returned is a position of the file and lies just past \<open>b\<close>; if
  there is none, the result is \<open>(_, NumLines, -1)\<close>. So whatever the scanner takes for template
  brackets, shifts, arrows, \<open>operator<\<close> or ends of statements inside never changes the answer.
\<close>

theorem close_expression_correct:
  assumes "n < length elided" "c < length (elided ! n)" "is_open (elided ! n ! c)"
  shows "if \<exists>u b v. drop (offset elided n c) (concat elided) = elided ! n ! c # u @ b # v \<and>
            balanced_text u \<and> closes (elided ! n ! c) b
    then \<exists>n' p u b. CloseExpression elided n c = Inr (elided ! n', n', int p) \<and>
      n' < length elided \<and> 0 < p \<and> p \<le> length (elided ! n') \<and>
      drop (offset elided n c) (take (offset elided n' p) (concat elided)) =
        elided ! n ! c # u @ [b] \<and> balanced_text u \<and> closes (elided ! n ! c) b
    else \<exists>line. CloseExpression elided n c = Inr (line, length elided, -1)"
proof -
  let ?a = "elided ! n ! c" and ?T = "drop (offset elided n c) (concat elided)"
  note S = CloseExpression_scan [OF assms]
  have T: "?T = ?a # tl ?T"
    using drop_offset_Cons [OF assms(1,2)] by simp
  note B = fwd.bscan_expression [OF assms(3), of 0 "tl ?T", folded T]
  show ?thesis
  proof (cases "\<exists>u b v. ?T = ?a # u @ b # v \<and> balanced_text u \<and> closes ?a b")
    case True
    then obtain u b v where u: "?T = ?a # u @ b # v" "balanced_text u" "closes ?a b" by blast
    then have "fscan 0 ?T [] = Found (length u + 2)" using B [of "length u + 2"] by fastforce
    with S obtain n' p where r: "CloseExpression elided n c = Inr (elided ! n', n', int p)"
      "n' < length elided" "0 < p" "p \<le> length (elided ! n')"
      "offset elided n' p = offset elided n c + (length u + 2)" by auto
    from r(5) u(1) have "drop (offset elided n c) (take (offset elided n' p) (concat elided)) =
      ?a # u @ [b]" by (simp add: drop_take)
    with r(1-4) u(2,3) show ?thesis unfolding if_P [OF True] by blast
  next
    case False
    have "fscan 0 ?T [] \<noteq> Found e" for e
    proof
      assume "fscan 0 ?T [] = Found e"
      then obtain u b v where "tl ?T = u @ b # v" "balanced_text u" "closes ?a b" using B by blast
      with T False show False by metis
    qed
    with S show ?thesis unfolding if_not_P [OF False] by (cases "fscan 0 ?T []") auto
  qed
qed

text \<open>
  The witness: in \<open>f(a << b->c,\<close> / \<open>d<e; [0]) {\<close> the bracket at column 1 is closed on the
  second line, past a shift, an arrow, an unclosed angle bracket and a semicolon.
\<close>

theorem close_expression_correct_witness:
  "\<exists>n' p u b. CloseExpression [''f(a << b->c,'', ''d<e; [0]) {''] 0 1 =
      Inr ([''f(a << b->c,'', ''d<e; [0]) {''] ! n', n', int p) \<and>
      drop (offset [''f(a << b->c,'', ''d<e; [0]) {''] 0 1) (take (offset [''f(a << b->c,'', ''d<e; [0]) {''] n' p)
        (concat [''f(a << b->c,'', ''d<e; [0]) {''])) = CHR ''('' # u @ [b]"
proof -
  have "balanced_text ''0''"
    by (auto simp: is_open_def is_close_def intro!: balanced.other balanced.nil)
  from balanced.wrap [OF _ this balanced.nil, of "CHR ''[''" "CHR '']''"]
  have "balanced_text ''[0]''" by (simp add: closes_def)
  then have "balanced_text ''a << b->c,d<e; [0]''"
    by (auto simp: is_open_def is_close_def intro!: balanced.other)
  then have "\<exists>u b v. ''(a << b->c,d<e; [0]) {'' = CHR ''('' # u @ b # v \<and> balanced_text u \<and> closes CHR ''('' b"
    by (intro exI [of _ "''a << b->c,d<e; [0]''"] exI [of _ "CHR '')''"] exI [of _ "'' {''"])
       (simp add: closes_def)
  then show ?thesis
    using close_expression_correct [of 0 "[''f(a << b->c,'', ''d<e; [0]) {'']" 1]
    by (simp add: offset_def is_open_def) blast
qed

text \<open>
  C3: the two scanners are inverse to each other, on any text. If \<open>CloseExpression\<close> called at
  an opening parenthesis, square or curly bracket finds its end, \<open>ReverseCloseExpression\<close>
  called at the closing bracket (one before the position returned) returns the very position
  the search began at, although the two guess differently which angle brackets are templates.
\<close>

theorem reverse_close_roundtrip:
  assumes "n < length elided" "c < length (elided ! n)" "is_open (elided ! n ! c)"
    and "CloseExpression elided n c = Inr (line, n', int p)"
  shows "0 < p \<and> ReverseCloseExpression elided n' (p - 1) = Inr (elided ! n, n, int c)"
proof -
  let ?a = "elided ! n ! c" and ?o = "offset elided n c"
  let ?T = "drop ?o (concat elided)"
  have T: "?T = ?a # tl ?T"
    using drop_offset_Cons [OF assms(1,2)] by simp
  from CloseExpression_scan [OF assms(1-3)] assms(4) obtain t where
    t: "fscan 0 ?T [] = Found t" and r: "n' < length elided" "0 < p" "p \<le> length (elided ! n')"
      "offset elided n' p = ?o + t"
    by (auto split: scan.splits)
  from t fwd.bscan_expression [OF assms(3), of 0 "tl ?T" t, folded T] obtain u b v where
    "tl ?T = u @ b # v" and u': "balanced_text u" "closes ?a b" "t = length u + 2" by auto
  with T have u: "?T = ?a # u @ b # v" "balanced_text u" "closes ?a b" "t = length u + 2" by simp_all
  let ?pre = "take ?o (concat elided)"
  have whole: "take (offset elided n' p) (concat elided) = ?pre @ ?a # u @ [b]"
    unfolding r(4) take_add using u(1,4) by simp
  obtain q where p: "p = Suc q" using r(2) by (cases p) auto
  have q: "q < length (elided ! n')" using r(3) p by simp
  have b: "elided ! n' ! q = b"
    using take_offset [OF r(1,3)] whole p q by (simp add: take_Suc_conv_app_nth)
  then have cb: "is_close (elided ! n' ! q)" using bwd.mat_push [OF u(3)] by simp
  note R = ReverseCloseExpression_scan [OF r(1) q cb]
  have "\<exists>x y v. rev u @ ?a # rev ?pre = x @ y # v \<and>
      balanced is_close is_open (\<lambda>a b. closes b a) x \<and> closes y b \<and> t = 0 + length x + 2"
    using balanced_rev [OF u(2)] u(3,4)
    by (intro exI [of _ "rev u"] exI [of _ ?a] exI [of _ "rev ?pre"]) simp
  from bwd.bscan_expression [THEN iffD2, OF _ this] whole p cb b
  have "rscan 0 (rev (take (offset elided n' (Suc q)) (concat elided))) [] = Found t" by simp
  with R r(4) p obtain n2 p2 where R2:
    "ReverseCloseExpression elided n' q = Inr (elided ! n2, n2, int p2)"
    "n2 < length elided" "p2 < length (elided ! n2)" "offset elided n2 p2 = ?o" by auto
  from offset_inj [OF R2(4) R2(2) assms(1) R2(3) assms(2)] R2(1) p show ?thesis by simp
qed

theorem reverse_close_roundtrip_witness:
  "ReverseCloseExpression [''f(a << b->c,'', ''d<e; [0]) {''] 1 8 = Inr (''f(a << b->c,'', 0, 1)"
proof -
  have "CloseExpression [''f(a << b->c,'', ''d<e; [0]) {''] 0 1 = Inr (''d<e; [0]) {'', 1, int 9)" by code_simp
  then show ?thesis
    using reverse_close_roundtrip [of 0 "[''f(a << b->c,'', ''d<e; [0]) {'']" 1 _ 1 9]
    by (simp add: is_open_def)
qed

lemma CloseExpression_progress:
  assumes "CloseExpression elided n c = Inr (line, n', p)" and "p \<noteq> -1"
  shows "n \<le> n' \<and> n' < length elided \<and> line = elided ! n' \<and> 0 < p \<and> p \<le> int (length line) \<and>
    (n' = n \<longrightarrow> int c + 1 < p)"
proof -
  from assms(1) have n: "n < length elided" "c < length (elided ! n)"
    by (auto simp: CloseExpression_def bind_res_def py_nth_def split: sum.splits if_splits)
  with assms have loop: "close_loop elided (elided ! n) n (end_loop (elided ! n) c []) = (line, n', p)"
    by (auto simp: CloseExpression_def FindEndOfExpressionInLine_def split: if_splits)
  from loop assms(2) have "0 \<le> p"
    by (rule close_loop_neg)
  from close_loop_bounds [OF loop this n(1) refl, of "Suc c"] end_loop_Found end_loop_Nil
  show ?thesis by (force simp: nat_le_iff)
qed

lemma CloseExpression_returns:
  "n < length elided \<Longrightarrow> c < length (elided ! n) \<Longrightarrow> \<exists>r. CloseExpression elided n c = Inr r"
  by (simp add: CloseExpression_def del: split_paired_Ex)

text \<open>
  C21: on any text whatever, a result of \<open>CloseExpression\<close> that is not \<open>-1\<close> is a position of
  the file strictly past the one it was called at: the line is the line of the number
  returned, the column lies within it, and on the same line it is at least two further.
\<close>

theorem close_expression_progress:
  assumes "CloseExpression elided n c = Inr (line, n', p)" and "p \<noteq> -1"
  shows "n \<le> n' \<and> n' < length elided \<and> line = elided ! n' \<and> 0 < p \<and> p \<le> int (length line) \<and>
    (n' = n \<longrightarrow> int c + 1 < p)"
  using assms by (rule CloseExpression_progress)

theorem close_expression_progress_witness:
  "(1::int) < 5 \<and> (5::int) \<noteq> -1 \<and> CloseExpression [''f(a,'', ''b[0]) {''] 0 1 = Inr (''b[0]) {'', 1, 5)"
proof -
  have "CloseExpression [''f(a,'', ''b[0]) {''] 0 1 = Inr (''b[0]) {'', 1, 5)" by code_simp
  with close_expression_progress [OF this] show ?thesis by simp
qed


section \<open>From an angle bracket\<close>

text \<open>
  From \<open><\<close> the scan is a guess from the start: the oldest entry of the stack is the guess
  itself. What it finds is still an expression whose other brackets are balanced.
\<close>

definition guessing :: "string \<Rightarrow> bool" where
  "guessing stack \<longleftrightarrow> stack \<noteq> [] \<and> last stack = CHR ''<'' \<and> (\<forall>x \<in> set stack. is_open x \<or> x = CHR ''<'')"

abbreviation bottomed :: "string \<Rightarrow> string" where
  "bottomed stack \<equiv> solid CHR ''<'' stack @ ''(''"

lemma guessing_push: "guessing stack \<Longrightarrow> is_open x \<or> x = CHR ''<'' \<Longrightarrow> guessing (x # stack)"
  by (auto simp: guessing_def)

lemma guessing_pop: "guessing (x # stack) \<Longrightarrow> stack \<noteq> [] \<Longrightarrow> guessing stack"
  by (auto simp: guessing_def)

lemma guessing_pop_all:
  "guessing stack \<Longrightarrow> pop_all CHR ''<'' stack = [] \<or>
     (\<exists>s st. pop_all CHR ''<'' stack = s # st \<and> is_open s \<and> s \<noteq> CHR ''<'' \<and> guessing (s # st) \<and>
       st \<noteq> [] \<and> solid CHR ''<'' stack = s # solid CHR ''<'' st)"
proof (induction stack)
  case (Cons x stack)
  show ?case
  proof (cases "x = CHR ''<''")
    case True
    show ?thesis
    proof (cases "stack = []")
      case False
      with Cons.prems have "guessing stack" by (rule guessing_pop)
      from Cons.IH [OF this] True show ?thesis by (simp add: pop_all_def)
    qed (simp add: True pop_all_def)
  next
    case False
    with Cons.prems show ?thesis by (auto simp: pop_all_def guessing_def)
  qed
qed (simp add: guessing_def)

lemma end_step_guessing:
  assumes "guessing stack"
  shows "case end_step line i stack of
      Inl (Found e) \<Rightarrow> e = Suc i \<and> line ! i = CHR ''>'' \<and> stack = ''<''
    | Inl Broken \<Rightarrow> True
    | Inl (Pending st) \<Rightarrow> False
    | Inr st \<Rightarrow> guessing st \<and>
        fscan i (line ! i # w) (bottomed stack) = fscan (Suc i) w (bottomed st)"
proof -
  note p = guessing_pop_all [OF assms]
  from assms obtain x xs where st: "stack = x # xs" by (cases stack) (auto simp: guessing_def)
  note pop = guessing_pop [OF assms [unfolded st]]
  consider (op) "is_open (line ! i)" | (cl) "is_close (line ! i)"
    | (lt) "line ! i = CHR ''<''" | (gt) "line ! i = CHR ''>''"
    | (other) "\<not> is_open (line ! i)" "\<not> is_close (line ! i)" "line ! i \<noteq> CHR ''<''" "line ! i \<noteq> CHR ''>''"
    by blast
  then show ?thesis
  proof cases
    case op
    then have "line ! i \<noteq> CHR ''<''" by (auto simp: is_open_def)
    with op show ?thesis using guessing_push [OF assms, of "line ! i"] by (simp add: end_step_def)
  next
    case cl
    then have c: "\<not> is_open (line ! i)" "line ! i \<noteq> CHR ''<''" by (auto simp: is_open_def is_close_def)
    from p show ?thesis
    proof (elim disjE exE conjE)
      assume "pop_all CHR ''<'' stack = []"
      with cl c show ?thesis by (simp add: end_step_def Let_def)
    next
      fix s st assume q: "pop_all CHR ''<'' stack = s # st" "guessing (s # st)" "st \<noteq> []"
        "solid CHR ''<'' stack = s # solid CHR ''<'' st"
      from guessing_pop [OF q(2,3)] q cl c show ?thesis by (simp add: end_step_def Let_def)
    qed
  next
    case lt
    then have c: "\<not> is_open (line ! i)" "\<not> is_close (line ! i)" by (auto simp: is_open_def is_close_def)
    have "end_step line i stack = Inl Broken \<or> (\<exists>st'. end_step line i stack = Inr st' \<and> guessing st' \<and>
        solid CHR ''<'' st' = solid CHR ''<'' stack)"
      unfolding end_step_def Let_def using c lt assms guessing_push [OF assms, of "CHR ''<''"] pop
      by (auto simp: st)
    with c show ?thesis by auto
  next
    case gt
    then have c: "\<not> is_open (line ! i)" "\<not> is_close (line ! i)" by (auto simp: is_open_def is_close_def)
    have "end_step line i stack = Inl (Found (Suc i)) \<and> stack = ''<'' \<or>
        (\<exists>st'. end_step line i stack = Inr st' \<and> guessing st' \<and>
          solid CHR ''<'' st' = solid CHR ''<'' stack)"
      unfolding end_step_def Let_def using c gt assms pop by (auto simp: st)
    with c gt show ?thesis by auto
  next
    case other
    from p have "end_step line i stack = Inl Broken \<or> (\<exists>st'. end_step line i stack = Inr st' \<and>
        guessing st' \<and> solid CHR ''<'' st' = solid CHR ''<'' stack)"
      unfolding end_step_def Let_def using other assms by auto
    with other show ?thesis by auto
  qed
qed

lemma fscan_pending_shift: "fscan i w stack = Pending st \<longleftrightarrow> fscan 0 w stack = Pending st"
  using fwd.bscan_shift [of i 0 w stack] by (auto split: scan.splits)

lemma end_loop_guessing:
  "guessing stack \<Longrightarrow> i \<le> length line \<Longrightarrow>
   case end_loop line i stack of
      Found e \<Rightarrow> \<exists>j. e = Suc j \<and> i \<le> j \<and> j < length line \<and> line ! j = CHR ''>'' \<and>
        fscan i (drop i (take j line)) (bottomed stack) = Pending ''(''
    | Broken \<Rightarrow> True
    | Pending st \<Rightarrow> guessing st \<and> fscan i (drop i line) (bottomed stack) = Pending (bottomed st)"
proof (induction line i stack rule: end_loop.induct)
  case (1 line i stack)
  show ?case
  proof (cases "i < length line")
    case True
    have d: "drop i (take j line) = line ! i # drop (Suc i) (take j line)" if "i < j" "j \<le> length line" for j
      using that Cons_nth_drop_Suc [of i "take j line"] by simp
    note step = end_step_guessing [OF "1.prems"(1), where line = line and i = i]
    have loop: "end_loop line i stack =
        (case end_step line i stack of Inl r \<Rightarrow> r | Inr st \<Rightarrow> end_loop line (Suc i) st)"
      using True by (subst end_loop.simps) simp
    show ?thesis
    proof (cases "end_step line i stack")
      case (Inl r)
      with step loop True show ?thesis by (cases r) auto
    next
      case (Inr st)
      with step have g: "guessing st" by simp
      from "1.IH" [OF True Inr g Suc_leI [OF True]] step loop Inr d [of "length line"] d True
      show ?thesis by (fastforce split: scan.splits)
    qed
  next
    case False
    with "1.prems" show ?thesis by (simp add: end_loop.simps)
  qed
qed


lemma segment_Suc:
  assumes "Suc n < length elided" and "offset elided (Suc (Suc n)) 0 \<le> b"
  shows "drop (offset elided (Suc n) 0) (take b (concat elided)) =
    elided ! Suc n @ drop (offset elided (Suc (Suc n)) 0) (take b (concat elided))"
proof -
  let ?x = "elided ! Suc n" and ?a = "offset elided (Suc n) 0"
  have off: "offset elided (Suc (Suc n)) 0 = ?a + length ?x"
    using offset_Suc [OF assms(1), of 0] by (simp add: offset_def)
  have "take (length ?x) (drop ?a (take b (concat elided))) = take (length ?x) (drop ?a (concat elided))"
    using assms(2) off by (simp add: drop_take)
  also have "\<dots> = ?x" using drop_offset [OF assms(1), of 0] by simp
  finally show ?thesis
    using append_take_drop_id [of "length ?x" "drop ?a (take b (concat elided))"]
    by (simp add: off add.commute)
qed

lemma fscan_pending_append:
  assumes "fscan i u stack = Pending st" "fscan 0 v st = Pending st'" "stack \<noteq> []"
  shows "fscan 0 (u @ v) stack = Pending st'"
proof -
  from assms(1) fscan_pending_shift [of i] have "fscan 0 u stack = Pending st" by blast
  moreover from assms(2) fscan_pending_shift [of "length u"]
  have "fscan (length u) v st = Pending st'" by blast
  ultimately show ?thesis using assms(3) by (simp add: fwd.bscan_append)
qed

lemma close_loop_guessing:
  "guessing stack \<Longrightarrow> n < length elided \<Longrightarrow>
   close_loop elided line n (Pending stack) = (l, n', int q) \<Longrightarrow>
     \<exists>j. q = Suc j \<and> l = elided ! n' \<and> n' < length elided \<and> j < length l \<and> l ! j = CHR ''>'' \<and>
       offset elided (Suc n) 0 \<le> offset elided n' j \<and>
       fscan 0 (drop (offset elided (Suc n) 0) (take (offset elided n' j) (concat elided)))
         (bottomed stack) = Pending ''(''"
proof (induction "length elided - n" arbitrary: n stack line)
  case (Suc k)
  from Suc.prems(3) have True: "Suc n < length elided"
    using Suc.prems(1) by (subst (asm) close_loop.simps) (auto split: if_splits)
  let ?x = "elided ! Suc n"
  have ne: "stack \<noteq> []" using Suc.prems(1) by (simp add: guessing_def)
  have loop: "close_loop elided line n (Pending stack) =
      close_loop elided ?x (Suc n) (end_loop ?x 0 stack)"
    using True ne by (subst close_loop.simps) (simp add: FindEndOfExpressionInLine_def)
  note L = end_loop_guessing [OF Suc.prems(1), where line = ?x and i = 0, unfolded drop_0]
  show ?case
  proof (cases "end_loop ?x 0 stack")
    case (Found e)
    with L obtain j where j: "e = Suc j" "j < length ?x" "?x ! j = CHR ''>''"
      "fscan 0 (take j ?x) (bottomed stack) = Pending ''(''" by auto
    have r: "l = ?x" "n' = Suc n" "q = Suc j"
      using Found loop Suc.prems(3) j(1) close_loop.simps [of elided ?x "Suc n" "Found e"] by auto
    have "drop (offset elided (Suc n) 0) (take (offset elided (Suc n) j) (concat elided)) = take j ?x"
      using take_offset [OF True less_imp_le [OF j(2)]] by (simp add: offset_def)
    with r j True show ?thesis by (simp add: offset_def)
  next
    case Broken
    with loop Suc.prems(3) show ?thesis by (simp add: close_loop.simps)
  next
    case (Pending st)
    with L have st: "guessing st" "fscan 0 ?x (bottomed stack) = Pending (bottomed st)" by auto
    have k: "k = length elided - Suc n" using Suc.hyps(2) by simp
    from loop Pending Suc.prems(3)
    have c: "close_loop elided ?x (Suc n) (Pending st) = (l, n', int q)" by simp
    from Suc.hyps(1) [OF k st(1) True c] obtain j where
      j: "q = Suc j" "l = elided ! n'" "n' < length elided" "j < length l" "l ! j = CHR ''>''"
      "offset elided (Suc (Suc n)) 0 \<le> offset elided n' j"
      "fscan 0 (drop (offset elided (Suc (Suc n)) 0) (take (offset elided n' j) (concat elided)))
         (bottomed st) = Pending ''(''" by blast
    have le: "offset elided (Suc n) 0 \<le> offset elided n' j"
      using offset_Suc [OF True, of 0] j(6) by (simp add: offset_def)
    have "fscan 0 (drop (offset elided (Suc n) 0) (take (offset elided n' j) (concat elided)))
        (bottomed stack) = Pending ''(''"
      unfolding segment_Suc [OF True j(6)] by (rule fscan_pending_append [OF st(2) j(7)]) simp
    with j(1-5) le show ?thesis by blast
  qed
qed simp

lemma fscan_balanced: "fscan 0 u ''('' = Pending ''('' \<Longrightarrow> balanced_text u"
proof -
  assume "fscan 0 u ''('' = Pending ''(''"
  then have f: "fscan 0 (CHR ''('' # u @ '')'') [] = Found (length u + 2)"
    using fwd.bscan_append [of "''(''" 1 u "'')''"] fscan_pending_shift [of "Suc 0" u "''(''" "''(''"]
    by (simp add: is_open_def is_close_def closes_def)
  have "is_open CHR ''(''" by (simp add: is_open_def)
  from iffD1 [OF fwd.bscan_expression [OF this] f] obtain v b w where
    "u @ '')'' = v @ b # w" "balanced_text v" "length v = length u" by auto
  then show ?thesis by auto
qed

text \<open>
  C22: from an opening angle bracket that is not part of \<open><<\<close> and does not follow the word
  \<open>operator\<close>, on any text: if \<open>CloseExpression\<close> finds an end, the text from the bracket to
  the position returned is \<open><u>\<close>, over as many lines as it takes, and the round, square and
  curly brackets of \<open>u\<close> are balanced, so that a template argument list never ends inside or
  beyond a bracket that encloses it.
\<close>

theorem angle_expression_balanced:
  assumes "n < length elided" "c < length (elided ! n)" "elided ! n ! c = CHR ''<''"
    and "0 < c \<Longrightarrow> elided ! n ! (c - 1) \<noteq> CHR ''<'' \<and> Search OPERATOR_AT_END (take c (elided ! n)) = None"
    and "CloseExpression elided n c = Inr (line, n', int p)"
  shows "\<exists>u. drop (offset elided n c) (take (offset elided n' p) (concat elided)) = ''<'' @ u @ ''>'' \<and>
    balanced_text u \<and> n' < length elided \<and> line = elided ! n' \<and> p \<le> length line"
proof -
  let ?l = "elided ! n" and ?o = "offset elided n c"
  have "end_step ?l c [] = Inr ''<''"
    using assms(3,4) by (cases "c = 0") (simp_all add: end_step_def is_open_def Let_def)
  then have "end_loop ?l c [] = end_loop ?l (Suc c) ''<''"
    using assms(2) by (subst end_loop.simps) simp
  with assms have loop: "close_loop elided ?l n (end_loop ?l (Suc c) ''<'') = (line, n', int p)"
    by (auto simp: CloseExpression_def FindEndOfExpressionInLine_def split: if_splits)
  have g: "guessing ''<''" "bottomed ''<'' = ''(''" by (simp_all add: guessing_def)
  note L = end_loop_guessing [OF g(1) Suc_leI [OF assms(2)], unfolded g(2)]
  have "\<exists>j. p = Suc j \<and> line = elided ! n' \<and> n' < length elided \<and> j < length line \<and>
      line ! j = CHR ''>'' \<and> Suc ?o \<le> offset elided n' j \<and>
      fscan 0 (drop (Suc ?o) (take (offset elided n' j) (concat elided))) ''('' = Pending ''(''"
  proof (cases "end_loop ?l (Suc c) ''<''")
    case (Found e)
    with L obtain j where j: "e = Suc j" "Suc c \<le> j" "j < length ?l" "?l ! j = CHR ''>''"
      "fscan (Suc c) (drop (Suc c) (take j ?l)) ''('' = Pending ''(''" by auto
    have r: "line = ?l" "n' = n" "p = Suc j"
      using Found loop j(1) close_loop.simps [of elided ?l n "Found e"] by auto
    have "drop (Suc ?o) (take (offset elided n j) (concat elided)) = drop (Suc c) (take j ?l)"
      using take_offset [OF assms(1) less_imp_le [OF j(3)]] by (simp add: offset_def)
    moreover from j(5) fscan_pending_shift [of "Suc c"]
    have "fscan 0 (drop (Suc c) (take j ?l)) ''('' = Pending ''(''" by blast
    ultimately show ?thesis using r j(1-4) assms(1) by (auto simp: offset_def)
  next
    case Broken
    with loop show ?thesis by (simp add: close_loop.simps)
  next
    case (Pending st)
    with L have st: "guessing st" "fscan (Suc c) (drop (Suc c) ?l) ''('' = Pending (bottomed st)" by auto
    from close_loop_guessing [OF st(1) assms(1)] loop Pending obtain j where
      j: "p = Suc j" "line = elided ! n'" "n' < length elided" "j < length line" "line ! j = CHR ''>''"
      "offset elided (Suc n) 0 \<le> offset elided n' j"
      "fscan 0 (drop (offset elided (Suc n) 0) (take (offset elided n' j) (concat elided)))
         (bottomed st) = Pending ''(''" by metis
    let ?b = "take (offset elided n' j) (concat elided)"
    have off: "offset elided (Suc n) 0 = Suc ?o + (length ?l - Suc c)"
      using offset_Suc [OF assms(1), of 0] assms(2) by (simp add: offset_def)
    have "take (length ?l - Suc c) (drop (Suc ?o) ?b) =
        take (length ?l - Suc c) (drop (Suc ?o) (concat elided))"
      using j(6) off by (simp add: drop_take)
    also have "\<dots> = drop (Suc c) ?l"
      using drop_offset [OF assms(1) Suc_leI [OF assms(2)]] by (simp add: offset_def)
    finally have "drop (Suc ?o) ?b = drop (Suc c) ?l @ drop (offset elided (Suc n) 0) ?b"
      using append_take_drop_id [of "length ?l - Suc c" "drop (Suc ?o) ?b"] by (simp add: off add.commute)
    with fscan_pending_append [OF st(2) j(7)]
    have "fscan 0 (drop (Suc ?o) ?b) ''('' = Pending ''(''" by simp
    moreover have "Suc ?o \<le> offset elided n' j" using j(6) off by simp
    ultimately show ?thesis using j(1-5) by blast
  qed
  then obtain j where j: "p = Suc j" "line = elided ! n'" "n' < length elided" "j < length line"
    "line ! j = CHR ''>''" "Suc ?o \<le> offset elided n' j"
    "fscan 0 (drop (Suc ?o) (take (offset elided n' j) (concat elided))) ''('' = Pending ''(''" by blast
  let ?u = "drop (Suc ?o) (take (offset elided n' j) (concat elided))"
  have whole: "take (offset elided n' p) (concat elided) = take (offset elided n' j) (concat elided) @ ''>''"
    using j take_offset [of n' elided] by (simp add: take_Suc_conv_app_nth)
  let ?B = "take (offset elided n' j) (concat elided)"
  have "length ?B = offset elided n' j"
    using j take_offset [of n' elided j] by (simp add: offset_def)
  with j(6) have o: "?o < length ?B" by simp
  from drop_offset_Cons [OF assms(1,2)] assms(3) have "concat elided ! ?o = CHR ''<''"
    using hd_drop_conv_nth [of ?o "concat elided"] o by simp
  with o Cons_nth_drop_Suc [OF o] have "drop ?o ?B = CHR ''<'' # ?u" by simp
  moreover have "drop ?o (take (offset elided n' p) (concat elided)) = drop ?o ?B @ ''>''"
    unfolding whole using o by simp
  ultimately show ?thesis using j(1-4) fscan_balanced [OF j(7)] by (intro exI [of _ ?u]) simp
qed

theorem angle_expression_balanced_witness:
  "\<exists>u. drop (offset [''map<f(a, (b > c)),'', ''d[0]> x;''] 0 3)
      (take (offset [''map<f(a, (b > c)),'', ''d[0]> x;''] 1 5) (concat [''map<f(a, (b > c)),'', ''d[0]> x;''])) =
      ''<'' @ u @ ''>'' \<and> balanced_text u"
proof -
  have "CloseExpression [''map<f(a, (b > c)),'', ''d[0]> x;''] 0 3 = Inr (''d[0]> x;'', 1, int 5)" by code_simp
  moreover have "Search OPERATOR_AT_END ''map'' = None" by code_simp
  ultimately show ?thesis
    using angle_expression_balanced [of 0 "[''map<f(a, (b > c)),'', ''d[0]> x;'']" 3 _ 1 5] by simp
qed

end
