(* ===== verification/File_Info.thy ===== *)
theory File_Info
  imports Regex_Semantics
begin

text \<open>
  Path names: the functions of \<open>os.path\<close> on POSIX that the program uses, class
  \<open>FileInfo\<close>, and \<open>GetHeaderGuardCPPVariable\<close>. What the file system answers is a
  parameter: the working directory and the predicate \<open>os.path.exists\<close>.
\<close>

section \<open>os.path\<close>

record os_env =
  getcwd :: string
  exists :: "string \<Rightarrow> bool"

text \<open>\<open>os.path.split\<close>: the text after the last slash, and what is before it.\<close>

definition split_tail :: "string \<Rightarrow> string" where
  "split_tail p = rev (takeWhile (\<lambda>c. c \<noteq> CHR ''/'') (rev p))"

definition split_raw_head :: "string \<Rightarrow> string" where
  "split_raw_head p = rev (dropWhile (\<lambda>c. c \<noteq> CHR ''/'') (rev p))"

definition rstrip_slash :: "string \<Rightarrow> string" where
  "rstrip_slash h = rstrip_by (\<lambda>c. c = CHR ''/'') h"

definition path_split :: "string \<Rightarrow> string \<times> string" where
  "path_split p =
     (let head = split_raw_head p
      in (if head \<noteq> [] \<and> (\<exists>c \<in> set head. c \<noteq> CHR ''/'') then rstrip_slash head else head,
          split_tail p))"

definition dirname :: "string \<Rightarrow> string" where
  "dirname p = fst (path_split p)"

definition path_join :: "string \<Rightarrow> string \<Rightarrow> string" where
  "path_join a b =
     (if startswith b ''/'' then b
      else if a = [] \<or> endswith a ''/'' then a @ b
      else a @ ''/'' @ b)"

definition path_join_list :: "string list \<Rightarrow> string" where
  "path_join_list ps = (case ps of [] \<Rightarrow> [] | p # qs \<Rightarrow> foldl path_join p qs)"

text \<open>
  \<open>os.path.splitext\<close>: the extension starts at the last dot of the last component, unless
  only dots precede it there.
\<close>

definition splitext :: "string \<Rightarrow> string \<times> string" where
  "splitext p =
     (let base = split_tail p;
          ext_rev = takeWhile (\<lambda>c. c \<noteq> CHR ''.'') (rev base);
          stem = rev (tl (dropWhile (\<lambda>c. c \<noteq> CHR ''.'') (rev base)))
      in if CHR ''.'' \<in> set base \<and> (\<exists>c \<in> set stem. c \<noteq> CHR ''.'')
         then (take (length p - Suc (length ext_rev)) p, CHR ''.'' # rev ext_rev)
         else (p, []))"

fun norm_comps :: "bool \<Rightarrow> string list \<Rightarrow> string list \<Rightarrow> string list" where
  "norm_comps rooted [] acc = rev acc"
| "norm_comps rooted (c # cs) acc =
     (if c = [] \<or> c = ''.'' then norm_comps rooted cs acc
      else if c \<noteq> ''..'' \<or> (\<not> rooted \<and> acc = []) \<or> (acc \<noteq> [] \<and> hd acc = ''..'')
      then norm_comps rooted cs (c # acc)
      else norm_comps rooted cs (tl acc))"

definition normpath :: "string \<Rightarrow> string" where
  "normpath p =
     (if p = [] then ''.''
      else
        (let rooted = startswith p ''/'';
             slashes = (if \<not> rooted then [] else
               if startswith p ''//'' \<and> \<not> startswith p ''///'' then ''//'' else ''/'');
             path = slashes @ str_join ''/'' (norm_comps rooted (split_on CHR ''/'' p) [])
         in if path = [] then ''.'' else path))"

definition abspath :: "os_env \<Rightarrow> string \<Rightarrow> string" where
  "abspath env p = normpath (if startswith p ''/'' then p else path_join (getcwd env) p)"

text \<open>\<open>os.path.commonprefix\<close> of two strings.\<close>

fun commonprefix :: "string \<Rightarrow> string \<Rightarrow> string" where
  "commonprefix (x # xs) (y # ys) = (if x = y then x # commonprefix xs ys else [])"
| "commonprefix _ _ = []"

section \<open>Laws of splitting\<close>

lemma split_raw_append: "split_raw_head p @ split_tail p = p"
  unfolding split_raw_head_def split_tail_def
  by (metis rev_append rev_rev_ident takeWhile_dropWhile_id)

lemma split_tail_no_slash: "CHR ''/'' \<notin> set (split_tail p)"
  unfolding split_tail_def by (auto dest: set_takeWhileD)

lemma split_raw_head_last:
  assumes "split_raw_head p \<noteq> []"
  shows "last (split_raw_head p) = CHR ''/''"
proof -
  let ?xs = "dropWhile (\<lambda>c. c \<noteq> CHR ''/'') (rev p)"
  from assms have "?xs \<noteq> []" by (simp add: split_raw_head_def)
  then have "hd ?xs = CHR ''/''" using hd_dropWhile [of "\<lambda>c. c \<noteq> CHR ''/''" "rev p"] by simp
  then show ?thesis by (simp add: split_raw_head_def last_rev)
qed

lemma rstrip_slash_prefix: "\<exists>t. rstrip_slash h @ t = h"
  unfolding rstrip_slash_def rstrip_by_def
  by (metis rev_append rev_rev_ident takeWhile_dropWhile_id)

lemma dirname_prefix: "\<exists>t. p = dirname p @ t"
proof (cases "split_raw_head p \<noteq> [] \<and> (\<exists>c \<in> set (split_raw_head p). c \<noteq> CHR ''/'')")
  case True
  then have d: "dirname p = rstrip_slash (split_raw_head p)"
    by (simp add: dirname_def path_split_def Let_def)
  obtain t where t: "rstrip_slash (split_raw_head p) @ t = split_raw_head p"
    using rstrip_slash_prefix by blast
  have "dirname p @ (t @ split_tail p) = p"
    by (simp add: d t split_raw_append flip: append.assoc)
  then show ?thesis by metis
next
  case False
  then have "dirname p = split_raw_head p" by (auto simp: dirname_def path_split_def Let_def)
  with split_raw_append [of p] show ?thesis by metis
qed

lemma dirname_shorter: "dirname p \<noteq> p \<Longrightarrow> length (dirname p) < length p"
  using dirname_prefix [of p] by (metis append_Nil2 length_append less_add_same_cancel1 length_greater_0_conv)

lemma path_split_shorter: "path_split p = (h, t) \<Longrightarrow> h \<noteq> p \<Longrightarrow> length h < length p"
  using dirname_shorter [of p] by (simp add: dirname_def)

lemma dirname_root: "dirname ''/'' = ''/''"
  by code_simp

section \<open>Class FileInfo\<close>

definition FullName :: "os_env \<Rightarrow> string \<Rightarrow> string" where
  "FullName env filename = str_replace (abspath env filename) [backslash] ''/''"

text \<open>
  The search for the top of a Subversion checkout; \<open>None\<close> when the loop does not end.
\<close>

partial_function (option) svn_root :: "os_env \<Rightarrow> string \<Rightarrow> string \<Rightarrow> string option" where
  "svn_root env root_dir one_up_dir =
     (if exists env (path_join one_up_dir ''.svn'')
      then svn_root env (dirname root_dir) (dirname one_up_dir)
      else Some root_dir)"

declare svn_root.simps [code]

definition is_repo_top :: "os_env \<Rightarrow> string \<Rightarrow> bool" where
  "is_repo_top env d \<longleftrightarrow> exists env (path_join d ''.git'') \<or> exists env (path_join d ''.hg'') \<or>
     exists env (path_join d ''.svn'')"

text \<open>The search upwards for the outermost directory that is the top of a repository.\<close>

function repo_root :: "os_env \<Rightarrow> string \<Rightarrow> string \<Rightarrow> string" where
  "repo_root env root_dir current_dir =
     (if current_dir \<noteq> dirname current_dir
      then repo_root env (if is_repo_top env current_dir then current_dir else root_dir)
             (dirname current_dir)
      else root_dir)"
  by pat_completeness auto
termination
  by (relation "measure (\<lambda>(env, r, c). length c)") (auto intro!: dirname_shorter)

declare repo_root.simps [simp del]

definition strip_root :: "string \<Rightarrow> string \<Rightarrow> string \<Rightarrow> string" where
  "strip_root root_dir project_dir fullname =
     drop (length (commonprefix root_dir project_dir) + 1) fullname"

definition RepositoryName :: "os_env \<Rightarrow> string \<Rightarrow> string option" where
  "RepositoryName env filename =
     (let fullname = FullName env filename
      in if exists env fullname then
           (let project_dir = dirname fullname
            in if exists env (path_join project_dir ''.svn'') then
                 map_option (\<lambda>root_dir. strip_root root_dir project_dir fullname)
                   (svn_root env project_dir (dirname project_dir))
               else
                 (let root_dir = repo_root env project_dir project_dir
                  in if is_repo_top env root_dir
                     then Some (strip_root root_dir project_dir fullname)
                     else Some fullname))
         else Some fullname)"

definition Split :: "os_env \<Rightarrow> string \<Rightarrow> (string \<times> string \<times> string) option" where
  "Split env filename =
     map_option (\<lambda>googlename. case path_split googlename of
        (project, base) \<Rightarrow> (project, splitext base)) (RepositoryName env filename)"

definition BaseName :: "os_env \<Rightarrow> string \<Rightarrow> string option" where
  "BaseName env filename = map_option (\<lambda>(p, b, e). b) (Split env filename)"

definition Extension :: "os_env \<Rightarrow> string \<Rightarrow> string option" where
  "Extension env filename = map_option (\<lambda>(p, b, e). e) (Split env filename)"

definition NoExtension :: "os_env \<Rightarrow> string \<Rightarrow> string option" where
  "NoExtension env filename = map_option (\<lambda>(p, b, e). str_join ''/'' [p, b]) (Split env filename)"

definition IsSourceExtension :: "string \<Rightarrow> bool" where
  "IsSourceExtension s \<longleftrightarrow> s \<in> {''c'', ''cc'', ''cpp'', ''cxx''}"

definition IsSource :: "os_env \<Rightarrow> string \<Rightarrow> bool option" where
  "IsSource env filename = map_option (\<lambda>e. IsSourceExtension (tl e)) (Extension env filename)"

section \<open>Splitting a path into its components\<close>

text \<open>\<open>PathSplitToList\<close>; \<open>lst\<close> is kept in the reversed order that it has in the end.\<close>

function path_split_loop :: "string \<Rightarrow> string list \<Rightarrow> string list" where
  "path_split_loop path lst =
     (case path_split path of (head, tail) \<Rightarrow>
        if head = path then head # lst
        else if tail = path then tail # lst
        else path_split_loop head (tail # lst))"
  by pat_completeness auto
termination
  by (relation "measure (\<lambda>(p, l). length p)") (auto dest!: sym [THEN path_split_shorter])

declare path_split_loop.simps [simp del]

definition PathSplitToList :: "string \<Rightarrow> string list" where
  "PathSplitToList path = path_split_loop path []"

section \<open>The header guard\<close>

definition StripListPrefix :: "string list \<Rightarrow> string list \<Rightarrow> string list option" where
  "StripListPrefix lst pfx =
     (if take (length pfx) lst \<noteq> pfx then None else Some (drop (length pfx) lst))"

text \<open>
  Python's \<open>fmt % args\<close> for formats whose only directive is \<open>%s\<close>, with arguments already
  turned into strings: a \<open>TypeError\<close> when an argument is missing or left over.
\<close>

fun py_percent :: "string \<Rightarrow> string list \<Rightarrow> string res" where
  "py_percent [] [] = Inr []"
| "py_percent [] (a # as) = Inl TypeError"
| "py_percent (c # fmt) as =
     (if c = CHR ''%'' \<and> fmt \<noteq> [] \<and> hd fmt = CHR ''s'' then
        (case as of
           [] \<Rightarrow> Inl TypeError
         | a # as' \<Rightarrow> bind_res (py_percent (tl fmt) as') (\<lambda>s. Inr (a @ s)))
      else bind_res (py_percent fmt as) (\<lambda>s. Inr (c # s)))"

text \<open>\<open>str()\<close> of \<open>None\<close> or a list of strings: each string with \<open>repr\<close>.\<close>

definition hex_digits :: "nat \<Rightarrow> string" where
  "hex_digits n = [''0123456789abcdef'' ! (n div 16), ''0123456789abcdef'' ! (n mod 16)]"

definition repr_char :: "char \<Rightarrow> char \<Rightarrow> string" where
  "repr_char q c =
     (if c = backslash \<or> c = q then [backslash, c]
      else if c = CHR 0x0A then [backslash, CHR ''n'']
      else if c = CHR 0x0D then [backslash, CHR ''r'']
      else if c = CHR 0x09 then [backslash, CHR ''t'']
      else if code c < 32 \<or> 127 \<le> code c then [backslash, CHR ''x''] @ hex_digits (code c)
      else [c])"

definition py_repr :: "string \<Rightarrow> string" where
  "py_repr s =
     (let q = (if CHR 0x27 \<in> set s \<and> CHR 0x22 \<notin> set s then CHR 0x22 else CHR 0x27)
      in q # concat (map (repr_char q) s) @ [q])"

definition str_path :: "string list option \<Rightarrow> string" where
  "str_path path =
     (case path of
        None \<Rightarrow> ''None''
      | Some ps \<Rightarrow> ''['' @ str_join '', '' (map py_repr ps) @ '']'')"

text \<open>
  The messages that \<open>_root_debug\<close> writes to the standard error stream. The text goes
  nowhere else; what matters is whether formatting it raises.
\<close>

definition debug_message :: "bool \<Rightarrow> string \<Rightarrow> string list \<Rightarrow> unit res" where
  "debug_message root_debug fmt args =
     (if root_debug then bind_res (py_percent fmt args) (\<lambda>message. Inr ()) else Inr ())"

text \<open>
  \<open>FixupPathFromRoot\<close>: \<open>root\<close> is the \<open>--root\<close> flag. The operator \<open>%\<close> binds tighter than
  \<open>+\<close>, so the two messages about \<open>maybe_path\<close> format their second half only.
\<close>

definition FixupPathFromRoot ::
  "os_env \<Rightarrow> string option \<Rightarrow> bool \<Rightarrow> string \<Rightarrow> string \<Rightarrow> string res" where
  "FixupPathFromRoot env root root_debug filename file_path_from_root =
     bind_res (debug_message root_debug
       ([CHR 0x0A] @ ''_root fixup, _root = '' @ [CHR 0x27] @ ''%s'' @ [CHR 0x27] @
         '', repository name = '' @ [CHR 0x27] @ ''%s'' @ [CHR 0x27, CHR 0x0A])
       [case root of None \<Rightarrow> ''None'' | Some r \<Rightarrow> r, file_path_from_root]) (\<lambda>_.
     (case root of
        None \<Rightarrow> bind_res (debug_message root_debug (''_root unspecified'' @ [CHR 0x0A]) [])
                  (\<lambda>_. Inr file_path_from_root)
      | Some r \<Rightarrow>
          if r = [] then bind_res (debug_message root_debug (''_root unspecified'' @ [CHR 0x0A]) [])
                           (\<lambda>_. Inr file_path_from_root)
          else
            (let maybe_path = StripListPrefix (PathSplitToList file_path_from_root) (PathSplitToList r)
             in bind_res (debug_message root_debug ('' _root=%s)'' @ [CHR 0x0A])
                  [str_path maybe_path, file_path_from_root, r]) (\<lambda>_.
             case maybe_path of
               Some (p # ps) \<Rightarrow> Inr (path_join_list (p # ps))
             | _ \<Rightarrow>
                 (let full_path = FullName env filename;
                      root_abspath = abspath env r;
                      maybe_path = StripListPrefix (PathSplitToList full_path) (PathSplitToList root_abspath)
                  in bind_res (debug_message root_debug (''root_abspath=%s)'' @ [CHR 0x0A])
                       [str_path maybe_path, full_path, root_abspath]) (\<lambda>_.
                  case maybe_path of
                    Some (p # ps) \<Rightarrow> Inr (path_join_list (p # ps))
                  | _ \<Rightarrow> bind_res (debug_message root_debug (''_root ignore, returning %s'' @ [CHR 0x0A])
                           [file_path_from_root]) (\<lambda>_. Inr file_path_from_root)))))))"

text \<open>Undoing the names of Emacs's flymake, and spelling \<open>c++\<close> as \<open>cpp\<close>.\<close>

definition guard_filename :: "string \<Rightarrow> string" where
  "guard_filename filename =
     (let filename = ReplaceAll (raw ''_flymake`.h$'') ''.h'' filename;
          filename = re_sub (rx (raw ''/`.flymake/([^/]*)$'')) (\<lambda>m. ''/'' @ grp m 1) filename
      in str_replace (str_replace filename ''C++'' ''cpp'') ''c++'' ''cpp'')"

definition GetHeaderGuardCPPVariable ::
  "os_env \<Rightarrow> string option \<Rightarrow> bool \<Rightarrow> string \<Rightarrow> string res option" where
  "GetHeaderGuardCPPVariable env root root_debug filename =
     (let filename = guard_filename filename
      in map_option (\<lambda>file_path_from_root.
           bind_res (FixupPathFromRoot env root root_debug filename file_path_from_root)
             (\<lambda>path. Inr (str_upper (ReplaceAll ''[^a-zA-Z0-9]'' ''_'' path) @ ''_'')))
           (RepositoryName env filename))"

section \<open>Plain paths\<close>

text \<open>A path without an empty component in its middle.\<close>

definition plain_path :: "string \<Rightarrow> bool" where
  "plain_path p \<longleftrightarrow> \<not> str_in ''//'' p"

lemma plain_path_iff: "plain_path p \<longleftrightarrow> (\<nexists>u v. p = u @ ''//'' @ v)"
  by (simp add: plain_path_def str_in_def str_find_None_iff)

lemma plain_path_prefix: "plain_path (p @ q) \<Longrightarrow> plain_path p"
  unfolding plain_path_iff by (metis append.assoc)

text \<open>
  How a plain path splits: no slash at all, a root followed by one name, or a directory
  followed by a slash and a name.
\<close>

lemma path_split_cases:
  assumes "plain_path p"
  obtains (name) "CHR ''/'' \<notin> set p" "path_split p = ([], p)"
  | (root) t where "p = CHR ''/'' # t" "CHR ''/'' \<notin> set t" "path_split p = (''/'', t)"
  | (dir) d t where "p = d @ CHR ''/'' # t" "d \<noteq> []" "last d \<noteq> CHR ''/''"
      "CHR ''/'' \<notin> set t" "path_split p = (d, t)"
proof -
  obtain h t where ht: "split_raw_head p = h" "split_tail p = t" by simp
  then have p: "p = h @ t" and t: "CHR ''/'' \<notin> set t"
    using split_raw_append [of p] split_tail_no_slash [of p] by auto
  show ?thesis
  proof (cases "h = []")
    case True
    with p have tp: "t = p" by simp
    have sp: "path_split p = ([], p)" unfolding path_split_def ht Let_def by (simp add: True tp)
    show ?thesis by (rule name [OF t [unfolded tp] sp])
  next
    case False
    then have "last h = CHR ''/''" using split_raw_head_last [of p] ht(1) by simp
    then obtain d where h: "h = d @ ''/''" using False by (metis append_butlast_last_id)
    show ?thesis
    proof (cases "d = []")
      case True
      with h have h1: "h = ''/''" by simp
      then have sp: "path_split p = (''/'', t)" unfolding path_split_def ht Let_def by simp
      have "p = CHR ''/'' # t" using p h1 by simp
      from root [OF this t sp] show ?thesis .
    next
      case d: False
      then obtain d0 x where d0: "d = d0 @ [x]" by (metis append_butlast_last_id)
      have x: "x \<noteq> CHR ''/''"
      proof
        assume "x = CHR ''/''"
        then have "p = d0 @ ''//'' @ t" using p h d0 by simp
        with assms show False by (auto simp: plain_path_iff)
      qed
      then have "rstrip_slash h = d"
        by (simp add: h d0 rstrip_slash_def rstrip_by_def)
      with x have sp: "path_split p = (d, t)"
        unfolding path_split_def ht Let_def by (simp add: h d0)
      have "p = d @ CHR ''/'' # t" "last d \<noteq> CHR ''/''" using p h x d0 by simp_all
      from dir [OF this(1) d this(2) t sp] show ?thesis .
    qed
  qed
qed

section \<open>The interface of path splitting\<close>

text \<open>
  What \<open>PathSplitToList\<close> relies on: a path is the join of its head and its tail unless one
  of the two is the whole path, and the head is a smaller path of the same kind.
\<close>

locale path_splitter =
  fixes split :: "string \<Rightarrow> string \<times> string"
    and join :: "string \<Rightarrow> string \<Rightarrow> string"
    and good :: "string \<Rightarrow> bool"
    and to_list :: "string \<Rightarrow> string list"
  assumes split_join: "good p \<Longrightarrow> split p = (h, t) \<Longrightarrow> h \<noteq> p \<Longrightarrow> t \<noteq> p \<Longrightarrow> join h t = p"
    and split_good: "good p \<Longrightarrow> split p = (h, t) \<Longrightarrow> good h"
    and split_shorter: "split p = (h, t) \<Longrightarrow> h \<noteq> p \<Longrightarrow> length h < length p"
    and to_list_unfold: "to_list p = (case split p of (h, t) \<Rightarrow>
        if h = p then [h] else if t = p then [t] else to_list h @ [t])"
begin

lemma to_list_nonempty: "to_list p \<noteq> []"
  by (subst to_list_unfold) (auto split: prod.splits)

lemma to_list_join: "good p \<Longrightarrow> foldl join (hd (to_list p)) (tl (to_list p)) = p"
proof (induction p rule: measure_induct_rule [of length])
  case (less p)
  obtain h t where s: "split p = (h, t)" by fastforce
  show ?case
  proof (cases "h = p \<or> t = p")
    case True
    then have "to_list p = [p]" by (subst to_list_unfold) (auto simp: s)
    then show ?thesis by simp
  next
    case False
    then have l: "to_list p = to_list h @ [t]" by (subst to_list_unfold) (simp add: s)
    from False s have "length h < length p" by (auto dest: split_shorter)
    with less s have "foldl join (hd (to_list h)) (tl (to_list h)) = h"
      by (auto dest: split_good)
    with l False less.prems s show ?thesis
      by (simp add: to_list_nonempty split_join)
  qed
qed

end

lemma path_split_loop_acc: "path_split_loop p lst = path_split_loop p [] @ lst"
proof (induction p arbitrary: lst rule: measure_induct_rule [of length])
  case (less p)
  obtain h t where s: "path_split p = (h, t)" by fastforce
  show ?case
  proof (cases "h = p \<or> t = p")
    case True
    then show ?thesis by (auto simp: path_split_loop.simps [of p] s)
  next
    case False
    with s have "length h < length p" by (auto dest: path_split_shorter)
    from less [OF this, of "t # lst"] less [OF this, of "[t]"] False show ?thesis
      by (simp add: path_split_loop.simps [of p] s)
  qed
qed

interpretation posix: path_splitter path_split path_join plain_path PathSplitToList
proof
  fix p h t
  show "path_split p = (h, t) \<Longrightarrow> h \<noteq> p \<Longrightarrow> length h < length p"
    by (rule path_split_shorter)
  show "PathSplitToList p = (case path_split p of (h, t) \<Rightarrow>
        if h = p then [h] else if t = p then [t] else PathSplitToList h @ [t])"
    unfolding PathSplitToList_def
    by (subst path_split_loop.simps) (auto simp: path_split_loop_acc [of _ "[_]"] split: prod.splits)
next
  fix p h t
  assume "plain_path p" and s: "path_split p = (h, t)"
  then show "plain_path h"
    using dirname_prefix [of p] by (metis dirname_def fst_conv plain_path_prefix)
next
  fix p h t
  assume "plain_path p" and s: "path_split p = (h, t)" and "h \<noteq> p" "t \<noteq> p"
  then show "path_join h t = p"
    by (cases rule: path_split_cases)
       (auto simp: path_join_def startswith_iff endswith_iff)
qed

section \<open>Ancestors\<close>

text \<open>Absolute plain paths, and how \<open>dirname\<close> walks up to the root.\<close>

definition abs_plain :: "string \<Rightarrow> bool" where
  "abs_plain p \<longleftrightarrow> plain_path p \<and> startswith p ''/''"

lemma abs_plain_dirname:
  assumes "abs_plain p"
  shows "abs_plain (dirname p)" "dirname p = p \<longleftrightarrow> p = ''/''"
    "p \<noteq> ''/'' \<Longrightarrow> dirname p = ''/'' \<or> (\<exists>t. p = dirname p @ CHR ''/'' # t)"
proof -
  from assms have pl: "plain_path p" and s: "\<exists>q. p = CHR ''/'' # q"
    by (auto simp: abs_plain_def startswith_iff)
  from pl have *: "abs_plain (dirname p) \<and> (dirname p = p \<longleftrightarrow> p = ''/'') \<and>
    (p \<noteq> ''/'' \<longrightarrow> dirname p = ''/'' \<or> (\<exists>t. p = dirname p @ CHR ''/'' # t))"
  proof (cases rule: path_split_cases)
    case name
    with s show ?thesis by auto
  next
    case (root t)
    moreover have "abs_plain ''/''" by code_simp
    ultimately show ?thesis by (auto simp: dirname_def)
  next
    case (dir d t)
    with s obtain d' where "d = CHR ''/'' # d'" by (cases d) auto
    moreover have "plain_path d" using dir(1) pl plain_path_prefix by blast
    ultimately show ?thesis using dir by (auto simp: dirname_def abs_plain_def startswith_iff)
  qed
  then show "abs_plain (dirname p)" "dirname p = p \<longleftrightarrow> p = ''/''"
    "p \<noteq> ''/'' \<Longrightarrow> dirname p = ''/'' \<or> (\<exists>t. p = dirname p @ CHR ''/'' # t)" by blast+
qed

text \<open>\<open>d\<close> is \<open>p\<close> or one of the directories above it.\<close>

inductive ancestor :: "string \<Rightarrow> string \<Rightarrow> bool" where
  self: "ancestor p p"
| up: "ancestor d p \<Longrightarrow> ancestor (dirname d) p"



lemma repo_root_ancestor:
  "ancestor r p \<Longrightarrow> ancestor c p \<Longrightarrow> ancestor (repo_root env r c) p"
proof (induction env r c rule: repo_root.induct)
  case (1 env r c)
  show ?case
  proof (cases "c = dirname c")
    case True
    with "1.prems" show ?thesis by (subst repo_root.simps) simp
  next
    case False
    have "ancestor (if is_repo_top env c then c else r) p" using "1.prems" by simp
    from "1.IH" [OF False this ancestor.up [OF "1.prems"(2)]] False show ?thesis
      by (subst repo_root.simps) simp
  qed
qed



lemma svn_root_returns:
  "abs_plain u \<Longrightarrow> \<not> exists env ''/.svn'' \<Longrightarrow> \<exists>d. svn_root env r u = Some d"
proof (induction u arbitrary: r rule: measure_induct_rule [of length])
  case (less u)
  have root: "path_join ''/'' ''.svn'' = ''/.svn''" by code_simp
  show ?case
  proof (cases "u = ''/''")
    case True
    with less.prems(2) root show ?thesis by (subst svn_root.simps) simp
  next
    case False
    with abs_plain_dirname(2) [OF less.prems(1)] have "length (dirname u) < length u"
      by (simp add: dirname_shorter)
    from less.IH [OF this abs_plain_dirname(1) [OF less.prems(1)] less.prems(2)]
    show ?thesis by (subst svn_root.simps) auto
  qed
qed

lemma svn_root_diverges: "exists env ''/.svn'' \<Longrightarrow> svn_root env r ''/'' = None"
proof (rule ccontr)
  assume ex: "exists env ''/.svn''" and "svn_root env r ''/'' \<noteq> None"
  then obtain d where d: "svn_root env r ''/'' = Some d" by blast
  have root: "path_join ''/'' ''.svn'' = ''/.svn''" by code_simp
  have "\<not> (exists env ''/.svn'' \<and> ''/'' = ''/'')"
    by (rule svn_root.raw_induct [where P = "\<lambda>env r u d. \<not> (exists env ''/.svn'' \<and> u = ''/'')", OF _ d])
       (auto simp: root dirname_root split: if_splits, blast)
  with ex show False by simp
qed






section \<open>The alphabet of a header guard\<close>

definition guard_char :: "char \<Rightarrow> char" where
  "guard_char c = (if is_lower c \<or> is_upper c \<or> is_digit c then to_upper c else CHR ''_'')"

lemma guard_pattern:
  "rx ''[^a-zA-Z0-9]'' = Class True [Range CHR ''a'' CHR ''z'', Range CHR ''A'' CHR ''Z'',
     Range CHR ''0'' CHR ''9'']"
  by code_simp

lemma guard_map: "str_upper (ReplaceAll ''[^a-zA-Z0-9]'' ''_'' s) = map guard_char s"
proof -
  have c: "code CHR ''a'' = 97" "code CHR ''z'' = 122" "code CHR ''A'' = 65" "code CHR ''Z'' = 90"
    "code CHR ''0'' = 48" "code CHR ''9'' = 57" by code_simp+
  have u: "to_upper CHR ''_'' = CHR ''_''" by code_simp
  have "ReplaceAll ''[^a-zA-Z0-9]'' ''_'' s =
      concat (map (\<lambda>x. if \<not> (is_lower x \<or> is_upper x \<or> is_digit x) then ''_'' else [x]) s)"
    unfolding ReplaceAll_def re_sub_def guard_pattern sub_from_class start_cursor_def
    by (auto intro!: arg_cong [of _ _ concat] simp: class_has_def c is_lower_def is_upper_def is_digit_def)
  moreover have "str_upper (concat (map (\<lambda>x. if \<not> (is_lower x \<or> is_upper x \<or> is_digit x)
      then ''_'' else [x]) s)) = map guard_char s"
    by (induction s) (auto simp: str_upper_def guard_char_def u)
  ultimately show ?thesis by simp
qed

lemma guard_char_ok: "is_upper (guard_char c) \<or> is_digit (guard_char c) \<or> guard_char c = CHR ''_''"
proof -
  have "is_upper (to_upper c) \<or> is_digit (to_upper c)" if "is_lower c \<or> is_upper c \<or> is_digit c"
    using that by (auto simp: to_upper_def is_lower_def is_upper_def is_digit_def code_def)
  then show ?thesis by (auto simp: guard_char_def)
qed

section \<open>Absolute names are plain\<close>

lemma plain_path_Cons: "plain_path (c # s) \<longleftrightarrow> \<not> startswith (c # s) ''//'' \<and> plain_path s"
  by (auto simp: plain_path_def str_in_def str_find_Cons)

lemma plain_path_name: "CHR ''/'' \<notin> set w \<Longrightarrow> plain_path (w @ s) = plain_path s"
  by (induction w) (auto simp: plain_path_Cons startswith_def)

lemma plain_join:
  "\<forall>c \<in> set cs. c \<noteq> [] \<and> CHR ''/'' \<notin> set c \<Longrightarrow>
     plain_path (str_join ''/'' cs) \<and> \<not> startswith (str_join ''/'' cs) ''/''"
proof (induction cs)
  case Nil
  have "plain_path [] \<and> \<not> startswith [] ''/''" by code_simp
  then show ?case by simp
next
  case (Cons c cs)
  then obtain x w where c: "c = x # w" "x \<noteq> CHR ''/''" "CHR ''/'' \<notin> set c"
    by (cases c) auto
  show ?case
  proof (cases "cs = []")
    case True
    have "plain_path []" by code_simp
    with True c plain_path_name [OF c(3), of "[]"] show ?thesis by (simp add: startswith_def)
  next
    case False
    with Cons have "plain_path (CHR ''/'' # str_join ''/'' cs)"
      by (auto simp: plain_path_Cons startswith_def)
    with False c show ?thesis
      using plain_path_name [OF c(3), of "CHR ''/'' # str_join ''/'' cs"]
      by (simp add: str_join_Cons startswith_def)
  qed
qed

lemma norm_comps_set:
  "set (norm_comps rooted cs acc) \<subseteq> {c \<in> set cs. c \<noteq> []} \<union> set acc"
proof (induction rooted cs acc rule: norm_comps.induct)
  case (2 rooted c cs acc)
  show ?case
  proof (cases "c = [] \<or> c = ''.''")
    case True
    with "2.IH"(1) [OF True] show ?thesis by auto
  next
    case False
    then show ?thesis using "2.IH"(2,3) [OF False] by (cases acc) auto
  qed
qed simp

lemma normpath_plain:
  assumes "startswith p ''/''" and "\<not> startswith p ''//''"
  shows "abs_plain (normpath p)"
proof -
  let ?c = "norm_comps True (split_on CHR ''/'' p) []"
  have "\<forall>c \<in> set ?c. c \<noteq> [] \<and> CHR ''/'' \<notin> set c"
    using norm_comps_set [of True "split_on CHR ''/'' p" "[]"] split_on_no_sep by force
  then have "plain_path (CHR ''/'' # str_join ''/'' ?c)"
    using plain_join [of ?c] by (auto simp: plain_path_Cons startswith_def)
  moreover have "p \<noteq> []" using assms(1) by (auto simp: startswith_def)
  ultimately show ?thesis
    using assms by (simp add: normpath_def Let_def abs_plain_def startswith_def)
qed

lemma str_replace_absent: "b \<notin> set s \<Longrightarrow> str_replace s [b] t = s"
proof (induction s)
  case Nil
  show ?case by (simp add: str_replace.simps)
next
  case (Cons c s)
  then show ?case by (subst str_replace.simps) (auto simp: startswith_def)
qed

lemma FullName_plain:
  assumes "startswith (getcwd env) ''/''" and "\<not> startswith (getcwd env) ''//''"
    and "\<not> startswith f ''//''" and "backslash \<notin> set (abspath env f)"
  shows "abs_plain (FullName env f)"
proof -
  let ?p = "if startswith f ''/'' then f else path_join (getcwd env) f"
  obtain q where q: "getcwd env = CHR ''/'' # q" using assms(1) by (auto simp: startswith_iff)
  have "startswith ?p ''/''" using assms(1) by (auto simp: path_join_def startswith_iff)
  moreover have "\<not> startswith ?p ''//''"
    using assms(2,3) q by (cases q) (auto simp: path_join_def startswith_iff endswith_iff)
  ultimately have "abs_plain (abspath env f)" unfolding abspath_def by (rule normpath_plain)
  with assms(4) show ?thesis by (simp add: FullName_def str_replace_absent)
qed

section \<open>Directories as prefixes\<close>

lemma plain_path_suffix: "plain_path (p @ q) \<Longrightarrow> plain_path q"
  unfolding plain_path_iff by (metis append.assoc)

lemma RepositoryName_suffix: "RepositoryName env f = Some r \<Longrightarrow> \<exists>t. FullName env f = t @ r"
  by (auto simp: RepositoryName_def Let_def strip_root_def split: if_splits)
     (metis append_take_drop_id append_Nil)+

lemma to_list_tail_no_slash: "\<forall>t \<in> set (tl (PathSplitToList p)). CHR ''/'' \<notin> set t"
proof (induction p rule: measure_induct_rule [of length])
  case (less p)
  obtain h t where s: "path_split p = (h, t)" by fastforce
  then have t: "CHR ''/'' \<notin> set t" using split_tail_no_slash [of p] by (simp add: path_split_def Let_def)
  show ?case
  proof (cases "h = p \<or> t = p")
    case True
    then show ?thesis using posix.to_list_unfold [of p] s by auto
  next
    case False
    with s have "length h < length p" by (auto dest: path_split_shorter)
    from less [OF this] t False show ?thesis
      using posix.to_list_unfold [of p] s by (auto simp: posix.to_list_nonempty)
  qed
qed

lemma path_join_no_start:
  "\<not> startswith b ''/'' \<Longrightarrow> \<not> startswith a ''/'' \<Longrightarrow> \<not> startswith (path_join a b) ''/''"
  by (cases a) (auto simp: path_join_def startswith_def)

lemma endswith_slash: "endswith s ''/'' \<longleftrightarrow> s \<noteq> [] \<and> last s = CHR ''/''"
  by (cases s rule: rev_cases) (auto simp: endswith_iff)

lemma path_join_assoc:
  "\<not> startswith b ''/'' \<Longrightarrow> \<not> startswith c ''/'' \<Longrightarrow>
     path_join (path_join a b) c = path_join a (path_join b c)"
  using path_join_no_start [of c b] by (cases "b = []") (auto simp: path_join_def endswith_slash)

lemma no_slash_start: "CHR ''/'' \<notin> set x \<Longrightarrow> \<not> startswith x ''/''"
  by (auto simp: startswith_iff)

lemma foldl_path_join:
  "\<forall>x \<in> set (p # ps). CHR ''/'' \<notin> set x \<Longrightarrow>
     foldl path_join a (p # ps) = path_join a (foldl path_join p ps) \<and>
     \<not> startswith (foldl path_join p ps) ''/''"
proof (induction ps rule: rev_induct)
  case (snoc x ps)
  then show ?case
    using path_join_no_start [OF no_slash_start, of x "foldl path_join p ps"]
      path_join_assoc [OF _ no_slash_start, of "foldl path_join p ps" x a] by simp
qed (simp add: no_slash_start)

text \<open>A directory as the \<open>--root\<close> flag names it, and a path with it cut off the front.\<close>

definition root_dir_name :: "string \<Rightarrow> bool" where
  "root_dir_name r \<longleftrightarrow> r \<noteq> [] \<and> last r \<noteq> CHR ''/'' \<and> plain_path r"

definition strip_dir :: "string \<Rightarrow> string \<Rightarrow> string option" where
  "strip_dir r p = (if startswith p (r @ ''/'') then Some (drop (length r + 1) p) else None)"

lemma strip_dir_iff: "strip_dir r p = Some q \<longleftrightarrow> p = r @ CHR ''/'' # q"
  by (auto simp: strip_dir_def startswith_iff)

lemma path_split_dir:
  assumes "CHR ''/'' \<notin> set t" "d \<noteq> []" "last d \<noteq> CHR ''/''"
  shows "path_split (d @ CHR ''/'' # t) = (d, t)"
proof -
  let ?P = "\<lambda>c. c \<noteq> CHR ''/''"
  obtain d0 x where d: "d = d0 @ [x]" "x \<noteq> CHR ''/''" using assms(2,3) by (metis append_butlast_last_id)
  have r: "rev (d @ CHR ''/'' # t) = rev t @ CHR ''/'' # rev d" by simp
  have all: "\<forall>c \<in> set (rev t). ?P c" using assms(1) by auto
  have tail: "split_tail (d @ CHR ''/'' # t) = t"
    unfolding split_tail_def r using takeWhile_append2 [of "rev t" ?P "CHR ''/'' # rev d"] all by simp
  have head: "split_raw_head (d @ CHR ''/'' # t) = d @ ''/''"
    unfolding split_raw_head_def r using dropWhile_append2 [of "rev t" ?P "CHR ''/'' # rev d"] all by simp
  have "rstrip_slash (d @ ''/'') = d" using d by (simp add: rstrip_slash_def rstrip_by_def)
  then show ?thesis unfolding path_split_def head tail Let_def using d by simp
qed

lemma to_list_below:
  "plain_path (r @ CHR ''/'' # p) \<Longrightarrow> r \<noteq> [] \<Longrightarrow> last r \<noteq> CHR ''/'' \<Longrightarrow>
     PathSplitToList (r @ CHR ''/'' # p) = PathSplitToList r @ PathSplitToList p"
proof (induction p rule: measure_induct_rule [of length])
  case (less p)
  let ?f = "r @ CHR ''/'' # p"
  have pl: "plain_path p" using less.prems(1) plain_path_suffix [of "r @ ''/''" p] by simp
  have ns: "\<not> startswith p ''/''" using less.prems(1) by (auto simp: plain_path_iff startswith_iff)
  from pl show ?case
  proof (cases rule: path_split_cases)
    case name
    with path_split_dir [OF name(1) less.prems(2,3)] show ?thesis
      using posix.to_list_unfold [of ?f] posix.to_list_unfold [of p] by auto
  next
    case (root t)
    with ns show ?thesis by (simp add: startswith_def)
  next
    case (dir d t)
    have f: "?f = (r @ CHR ''/'' # d) @ CHR ''/'' # t" using dir(1) by simp
    have "plain_path (r @ CHR ''/'' # d)" using less.prems(1) unfolding f by (rule plain_path_prefix)
    with less.IH [of d] less.prems(2,3) dir(1)
    have IH: "PathSplitToList (r @ CHR ''/'' # d) = PathSplitToList r @ PathSplitToList d" by simp
    have "path_split ?f = (r @ CHR ''/'' # d, t)"
      unfolding f using dir(2-4) by (intro path_split_dir) auto
    then have "PathSplitToList ?f = PathSplitToList (r @ CHR ''/'' # d) @ [t]"
      using dir(1) posix.to_list_unfold [of ?f] by auto
    moreover have "PathSplitToList p = PathSplitToList d @ [t]"
      using dir(1,5) posix.to_list_unfold [of p] by auto
    ultimately show ?thesis using IH by simp
  qed
qed

lemma to_list_prefix:
  assumes "plain_path p" "root_dir_name r" "PathSplitToList p = PathSplitToList r @ q # qs"
  shows "p = r @ CHR ''/'' # path_join_list (q # qs)"
proof -
  let ?rs = "PathSplitToList r"
  have ne: "?rs \<noteq> []" by (rule posix.to_list_nonempty)
  have "set (q # qs) \<subseteq> set (tl (PathSplitToList p))" using assms(3) ne by auto
  with to_list_tail_no_slash [of p] have ns: "\<forall>x \<in> set (q # qs). CHR ''/'' \<notin> set x" by blast
  have "p = foldl path_join (hd ?rs) (tl ?rs @ q # qs)"
    using posix.to_list_join [OF assms(1)] assms(3) ne by simp
  also have "\<dots> = foldl path_join r (q # qs)"
    using posix.to_list_join [of r] assms(2) by (simp add: root_dir_name_def)
  also have "\<dots> = path_join r (path_join_list (q # qs))"
    using foldl_path_join [OF ns, of r] by (simp add: path_join_list_def)
  also have "\<dots> = r @ CHR ''/'' # path_join_list (q # qs)"
    using foldl_path_join [OF ns, of r] assms(2)
    by (auto simp: path_join_def path_join_list_def root_dir_name_def endswith_iff)
  finally show ?thesis .
qed

text \<open>Comparing the lists of components is cutting off the directory.\<close>

lemma strip_list_dir:
  assumes "plain_path p" "root_dir_name r"
  shows "case StripListPrefix (PathSplitToList p) (PathSplitToList r) of
      Some (q # qs) \<Rightarrow> strip_dir r p = Some (path_join_list (q # qs))
    | _ \<Rightarrow> strip_dir r p = None"
proof (cases "strip_dir r p")
  case None
  have False if "StripListPrefix (PathSplitToList p) (PathSplitToList r) = Some (q # qs)" for q qs
  proof -
    from that have "PathSplitToList p = PathSplitToList r @ q # qs"
      by (auto simp: StripListPrefix_def split: if_splits) (metis append_take_drop_id)
    from to_list_prefix [OF assms this] None strip_dir_iff show False by (metis option.distinct(1))
  qed
  with None show ?thesis by (auto split: option.split list.split)
next
  case (Some p')
  then have p: "p = r @ CHR ''/'' # p'" by (simp add: strip_dir_iff)
  from to_list_below assms p have l: "PathSplitToList p = PathSplitToList r @ PathSplitToList p'"
    by (simp add: root_dir_name_def)
  obtain q qs where q: "PathSplitToList p' = q # qs" using posix.to_list_nonempty [of p'] by (cases "PathSplitToList p'") auto
  have "plain_path p'" using assms(1) plain_path_suffix [of "r @ ''/''" p'] p by simp
  with posix.to_list_join q have "path_join_list (q # qs) = p'" by (force simp: path_join_list_def)
  with Some l q show ?thesis by (simp add: StripListPrefix_def)
qed

text \<open>
  The path that a guard is made from: the name in the repository, with the directory of the
  \<open>--root\<close> flag cut off; or the part of the full name below that directory.
\<close>

definition guard_path :: "os_env \<Rightarrow> string option \<Rightarrow> string \<Rightarrow> string \<Rightarrow> string" where
  "guard_path env root full name =
     (case root of
        None \<Rightarrow> name
      | Some r \<Rightarrow>
          if r = [] then name
          else case strip_dir r name of Some p \<Rightarrow> p
            | None \<Rightarrow> (case strip_dir (abspath env r) full of Some p \<Rightarrow> p | None \<Rightarrow> name))"

lemma debug_message_off [simp]: "debug_message False fmt args = Inr ()"
  by (simp add: debug_message_def)

lemma FixupPathFromRoot_path:
  assumes "plain_path name" "plain_path (FullName env filename)"
    and "\<And>r. root = Some r \<Longrightarrow> r \<noteq> [] \<Longrightarrow> root_dir_name r \<and> root_dir_name (abspath env r)"
  shows "FixupPathFromRoot env root False filename name =
    Inr (guard_path env root (FullName env filename) name)"
proof (cases "root = None \<or> root = Some []")
  case True
  then show ?thesis by (auto simp: FixupPathFromRoot_def guard_path_def)
next
  case False
  then obtain r where r: "root = Some r" "r \<noteq> []" by auto
  with assms(3) have d: "root_dir_name r" "root_dir_name (abspath env r)" by auto
  from strip_list_dir [OF assms(1) d(1)] strip_list_dir [OF assms(2) d(2)] r show ?thesis
    by (auto simp: FixupPathFromRoot_def guard_path_def Let_def split: option.splits list.splits)
qed

section \<open>Properties\<close>

text \<open>
  C26: splitting a path into its list of components and joining them again with
  \<open>os.path.join\<close> gives the path back, for every path that contains no \<open>//\<close> (\<open>plain_path\<close>). So the
  list of \<open>/a/b/c/\<close> is \<open>/\<close>, \<open>a\<close>, \<open>b\<close>, \<open>c\<close> and an empty component, not the \<open>a\<close>, \<open>b\<close>, \<open>c\<close> of the
  docstring, which would not join to the path.
\<close>

theorem path_split_roundtrip:
  assumes "plain_path p"
  shows "path_join_list (PathSplitToList p) = p"
  using posix.to_list_join [OF assms] posix.to_list_nonempty [of p]
  by (cases "PathSplitToList p") (simp_all add: path_join_list_def)

theorem path_split_roundtrip_witness:
  "plain_path ''/home/me/src/a.h'' \<and>
   path_join_list (PathSplitToList ''/home/me/src/a.h'') = ''/home/me/src/a.h''"
proof -
  have "plain_path ''/home/me/src/a.h''" by code_simp
  then show ?thesis using path_split_roundtrip by blast
qed

text \<open>
  C25: the search for the repository root ends: unless the root of the file system itself
  holds a Subversion directory, \<open>RepositoryName\<close> returns.
\<close>

theorem repository_name_returns:
  assumes "abs_plain (FullName env f)" and "\<not> exists env ''/.svn''"
  shows "\<exists>r. RepositoryName env f = Some r"
proof -
  let ?p = "dirname (FullName env f)"
  from assms(1) have "abs_plain (dirname ?p)" by (intro abs_plain_dirname(1))
  from svn_root_returns [OF this assms(2), of ?p] show ?thesis
    by (auto simp: RepositoryName_def Let_def)
qed

theorem repository_name_returns_witness:
  "\<exists>r. RepositoryName \<lparr>getcwd = ''/w'', exists = (\<lambda>p. p \<in> {''/w/s/a.h'', ''/w/s/.svn'', ''/w/.svn''})\<rparr>
     ''s/a.h'' = Some r"
  by (rule repository_name_returns) (code_simp, code_simp)



text \<open>
  C34: the repository name of an existing file directly in \<open>/\<close>. When \<open>/.svn\<close> exists, the
  search for the top of the Subversion checkout never ends, for this file as for any other
  from which the search reaches the root. Otherwise, when \<open>/.git\<close> or \<open>/.hg\<close> exists, the
  repository name is the name of the file without its first character, because the code cuts
  off the length of the root directory and one more character for a slash that the root
  already is. Otherwise it is the full name.
\<close>

theorem repository_at_root:
  assumes "FullName env f = CHR ''/'' # base" "CHR ''/'' \<notin> set base" "exists env (FullName env f)"
  shows "if exists env ''/.svn'' then RepositoryName env f = None \<and> (\<forall>d. svn_root env d ''/'' = None)
    else if exists env ''/.git'' \<or> exists env ''/.hg'' then RepositoryName env f = Some (tl base)
    else RepositoryName env f = Some (CHR ''/'' # base)"
proof -
  note h = assms
  have "\<forall>c \<in> set (rev base). c \<noteq> CHR ''/''" using h(2) by auto
  with dropWhile_append2 [of "rev base" "\<lambda>c. c \<noteq> CHR ''/''" "''/''"]
  have "split_raw_head (CHR ''/'' # base) = ''/''" by (simp add: split_raw_head_def)
  then have d: "dirname (CHR ''/'' # base) = ''/''" by (simp add: dirname_def path_split_def Let_def)
  have j: "path_join ''/'' ''.git'' = ''/.git''" "path_join ''/'' ''.hg'' = ''/.hg''"
    "path_join ''/'' ''.svn'' = ''/.svn''" by code_simp+
  have "repo_root env ''/'' ''/'' = ''/''" by (subst repo_root.simps) (simp add: dirname_root)
  then show ?thesis
    using h(3) svn_root_diverges [of env] unfolding RepositoryName_def Let_def h(1) d dirname_root
    by (simp add: j is_repo_top_def strip_root_def drop_Suc)
qed

theorem repository_at_root_witness:
  "RepositoryName \<lparr>getcwd = ''/'', exists = (\<lambda>p. p \<in> {''/foo.h'', ''/.svn''})\<rparr> ''foo.h'' = None \<and>
   RepositoryName \<lparr>getcwd = ''/'', exists = (\<lambda>p. p \<in> {''/foo.h'', ''/.git''})\<rparr> ''foo.h'' = Some ''oo.h''"
proof -
  let ?env = "\<lparr>getcwd = ''/'', exists = (\<lambda>p. p \<in> {''/foo.h'', ''/.git''})\<rparr>"
  let ?svn = "\<lparr>getcwd = ''/'', exists = (\<lambda>p. p \<in> {''/foo.h'', ''/.svn''})\<rparr>"
  have f: "FullName ?env ''foo.h'' = ''/foo.h''" "FullName ?svn ''foo.h'' = ''/foo.h''" by code_simp+
  show ?thesis
    using repository_at_root [OF f(1)] repository_at_root [OF f(2)] f by simp
qed

text \<open>
  C27: which guard is asked for. Take a file whose full name, after flymake's and the
  \<open>c++\<close> names have been undone, is absolute without empty components, with the debug flag
  off, and a \<open>--root\<close> flag, if any, that names a directory without empty components, not
  \<open>/\<close> and without a slash at its end, written plainly and as an absolute path. Then the guard
  is the path \<open>guard_path\<close> (the name in the repository, with the directory of \<open>--root\<close> cut
  off; or the part of the full name below that directory; or else the name in the repository)
  with every letter capitalised, digits kept, every other character turned into an underscore,
  and one more underscore; so it is made of capitals, digits and underscores.
\<close>

theorem header_guard_path:
  assumes "RepositoryName env (guard_filename filename) = Some name"
    and "abs_plain (FullName env (guard_filename filename))"
    and "\<And>r. root = Some r \<Longrightarrow> r \<noteq> [] \<Longrightarrow> root_dir_name r \<and> root_dir_name (abspath env r)"
  shows "\<exists>guard. GetHeaderGuardCPPVariable env root False filename = Some (Inr guard) \<and>
    guard = map guard_char (guard_path env root (FullName env (guard_filename filename)) name) @ ''_'' \<and>
    (\<forall>c \<in> set guard. is_upper c \<or> is_digit c \<or> c = CHR ''_'')"
proof -
  let ?full = "FullName env (guard_filename filename)"
  have full: "plain_path ?full" using assms(2) by (simp add: abs_plain_def)
  with RepositoryName_suffix [OF assms(1)] plain_path_suffix have "plain_path name" by metis
  from FixupPathFromRoot_path [OF this full assms(3)]
  have "GetHeaderGuardCPPVariable env root False filename =
      Some (Inr (map guard_char (guard_path env root ?full name) @ ''_''))"
    using assms(1) by (simp add: GetHeaderGuardCPPVariable_def guard_map)
  then show ?thesis using guard_char_ok by auto
qed

text \<open>The witness: \<open>--root=src\<close> for \<open>/w/src/foo-bar.h\<close> in a repository \<open>/w\<close>.\<close>

theorem header_guard_path_witness:
  "GetHeaderGuardCPPVariable \<lparr>getcwd = ''/w'', exists = (\<lambda>p. p \<in> {''/w/src/foo-bar.h'', ''/w/.git''})\<rparr>
     (Some ''src'') False ''src/foo-bar.h'' = Some (Inr ''FOO_BAR_H_'')"
proof -
  let ?env = "\<lparr>getcwd = ''/w'', exists = (\<lambda>p. p \<in> {''/w/src/foo-bar.h'', ''/w/.git''})\<rparr>"
  have h: "RepositoryName ?env (guard_filename ''src/foo-bar.h'') = Some ''src/foo-bar.h''"
    "abs_plain (FullName ?env (guard_filename ''src/foo-bar.h''))" by code_simp+
  have r: "root_dir_name ''src''" "root_dir_name (abspath ?env ''src'')" by code_simp+
  have g: "map guard_char (guard_path ?env (Some ''src'') (FullName ?env (guard_filename ''src/foo-bar.h''))
      ''src/foo-bar.h'') @ ''_'' = ''FOO_BAR_H_''" by code_simp
  from header_guard_path [OF h, of "Some ''src''"] r g show ?thesis by auto
qed

text \<open>
  C35: with \<open>_root_debug\<close> switched on, any \<open>--root\<close> flag makes the computation of the guard
  raise \<open>TypeError\<close>: the message about \<open>maybe_path\<close> is split over two literals joined by
  \<open>+\<close>, and \<open>%\<close> formats the second one, which has one directive, with all three arguments.
  Without a flag the debug messages format and the guard is returned.
\<close>

theorem root_debug_raises:
  assumes "RepositoryName env (guard_filename filename) = Some name"
  shows "if root = None \<or> root = Some []
    then \<exists>guard. GetHeaderGuardCPPVariable env root True filename = Some (Inr guard)
    else GetHeaderGuardCPPVariable env root True filename = Some (Inl TypeError)"
  using assms
  by (cases root) (simp_all add: GetHeaderGuardCPPVariable_def FixupPathFromRoot_def debug_message_def Let_def)

theorem root_debug_raises_witness:
  "GetHeaderGuardCPPVariable \<lparr>getcwd = ''/w'', exists = (\<lambda>p. p \<in> {''/w/a.h'', ''/w/.git''})\<rparr>
     (Some ''src'') True ''a.h'' = Some (Inl TypeError)"
proof -
  let ?env = "\<lparr>getcwd = ''/w'', exists = (\<lambda>p. p \<in> {''/w/a.h'', ''/w/.git''})\<rparr>"
  have "RepositoryName ?env (guard_filename ''a.h'') = Some ''a.h''" by code_simp
  from root_debug_raises [OF this, of "Some ''src''"] show ?thesis by simp
qed

end
