(* ===== verification/Include_State.thy ===== *)
theory Include_State
  imports Regex_Semantics
begin

text \<open>
  Class \<open>_IncludeState\<close>: the headers seen so far, grouped by preprocessor branch, and the
  section that the include order has reached.
\<close>

section \<open>Constants\<close>

datatype header_type =
    C_SYS_HEADER
  | CPP_SYS_HEADER
  | LIKELY_MY_HEADER
  | POSSIBLE_MY_HEADER
  | OTHER_HEADER

definition INITIAL_SECTION :: nat where "INITIAL_SECTION = 0"

definition MY_H_SECTION :: nat where "MY_H_SECTION = 1"

definition C_SECTION :: nat where "C_SECTION = 2"

definition CPP_SECTION :: nat where "CPP_SECTION = 3"

definition OTHER_H_SECTION :: nat where "OTHER_H_SECTION = 4"

lemmas section_defs = INITIAL_SECTION_def MY_H_SECTION_def C_SECTION_def CPP_SECTION_def
  OTHER_H_SECTION_def

fun TYPE_NAMES :: "header_type \<Rightarrow> string" where
  "TYPE_NAMES C_SYS_HEADER = ''C system header''"
| "TYPE_NAMES CPP_SYS_HEADER = ''C++ system header''"
| "TYPE_NAMES LIKELY_MY_HEADER = ''header this file implements''"
| "TYPE_NAMES POSSIBLE_MY_HEADER = ''header this file may implement''"
| "TYPE_NAMES OTHER_HEADER = ''other header''"

text \<open>The dictionary \<open>_SECTION_NAMES\<close>, with the five sections as its keys.\<close>

definition SECTION_NAMES :: "(nat \<times> string) list" where
  "SECTION_NAMES =
     [(INITIAL_SECTION, ''... nothing. (This can'' @ [CHR 0x27] @ ''t be an error.)''),
      (MY_H_SECTION, ''a header this file implements''),
      (C_SECTION, ''C system header''),
      (CPP_SECTION, ''C++ system header''),
      (OTHER_H_SECTION, ''other header'')]"

section \<open>State and operations\<close>

record include_state =
  include_list :: "(string \<times> int) list list"
  inc_section :: nat
  last_header :: string

definition ResetSection :: "string \<Rightarrow> include_state \<Rightarrow> include_state res" where
  "ResetSection directive st =
     (let st1 = st\<lparr>inc_section := INITIAL_SECTION, last_header := []\<rparr>
      in if directive \<in> {''if'', ''ifdef'', ''ifndef''}
         then Inr (st1\<lparr>include_list := include_list st1 @ [[]]\<rparr>)
         else if directive \<in> {''else'', ''elif''}
         then (if include_list st1 = [] then Inl IndexError
               else Inr (st1\<lparr>include_list := (include_list st1)
                      [length (include_list st1) - 1 := []]\<rparr>))
         else Inr st1)"

text \<open>The constructor: \<open>include_list = [[]]\<close>, then \<open>ResetSection('')\<close>.\<close>

definition IncludeState_init :: include_state where
  "IncludeState_init = \<lparr>include_list = [[]], inc_section = INITIAL_SECTION, last_header = []\<rparr>"

text \<open>\<open>CheckIncludeLine\<close> records a header with \<open>include_state.include_list[-1].append(...)\<close>.\<close>

definition append_include :: "string \<Rightarrow> int \<Rightarrow> include_state \<Rightarrow> include_state res" where
  "append_include header linenum st =
     (if include_list st = [] then Inl IndexError
      else Inr (st\<lparr>include_list := butlast (include_list st) @
             [last (include_list st) @ [(header, linenum)]]\<rparr>))"

definition FindHeader :: "string \<Rightarrow> include_state \<Rightarrow> int" where
  "FindHeader header st =
     (case find (\<lambda>f. fst f = header) (concat (include_list st)) of
        None \<Rightarrow> -1
      | Some f \<Rightarrow> snd f)"

definition SetLastHeader :: "string \<Rightarrow> include_state \<Rightarrow> include_state" where
  "SetLastHeader header_path st = st\<lparr>last_header := header_path\<rparr>"

definition CanonicalizeAlphabeticalOrder :: "string \<Rightarrow> string" where
  "CanonicalizeAlphabeticalOrder header_path =
     str_lower (str_replace (str_replace header_path ''-inl.h'' ''.h'') ''-'' ''_'')"

definition IsInAlphabeticalOrder ::
  "include_state \<Rightarrow> string list \<Rightarrow> int \<Rightarrow> string \<Rightarrow> bool res" where
  "IsInAlphabeticalOrder st elided linenum header_path =
     (if str_less header_path (last_header st) then
        bind_res (py_nth elided (linenum - 1))
          (\<lambda>line. Inr (Match (raw ''^`s*#`s*include`b'') line = None))
      else Inr True)"

text \<open>
  The message is formatted before the type is looked at, so a section that is not a key of
  \<open>_SECTION_NAMES\<close> raises \<open>KeyError\<close> even when no message is returned.
\<close>

definition CheckNextIncludeOrder :: "header_type \<Rightarrow> include_state \<Rightarrow> (string \<times> include_state) res" where
  "CheckNextIncludeOrder header_type st =
     (case map_of SECTION_NAMES (inc_section st) of
        None \<Rightarrow> Inl KeyError
      | Some section_name \<Rightarrow>
     (let error_message = ''Found '' @ TYPE_NAMES header_type @ '' after '' @ section_name;
          last_section = inc_section st;
          finish = (\<lambda>s. ([], (if last_section \<noteq> s then st\<lparr>inc_section := s, last_header := []\<rparr>
                             else st\<lparr>inc_section := s\<rparr>)));
          fail = (error_message, st\<lparr>last_header := []\<rparr>)
      in Inr (case header_type of
           C_SYS_HEADER \<Rightarrow> if inc_section st \<le> C_SECTION then finish C_SECTION else fail
         | CPP_SYS_HEADER \<Rightarrow> if inc_section st \<le> CPP_SECTION then finish CPP_SECTION else fail
         | LIKELY_MY_HEADER \<Rightarrow>
             if inc_section st \<le> MY_H_SECTION then finish MY_H_SECTION else finish OTHER_H_SECTION
         | POSSIBLE_MY_HEADER \<Rightarrow>
             if inc_section st \<le> MY_H_SECTION then finish MY_H_SECTION else finish OTHER_H_SECTION
         | OTHER_HEADER \<Rightarrow> finish OTHER_H_SECTION)))"

section \<open>Invariant\<close>

definition include_wf :: "include_state \<Rightarrow> bool" where
  "include_wf st \<longleftrightarrow> include_list st \<noteq> [] \<and> inc_section st \<le> OTHER_H_SECTION"

lemma include_wf_init: "include_wf IncludeState_init"
  by (simp add: include_wf_def IncludeState_init_def section_defs)

lemma ResetSection_wf:
  "include_wf st \<Longrightarrow> \<exists>st'. ResetSection d st = Inr st' \<and> include_wf st' \<and>
     inc_section st' = INITIAL_SECTION \<and> last_header st' = []"
  by (simp add: ResetSection_def Let_def include_wf_def section_defs)

lemma append_include_wf:
  "include_wf st \<Longrightarrow> \<exists>st'. append_include h l st = Inr st' \<and> include_wf st'"
  by (simp add: append_include_def include_wf_def)

lemma section_name_iff: "map_of SECTION_NAMES s \<noteq> None \<longleftrightarrow> s \<le> OTHER_H_SECTION"
  by (auto simp: SECTION_NAMES_def section_defs)

text \<open>The section a header leads to, and whether it may come in a section.\<close>

fun may_follow :: "nat \<Rightarrow> header_type \<Rightarrow> bool" where
  "may_follow s C_SYS_HEADER = (s \<le> 2)"
| "may_follow s CPP_SYS_HEADER = (s \<le> 3)"
| "may_follow s _ = True"

fun next_section :: "nat \<Rightarrow> header_type \<Rightarrow> nat" where
  "next_section s C_SYS_HEADER = (if s \<le> 2 then 2 else s)"
| "next_section s CPP_SYS_HEADER = (if s \<le> 3 then 3 else s)"
| "next_section s OTHER_HEADER = 4"
| "next_section s _ = (if s \<le> 1 then 1 else 4)"

lemma next_section_le: "s \<le> 4 \<Longrightarrow> next_section s h \<le> 4"
  by (cases h) auto

lemma CheckNext_ok:
  assumes "inc_section st \<le> OTHER_H_SECTION"
  shows "\<exists>msg st'. CheckNextIncludeOrder h st = Inr (msg, st') \<and> include_list st' = include_list st \<and>
    (msg = [] \<longleftrightarrow> may_follow (inc_section st) h) \<and> inc_section st' = next_section (inc_section st) h"
proof -
  from assms section_name_iff obtain nm where "map_of SECTION_NAMES (inc_section st) = Some nm" by blast
  then show ?thesis
    by (cases h) (auto simp: CheckNextIncludeOrder_def Let_def section_defs)
qed

lemma CheckNext_wf:
  "include_wf st \<Longrightarrow> \<exists>msg st'. CheckNextIncludeOrder h st = Inr (msg, st') \<and> include_wf st' \<and>
     include_list st' = include_list st"
  using CheckNext_ok [of st h] next_section_le [of "inc_section st" h]
  by (auto simp: include_wf_def section_defs)

section \<open>The include order\<close>

text \<open>
  The messages of a sequence of headers, and the order that the code accepts: headers the
  file implements, C system headers, C++ system headers, then everything else, in which a
  header that looks like the file's own may appear again.
\<close>

fun order_messages :: "header_type list \<Rightarrow> include_state \<Rightarrow> string list res" where
  "order_messages [] st = Inr []"
| "order_messages (h # hs) st =
     bind_res (CheckNextIncludeOrder h st) (\<lambda>(msg, st').
       bind_res (order_messages hs st') (\<lambda>msgs. Inr (msg # msgs)))"

definition my_header :: "header_type set" where
  "my_header = {LIKELY_MY_HEADER, POSSIBLE_MY_HEADER}"

definition accepted_order :: "header_type list \<Rightarrow> bool" where
  "accepted_order hs \<longleftrightarrow> (\<exists>mine c cpp others. hs = mine @ c @ cpp @ others \<and>
     set mine \<subseteq> my_header \<and> set c \<subseteq> {C_SYS_HEADER} \<and> set cpp \<subseteq> {CPP_SYS_HEADER} \<and>
     set others \<subseteq> insert OTHER_HEADER my_header)"

text \<open>
  The order that the comment in \<open>CheckIncludeLine\<close> describes, where a type lower than the
  highest one seen is complained about: headers the file implements, C and C++ system headers,
  headers the file implements in their deprecated place, other headers.
\<close>

definition documented_order :: "header_type list \<Rightarrow> bool" where
  "documented_order hs \<longleftrightarrow> (\<exists>mine c cpp late others. hs = mine @ c @ cpp @ late @ others \<and>
     set mine \<subseteq> my_header \<and> set c \<subseteq> {C_SYS_HEADER} \<and> set cpp \<subseteq> {CPP_SYS_HEADER} \<and>
     set late \<subseteq> my_header \<and> set others \<subseteq> {OTHER_HEADER})"

fun in_order :: "nat \<Rightarrow> header_type list \<Rightarrow> bool" where
  "in_order s [] = True"
| "in_order s (h # hs) = (may_follow s h \<and> in_order (next_section s h) hs)"

lemma order_messages_in_order:
  "inc_section st \<le> OTHER_H_SECTION \<Longrightarrow> \<exists>msgs. order_messages hs st = Inr msgs \<and>
     length msgs = length hs \<and> ((\<forall>m \<in> set msgs. m = []) \<longleftrightarrow> in_order (inc_section st) hs)"
proof (induction hs arbitrary: st)
  case (Cons h hs)
  from CheckNext_ok [OF Cons.prems, of h] obtain msg st' where
    c: "CheckNextIncludeOrder h st = Inr (msg, st')" "msg = [] \<longleftrightarrow> may_follow (inc_section st) h"
      "inc_section st' = next_section (inc_section st) h" by blast
  from c(3) next_section_le [of "inc_section st" h] Cons.prems have "inc_section st' \<le> OTHER_H_SECTION"
    by (simp add: section_defs)
  from Cons.IH [OF this] obtain msgs where "order_messages hs st' = Inr msgs" "length msgs = length hs"
    "(\<forall>m \<in> set msgs. m = []) \<longleftrightarrow> in_order (inc_section st') hs" by blast
  with c show ?case by simp
qed simp

lemma in_order_4: "in_order 4 hs \<longleftrightarrow> set hs \<subseteq> insert OTHER_HEADER my_header"
proof (induction hs)
  case (Cons h hs)
  then show ?case by (cases h) (auto simp: my_header_def)
qed simp

text \<open>Splitting off a block of headers of one kind.\<close>

definition block_then :: "'a set \<Rightarrow> ('a list \<Rightarrow> bool) \<Rightarrow> 'a list \<Rightarrow> bool" where
  "block_then S Q xs \<longleftrightarrow> (\<exists>a b. xs = a @ b \<and> set a \<subseteq> S \<and> Q b)"

lemma block_then_Nil: "block_then S Q [] = Q []"
  by (simp add: block_then_def)

lemma block_then_Cons: "block_then S Q (x # xs) \<longleftrightarrow> Q (x # xs) \<or> x \<in> S \<and> block_then S Q xs"
proof
  assume "block_then S Q (x # xs)"
  then obtain a b where "x # xs = a @ b" "set a \<subseteq> S" "Q b" by (auto simp: block_then_def)
  then show "Q (x # xs) \<or> x \<in> S \<and> block_then S Q xs"
    by (cases a) (auto simp: block_then_def)
next
  assume "Q (x # xs) \<or> x \<in> S \<and> block_then S Q xs"
  then show "block_then S Q (x # xs)"
  proof
    assume "Q (x # xs)"
    then show ?thesis unfolding block_then_def by force
  next
    assume "x \<in> S \<and> block_then S Q xs"
    then obtain a b where "xs = a @ b" "set (x # a) \<subseteq> S" "Q b" by (auto simp: block_then_def)
    then show ?thesis unfolding block_then_def by (metis append_Cons)
  qed
qed

lemmas block_then_simps = block_then_Nil block_then_Cons

lemma in_order_3: "in_order 3 hs \<longleftrightarrow> block_then {CPP_SYS_HEADER} (in_order 4) hs"
proof (induction hs)
  case (Cons h hs)
  then show ?case by (cases h) (auto simp: block_then_simps)
qed (simp add: block_then_simps)

lemma in_order_2: "in_order 2 hs \<longleftrightarrow> block_then {C_SYS_HEADER} (in_order 3) hs"
proof (induction hs)
  case (Cons h hs)
  then show ?case by (cases h) (auto simp: block_then_simps)
qed (simp add: block_then_simps)

lemma block_then_my: "in_order 4 hs \<Longrightarrow> block_then my_header (in_order 2) hs"
proof (cases hs)
  case (Cons h t)
  assume "in_order 4 hs"
  with Cons have "in_order 2 hs" by (cases h) auto
  with Cons show ?thesis by (simp only: block_then_simps) simp
qed (simp add: block_then_simps)

lemma in_order_1: "s \<le> 1 \<Longrightarrow> in_order s hs \<longleftrightarrow> block_then my_header (in_order 2) hs"
proof (induction hs arbitrary: s)
  case (Cons h hs)
  show ?case
    using Cons.IH [of 1] Cons.prems block_then_my [of hs]
    by (cases h) (auto simp: block_then_simps my_header_def)
qed (simp add: block_then_simps)

lemma in_order_style: "s \<le> 1 \<Longrightarrow> in_order s hs \<longleftrightarrow> accepted_order hs"
  unfolding accepted_order_def in_order_1
  unfolding block_then_def in_order_2 unfolding block_then_def in_order_3
  unfolding block_then_def in_order_4 by blast

lemma documented_accepted: "documented_order hs \<Longrightarrow> accepted_order hs"
proof -
  assume "documented_order hs"
  then obtain mine c cpp late others where h: "hs = mine @ c @ cpp @ late @ others"
    "set mine \<subseteq> my_header" "set c \<subseteq> {C_SYS_HEADER}" "set cpp \<subseteq> {CPP_SYS_HEADER}"
    "set late \<subseteq> my_header" "set others \<subseteq> {OTHER_HEADER}" unfolding documented_order_def by blast
  then have "set (late @ others) \<subseteq> insert OTHER_HEADER my_header" by auto
  with h(1-4) show ?thesis unfolding accepted_order_def by blast
qed

text \<open>
  C13: the order that \<open>CheckNextIncludeOrder\<close> accepts. From a new state a sequence of headers
  never raises, gets one result per header, and every result is the empty message exactly
  when the sequence consists of headers the file implements, then C system headers, then C++
  system headers, then other headers among which the file's own may appear again. This is
  wider than the documented order (own, C, C++, own in the deprecated place, other): a sequence
  that follows the documentation gets no message, but an own header after an other header, a
  lower type that the comment in \<open>CheckIncludeLine\<close> says is complained about, gets none either.
\<close>

theorem include_order_accepted:
  "\<exists>msgs. order_messages hs IncludeState_init = Inr msgs \<and> length msgs = length hs \<and>
     ((\<forall>m \<in> set msgs. m = []) \<longleftrightarrow> accepted_order hs) \<and>
     (documented_order hs \<longrightarrow> (\<forall>m \<in> set msgs. m = [])) \<and>
     order_messages [OTHER_HEADER, LIKELY_MY_HEADER] IncludeState_init = Inr [[], []] \<and>
     \<not> documented_order [OTHER_HEADER, LIKELY_MY_HEADER]"
proof -
  have "inc_section IncludeState_init \<le> 1" "inc_section IncludeState_init \<le> OTHER_H_SECTION"
    by (simp_all add: IncludeState_init_def section_defs)
  with order_messages_in_order in_order_style obtain msgs where
    m: "order_messages hs IncludeState_init = Inr msgs" "length msgs = length hs"
      "(\<forall>m \<in> set msgs. m = []) \<longleftrightarrow> accepted_order hs" by blast
  have "order_messages [OTHER_HEADER, LIKELY_MY_HEADER] IncludeState_init = Inr [[], []]" by code_simp
  moreover have "\<not> documented_order [OTHER_HEADER, LIKELY_MY_HEADER]"
    by (simp add: documented_order_def my_header_def Cons_eq_append_conv) auto
  ultimately show ?thesis using m documented_accepted by blast
qed

theorem include_order_accepted_witness:
  "documented_order [LIKELY_MY_HEADER, C_SYS_HEADER, CPP_SYS_HEADER, OTHER_HEADER] \<and>
   (\<exists>msgs. order_messages [LIKELY_MY_HEADER, C_SYS_HEADER, CPP_SYS_HEADER, OTHER_HEADER]
      IncludeState_init = Inr msgs \<and> (\<forall>m \<in> set msgs. m = []))"
proof -
  have "documented_order [LIKELY_MY_HEADER, C_SYS_HEADER, CPP_SYS_HEADER, OTHER_HEADER]"
    unfolding documented_order_def
    by (intro exI [of _ "[LIKELY_MY_HEADER]"] exI [of _ "[C_SYS_HEADER]"] exI [of _ "[CPP_SYS_HEADER]"]
      exI [of _ "[]"] exI [of _ "[OTHER_HEADER]"]) (simp add: my_header_def)
  then show ?thesis
    using include_order_accepted [of "[LIKELY_MY_HEADER, C_SYS_HEADER, CPP_SYS_HEADER, OTHER_HEADER]"]
    by blast
qed

section \<open>Sequences of operations\<close>

text \<open>
  The operations that the checks apply to the include state, as data; \<open>OpAlpha\<close> is
  \<open>IsInAlphabeticalOrder\<close>, which reads the line before a line of the file.
\<close>

datatype include_op =
    OpReset string
  | OpInclude string int
  | OpNext header_type
  | OpAlpha "string list" int string
  | OpLast string

fun run_op :: "include_op \<Rightarrow> include_state \<Rightarrow> include_state res" where
  "run_op (OpReset directive) st = ResetSection directive st"
| "run_op (OpInclude header linenum) st = append_include header linenum st"
| "run_op (OpNext header_type) st = bind_res (CheckNextIncludeOrder header_type st) (\<lambda>(msg, st'). Inr st')"
| "run_op (OpAlpha elided linenum header_path) st =
     bind_res (IsInAlphabeticalOrder st elided linenum header_path) (\<lambda>b. Inr st)"
| "run_op (OpLast header_path) st = Inr (SetLastHeader header_path st)"

text \<open>The line number of an \<open>OpAlpha\<close> is one of the file.\<close>

fun op_in_file :: "include_op \<Rightarrow> bool" where
  "op_in_file (OpAlpha elided linenum header_path) = (0 \<le> linenum \<and> linenum < int (length elided))"
| "op_in_file _ = True"

lemma IsInAlphabeticalOrder_in_file:
  "0 \<le> linenum \<Longrightarrow> linenum < int (length elided) \<Longrightarrow>
     \<exists>b. IsInAlphabeticalOrder st elided linenum h = Inr b"
  by (auto simp: IsInAlphabeticalOrder_def py_nth_def Let_def)

lemma run_op_wf: "include_wf st \<Longrightarrow> op_in_file op \<Longrightarrow> \<exists>st'. run_op op st = Inr st' \<and> include_wf st'"
proof (cases op)
  case (OpNext h)
  assume "include_wf st"
  from CheckNext_wf [OF this, of h] OpNext show ?thesis by auto
next
  case (OpAlpha elided linenum h)
  assume "include_wf st" "op_in_file op"
  with OpAlpha IsInAlphabeticalOrder_in_file [of linenum elided st h] show ?thesis by auto
next
  case (OpReset d)
  assume "include_wf st"
  from ResetSection_wf [OF this, of d] OpReset show ?thesis by auto
qed (auto simp: SetLastHeader_def include_wf_def append_include_def)

text \<open>
  C29: the operations of \<open>_IncludeState\<close> never raise. Whatever directives, headers and header
  types come in whatever order from a new state, as long as \<open>IsInAlphabeticalOrder\<close> is asked
  about a line of the file: \<open>include_list[-1]\<close> always exists, the section is always a key of
  \<open>_SECTION_NAMES\<close>, and the line before (of line 0, the last line) can be read. In particular
  headers in an illegal order raise no \<open>_IncludeError\<close>, which the docstring of the class
  announces.
\<close>

theorem include_ops_safe:
  assumes "\<forall>op \<in> set ops. op_in_file op"
  shows "\<exists>st. fold_res run_op ops IncludeState_init = Inr st \<and> include_list st \<noteq> [] \<and>
     map_of SECTION_NAMES (inc_section st) \<noteq> None"
proof -
  have "\<exists>st. fold_res run_op ops IncludeState_init = Inr st \<and> include_wf st"
    using include_wf_init run_op_wf assms by (intro fold_res_total [where P = include_wf]) auto
  then show ?thesis unfolding section_name_iff by (auto simp: include_wf_def)
qed

text \<open>The witness: headers out of order, over preprocessor branches, with a look at line 0.\<close>

theorem include_ops_safe_witness:
  "\<exists>st. fold_res run_op [OpReset ''else'', OpNext OTHER_HEADER, OpInclude ''b.h'' 0, OpNext C_SYS_HEADER,
      OpLast ''b.h'', OpAlpha [''#include <a.h>''] 0 ''a.h''] IncludeState_init = Inr st \<and>
    include_list st \<noteq> []"
  using include_ops_safe [of "[OpReset ''else'', OpNext OTHER_HEADER, OpInclude ''b.h'' 0, OpNext C_SYS_HEADER,
      OpLast ''b.h'', OpAlpha [''#include <a.h>''] 0 ''a.h'']"]
  by (simp del: fold_res.simps) blast

lemma find_append_new:
  "find P (xs @ [x]) = (case find P xs of Some y \<Rightarrow> Some y | None \<Rightarrow> if P x then Some x else None)"
  by (induction xs) auto

text \<open>
  \<open>FindHeader\<close> after a header is recorded: the recorded header is found at its first
  line, other headers where they were before.
\<close>

lemma FindHeader_append:
  assumes "append_include header linenum st = Inr st'"
  shows "FindHeader h st' =
    (if h = header \<and> h \<notin> fst ` set (concat (include_list st)) then linenum else FindHeader h st)"
proof -
  from assms have ne: "include_list st \<noteq> []"
    and st': "include_list st' = butlast (include_list st) @ [last (include_list st) @ [(header, linenum)]]"
    by (auto simp: append_include_def split: if_splits)
  have "concat (include_list st) = concat (butlast (include_list st)) @ last (include_list st)"
    using arg_cong [OF append_butlast_last_id [OF ne], of concat] by simp
  then have c: "concat (include_list st') = concat (include_list st) @ [(header, linenum)]"
    by (simp add: st')
  have n: "find (\<lambda>f. fst f = h) xs = None \<longleftrightarrow> h \<notin> fst ` set xs" for xs :: "(string \<times> int) list"
    by (force simp: find_None_iff)
  show ?thesis
  proof (cases "find (\<lambda>f. fst f = h) (concat (include_list st))")
    case None
    with n have "h \<notin> fst ` set (concat (include_list st))" by blast
    with None show ?thesis by (auto simp: FindHeader_def c find_append_new)
  next
    case (Some f)
    with n have "h \<in> fst ` set (concat (include_list st))" by (metis option.distinct(1))
    with Some show ?thesis by (simp add: FindHeader_def c find_append_new)
  qed
qed

end
