(* ===== verification/Cleanse.thy ===== *)
theory Cleanse
  imports Regex_Semantics
begin

text \<open>
  Removing strings and comments before the checks run: \<open>CleanseRawStrings\<close>,
  \<open>RemoveMultiLineComments\<close>, \<open>CleanseComments\<close> and the class \<open>CleansedLines\<close>.
\<close>

section \<open>Patterns\<close>

definition dquote :: char where
  "dquote = CHR 0x22"

definition squote :: char where
  "squote = CHR 0x27"

definition RE_PATTERN_INCLUDE :: string where
  \<open>RE_PATTERN_INCLUDE = raw ''^`s*#`s*include`s*([<"])([^>"]*)[>"].*$''\<close>

definition RE_PATTERN_CLEANSE_LINE_ESCAPES :: string where
  \<open>RE_PATTERN_CLEANSE_LINE_ESCAPES = raw ''``([abfnrtv?"```']|`d+|x[0-9a-fA-F]+)''\<close>

definition RE_PATTERN_C_COMMENTS :: string where
  "RE_PATTERN_C_COMMENTS = raw ''/`*(?:[^*]|`*(?!/))*`*/''"

definition RE_PATTERN_CLEANSE_LINE_C_COMMENTS :: string where
  "RE_PATTERN_CLEANSE_LINE_C_COMMENTS =
     raw ''(`s*'' @ RE_PATTERN_C_COMMENTS @ raw ''`s*$|'' @
     RE_PATTERN_C_COMMENTS @ raw ''`s+|'' @
     raw ''`s+'' @ RE_PATTERN_C_COMMENTS @ raw ''(?=`W)|'' @
     RE_PATTERN_C_COMMENTS @ '')''"

section \<open>Strings\<close>

text \<open>The low bit of the difference is its parity.\<close>

definition IsCppString :: "string \<Rightarrow> bool" where
  "IsCppString line =
     (let line = str_replace line [backslash, backslash] ''XX''
      in odd (int (str_count line [dquote]) - int (str_count line [backslash, dquote])
              - int (str_count line [squote, dquote, squote])))"

section \<open>Raw strings\<close>

definition RAW_STRING_START :: string where
  \<open>RAW_STRING_START = raw ''^(.*?)`b(?:R|u8R|uR|UR|LR)"([^`s``()]*)`((.*)$''\<close>

definition IN_LINE_COMMENT :: string where
  \<open>IN_LINE_COMMENT = raw ''^([^`'"]|`'(``.|[^`'])*`'|"(``.|[^"])*")*//''\<close>

definition LEADING_SPACE :: string where
  "LEADING_SPACE = raw ''^(`s*)`S''"

text \<open>How the groups of the pattern divide the line.\<close>

lemma raw_string_pattern:
  \<open>rx RAW_STRING_START =
     Cat Bol (Cat (Group 1 (Star False Dot)) (Cat WordB (Cat
       (rx ''R|u8R|uR|UR|LR'') (Cat (Class False [Lit dquote]) (Cat
       (Group 2 (Star True (Class True [Space, Lit backslash, Lit CHR ''('', Lit CHR '')''])))
       (Cat (Class False [Lit CHR ''('']) (Cat (Group 3 (Star True Dot)) Eol)))))))\<close>
  by code_simp

lemma raw_prefix_groups: "groups_of (rx ''R|u8R|uR|UR|LR'') = []"
  by code_simp

lemma raw_prefix_pattern:
  "rx ''R|u8R|uR|UR|LR'' = alt_all (map (\<lambda>w. cat_all (map (\<lambda>c. Class False [Lit c]) w))
     [''R'', ''u8R'', ''uR'', ''UR'', ''LR''])"
  by code_simp

abbreviation raw_prefixes :: "string set" where
  "raw_prefixes \<equiv> {[], ''u8'', ''u'', ''U'', ''L''}"

lemma raw_prefix_rel:
  "(k, k') \<in> rx_rel (rx ''R|u8R|uR|UR|LR'') \<Longrightarrow>
     \<exists>x \<in> raw_prefixes. rest k = x @ ''R'' @ rest k'"
  unfolding raw_prefix_pattern by (auto dest!: char_rel_rest simp: class_has_def)

lemma raw_string_division:
  assumes "Match RAW_STRING_START line = Some m"
  shows "\<exists>x y. line = grp m 1 @ x @ [CHR ''R'', dquote] @ grp m 2 @ [CHR ''(''] @ grp m 3 @ y \<and>
    x \<in> raw_prefixes \<and> CHR ''('' \<notin> set (grp m 2) \<and> (y = [] \<or> y = [CHR 0x0A])"
proof -
  let ?S = "Star True (Class True [Space, Lit backslash, Lit CHR ''('', Lit CHR '')''])"
  from Match_SomeD [OF assms] obtain k0 c0 k1 c1 k2 c2 k3 c3 k4 c4 k5 c5 k6 c6 k7 c7 k8 where
    "(k0, c0) \<in> set (matches Bol (start_cursor line) [])"
    and g1: "(k1, c1) \<in> set (matches (Group 1 (Star False Dot)) k0 c0)"
    and "(k2, c2) \<in> set (matches WordB k1 c1)"
    and r: "(k3, c3) \<in> set (matches (rx ''R|u8R|uR|UR|LR'') k2 c2)"
    and q: "(k4, c4) \<in> set (matches (Class False [Lit dquote]) k3 c3)"
    and g2: "(k5, c5) \<in> set (matches (Group 2 ?S) k4 c4)"
    and p: "(k6, c6) \<in> set (matches (Class False [Lit CHR ''('']) k5 c5)"
    and g3: "(k7, c7) \<in> set (matches (Group 3 (Star True Dot)) k6 c6)"
    and e: "(k8, m_caps m) \<in> set (matches Eol k7 c7)"
    unfolding raw_string_pattern matches_Cat_iff by blast
  then have same: "k0 = start_cursor line" "c0 = []" "k2 = k1" "c2 = c1" "m_caps m = c7"
    by (auto split: if_splits)
  from e have eol: "rest k7 = [] \<or> rest k7 = [CHR 0x0A]" by (auto split: if_splits)
  from matches_GroupD [OF g1] matches_plainD [of "Star False Dot" k1 _ k0 c0] obtain w1 where
    w1: "c1 = [(1, pos k0, w1)]" "line = w1 @ rest k1" by (auto simp: same)
  have "no_backref (rx ''R|u8R|uR|UR|LR'')" by code_simp
  from raw_prefix_rel [OF matches_relD [OF this r]] matches_plainD [OF raw_prefix_groups r]
  obtain x where x: "c3 = c1" "rest k1 = x @ ''R'' @ rest k3" "x \<in> raw_prefixes"
    unfolding same by blast
  from matches_ClassD [OF q] have q': "c4 = c1" "rest k3 = dquote # rest k4"
    by (auto simp: x class_has_def)
  from matches_GroupD [OF g2] matches_plainD [of ?S k5 _ k4 c4] obtain w2 where
    w2: "c5 = (2, pos k4, w2) # c1" "rest k4 = w2 @ rest k5" "(k5, c1) \<in> set (matches ?S k4 c1)"
    by (auto simp: q')
  from matches_relD [OF _ w2(3)] have "(k4, k5) \<in> rx_rel ?S" by simp
  then obtain v where v: "rest k4 = v @ rest k5" "CHR ''('' \<notin> set v"
    by (auto simp: class_has_def dest!: char_star_rest)
  with w2(2) have "CHR ''('' \<notin> set w2" by simp
  from matches_ClassD [OF p] have p': "c6 = c5" "rest k5 = CHR ''('' # rest k6"
    by (auto simp: class_has_def)
  from matches_GroupD [OF g3] matches_plainD [of "Star True Dot" k7 _ k6 c6] obtain w3 where
    w3: "c7 = (3, pos k6, w3) # c5" "rest k6 = w3 @ rest k7" by (auto simp: p')
  have "grp m 1 = w1" "grp m 2 = w2" "grp m 3 = w3"
    by (simp_all add: grp_caps same w1 w2 w3)
  moreover have "line = w1 @ x @ [CHR ''R'', dquote] @ w2 @ [CHR ''(''] @ w3 @ rest k7"
    using w1 x q' w2(2) p' w3(2) by simp
  ultimately show ?thesis using x(3) \<open>CHR ''('' \<notin> set w2\<close> eol by blast
qed

text \<open>
  The inner loop: replace the raw strings of a line until none begins, or one begins that
  does not end on the line; then its delimiter is returned.
\<close>

function (sequential) raw_loop :: "string \<Rightarrow> string \<times> string option" where
  "raw_loop line =
     (case Match RAW_STRING_START line of
        None \<Rightarrow> (line, None)
      | Some matched \<Rightarrow>
          if Match IN_LINE_COMMENT (grp matched 1) \<noteq> None then (line, None)
          else
            (let delimiter = '')'' @ grp matched 2 @ [dquote]
             in case str_find (grp matched 3) delimiter of
                  Some end \<Rightarrow> raw_loop (grp matched 1 @ [dquote, dquote] @
                                drop (end + length delimiter) (grp matched 3))
                | None \<Rightarrow> (grp matched 1 @ [dquote, dquote], Some delimiter)))"
  by pat_completeness auto
termination
proof (relation "measure length")
  fix line m d e
  assume m: "Match RAW_STRING_START line = Some m" and d: "d = '')'' @ grp m 2 @ [dquote]"
    and e: "str_find (grp m 3) d = Some e"
  from raw_string_division [OF m] obtain x y where
    "line = grp m 1 @ x @ [CHR ''R'', dquote] @ grp m 2 @ [CHR ''(''] @ grp m 3 @ y" by blast
  from arg_cong [OF this, of length]
  have "length (grp m 1) + length (grp m 2) + length (grp m 3) + 3 \<le> length line" by simp
  with str_find_bound [OF e] d
  show "(grp m 1 @ [dquote, dquote] @ drop (e + length d) (grp m 3), line) \<in> measure length"
    by simp
qed simp

declare raw_loop.simps [simp del]

text \<open>One line of the outer loop, with the delimiter of an unfinished raw string.\<close>

definition raw_line :: "string option \<Rightarrow> string \<Rightarrow> (string \<times> string option) res" where
  "raw_line delimiter line =
     (case delimiter of
        None \<Rightarrow> Inr (raw_loop line)
      | Some d \<Rightarrow>
          (case str_find line d of
             None \<Rightarrow> Inr ([dquote, dquote], Some d)
           | Some end \<Rightarrow>
               (case Match LEADING_SPACE line of
                  None \<Rightarrow> Inl AttributeError
                | Some leading_space \<Rightarrow>
                    Inr (raw_loop (grp leading_space 1 @ [dquote, dquote] @
                                   drop (end + length d) line)))))"

fun raw_lines_loop :: "string option \<Rightarrow> string list \<Rightarrow> string list res" where
  "raw_lines_loop delimiter [] = Inr []"
| "raw_lines_loop delimiter (line # ls) =
     bind_res (raw_line delimiter line) (\<lambda>(line', delimiter').
       bind_res (raw_lines_loop delimiter' ls) (\<lambda>ls'. Inr (line' # ls')))"

definition CleanseRawStrings :: "string list \<Rightarrow> string list res" where
  "CleanseRawStrings raw_lines = raw_lines_loop None raw_lines"

section \<open>Multi-line comments\<close>

definition starts_multiline_comment :: "string \<Rightarrow> bool" where
  "starts_multiline_comment line \<longleftrightarrow>
     startswith (strip line) ''/*'' \<and> str_find_from (strip line) ''*/'' 2 = None"

definition ends_multiline_comment :: "string \<Rightarrow> bool" where
  "ends_multiline_comment line \<longleftrightarrow> endswith (strip line) ''*/''"

function FindNextMultiLineCommentStart :: "string list \<Rightarrow> nat \<Rightarrow> nat" where
  "FindNextMultiLineCommentStart lines lineix =
     (if lineix < length lines then
        if starts_multiline_comment (lines ! lineix) then lineix
        else FindNextMultiLineCommentStart lines (Suc lineix)
      else length lines)"
  by pat_completeness auto
termination
  by (relation "measure (\<lambda>(lines, lineix). length lines - lineix)") auto

function FindNextMultiLineCommentEnd :: "string list \<Rightarrow> nat \<Rightarrow> nat" where
  "FindNextMultiLineCommentEnd lines lineix =
     (if lineix < length lines then
        if ends_multiline_comment (lines ! lineix) then lineix
        else FindNextMultiLineCommentEnd lines (Suc lineix)
      else length lines)"
  by pat_completeness auto
termination
  by (relation "measure (\<lambda>(lines, lineix). length lines - lineix)") auto

declare FindNextMultiLineCommentStart.simps [simp del] FindNextMultiLineCommentEnd.simps [simp del]

text \<open>Both are called with \<open>end\<close> at most the number of lines.\<close>

definition RemoveMultiLineCommentsFromRange :: "string list \<Rightarrow> nat \<Rightarrow> nat \<Rightarrow> string list" where
  "RemoveMultiLineCommentsFromRange lines begin end =
     fold (\<lambda>i ls. ls[i := ''/**/'']) [begin..<end] lines"

lemma comment_start_ge: "lineix \<le> length lines \<Longrightarrow> lineix \<le> FindNextMultiLineCommentStart lines lineix"
proof (induction lines lineix rule: FindNextMultiLineCommentStart.induct)
  case (1 lines lineix)
  then show ?case by (subst FindNextMultiLineCommentStart.simps) (auto dest: Suc_leD)
qed

lemma comment_end_ge: "lineix \<le> length lines \<Longrightarrow> lineix \<le> FindNextMultiLineCommentEnd lines lineix"
proof (induction lines lineix rule: FindNextMultiLineCommentEnd.induct)
  case (1 lines lineix)
  then show ?case by (subst FindNextMultiLineCommentEnd.simps) (auto dest: Suc_leD)
qed

lemma RemoveRange_length [simp]:
  "length (RemoveMultiLineCommentsFromRange lines b e) = length lines"
proof -
  have "length (fold (\<lambda>i ls. ls[i := ''/**/'']) is lines) = length lines" for "is"
    by (induction "is" arbitrary: lines) simp_all
  then show ?thesis by (simp add: RemoveMultiLineCommentsFromRange_def)
qed

text \<open>The loop of \<open>RemoveMultiLineComments\<close>: the lines and the calls of \<open>error\<close>.\<close>

function remove_comments_loop :: "string \<Rightarrow> string list \<Rightarrow> nat \<Rightarrow> string list \<times> effect list" where
  "remove_comments_loop filename lines lineix =
     (if lineix < length lines then
        (let lineix_begin = FindNextMultiLineCommentStart lines lineix
         in if length lines \<le> lineix_begin then (lines, [])
            else
              (let lineix_end = FindNextMultiLineCommentEnd lines lineix_begin
               in if length lines \<le> lineix_end then
                    (lines, [ErrorCall filename (int lineix_begin + 1)
                       ''readability/multiline_comment'' 5
                       ''Could not find end of multi-line comment''])
                  else remove_comments_loop filename
                    (RemoveMultiLineCommentsFromRange lines lineix_begin (lineix_end + 1))
                    (lineix_end + 1)))
      else (lines, []))"
  by pat_completeness auto
termination
proof (relation "measure (\<lambda>(filename, lines, lineix). length lines - lineix)", goal_cases)
  case (2 filename lines lineix b e)
  from 2(1,2) comment_start_ge [of lineix lines] have "lineix \<le> b" by simp
  moreover from 2(3,4) comment_end_ge [of b lines] have "b \<le> e" by simp
  ultimately show ?case using 2(1,5) by simp
qed simp

declare remove_comments_loop.simps [simp del]

definition RemoveMultiLineComments :: "string \<Rightarrow> string list \<Rightarrow> string list \<times> effect list" where
  "RemoveMultiLineComments filename lines = remove_comments_loop filename lines 0"

section \<open>Comments within a line\<close>

definition CleanseComments :: "string \<Rightarrow> string" where
  "CleanseComments line =
     (let line = (case str_find line ''//'' of
            None \<Rightarrow> line
          | Some commentpos \<Rightarrow>
              if \<not> IsCppString (take commentpos line) then rstrip (take commentpos line) else line)
      in re_sub (rx RE_PATTERN_CLEANSE_LINE_C_COMMENTS) (\<lambda>_. []) line)"

section \<open>Collapsing strings\<close>

definition FIRST_QUOTE :: string where
  \<open>FIRST_QUOTE = raw ''^([^`'"]*)([`'"])(.*)$''\<close>

definition NUMBER_AT_END :: string where
  "NUMBER_AT_END = raw ''`b(?:0[bBxX]?|[1-9])[0-9a-fA-F]*$''"

definition DIGIT_SEPARATORS :: string where
  "DIGIT_SEPARATORS = raw ''^((?:`'?[0-9a-zA-Z_])*)(.*)$''"

lemma first_quote_pattern:
  "rx FIRST_QUOTE = Cat Bol (Cat (Group 1 (Star True (Class True [Lit squote, Lit dquote])))
     (Cat (Group 2 (Class False [Lit squote, Lit dquote])) (Cat (Group 3 (Star True Dot)) Eol)))"
  by code_simp

lemma first_quote_division:
  assumes "Match FIRST_QUOTE line = Some m"
  shows "\<exists>y. line = grp m 1 @ grp m 2 @ grp m 3 @ y \<and> (y = [] \<or> y = [CHR 0x0A]) \<and>
    squote \<notin> set (grp m 1) \<and> dquote \<notin> set (grp m 1) \<and> (grp m 2 = [squote] \<or> grp m 2 = [dquote])"
proof -
  let ?S = "Star True (Class True [Lit squote, Lit dquote])"
  let ?Q = "Class False [Lit squote, Lit dquote]"
  from Match_SomeD [OF assms] obtain k0 c0 k1 c1 k2 c2 k3 c3 k4 where
    "(k0, c0) \<in> set (matches Bol (start_cursor line) [])"
    and g1: "(k1, c1) \<in> set (matches (Group 1 ?S) k0 c0)"
    and g2: "(k2, c2) \<in> set (matches (Group 2 ?Q) k1 c1)"
    and g3: "(k3, c3) \<in> set (matches (Group 3 (Star True Dot)) k2 c2)"
    and e: "(k4, m_caps m) \<in> set (matches Eol k3 c3)"
    unfolding first_quote_pattern matches_Cat_iff by blast
  then have same: "k0 = start_cursor line" "c0 = []" "m_caps m = c3"
    and eol: "rest k3 = [] \<or> rest k3 = [CHR 0x0A]" by (auto split: if_splits)
  from matches_GroupD [OF g1] matches_plainD [of ?S k1 _ k0 c0] obtain w1 where
    w1: "c1 = [(1, pos k0, w1)]" "line = w1 @ rest k1" "(k1, []) \<in> set (matches ?S k0 [])"
    by (auto simp: same)
  from matches_relD [OF _ w1(3)] have "(k0, k1) \<in> rx_rel ?S" by simp
  then obtain v where v: "rest k0 = v @ rest k1" "\<forall>x \<in> set v. x \<noteq> squote \<and> x \<noteq> dquote"
    by (auto simp: class_has_def dest!: char_star_rest)
  with w1(2) same(1) have n: "squote \<notin> set w1" "dquote \<notin> set w1" by auto
  from matches_GroupD [OF g2] obtain w2 c2' where
    w2: "c2 = (2, pos k1, w2) # c2'" "rest k1 = w2 @ rest k2" "(k2, c2') \<in> set (matches ?Q k1 c1)"
    by blast
  from matches_ClassD [OF w2(3)] w2(2) have q: "c2' = c1" "w2 = [squote] \<or> w2 = [dquote]"
    by (auto simp: class_has_def)
  from matches_GroupD [OF g3] matches_plainD [of "Star True Dot" k3 _ k2 c2] obtain w3 where
    w3: "c3 = (3, pos k2, w3) # c2" "rest k2 = w3 @ rest k3" by auto
  have "grp m 1 = w1" "grp m 2 = w2" "grp m 3 = w3"
    by (simp_all add: grp_caps same w1 w2 w3 q)
  moreover have "line = w1 @ w2 @ w3 @ rest k3" using w1(2) w2(2) w3(2) by simp
  ultimately show ?thesis using n q(2) eol by blast
qed

lemma number_nonempty: "Search NUMBER_AT_END head \<noteq> None \<Longrightarrow> head \<noteq> []"
proof
  assume "Search NUMBER_AT_END head \<noteq> None" "head = []"
  moreover have "Search NUMBER_AT_END [] = None" by code_simp
  ultimately show False by simp
qed

text \<open>What follows the separators is not longer than the subject.\<close>

lemma group_length:
  assumes "Match p s = Some m"
  shows "length (grp m n) \<le> length s"
proof (cases "group m n")
  case None
  then show ?thesis by (simp add: grp_def)
next
  case (Some t)
  note m = assms [unfolded Match_def re_match_def]
  show ?thesis
  proof (cases "n = 0")
    case True
    with Some match_at_span(4) [OF m] show ?thesis by (auto simp: grp_def group_def)
  next
    case False
    from match_at_group [OF m Some this] obtain k1 and k2 :: cursor where
      k: "reach (start_cursor s) k1" "rest k1 = t @ rest k2" by auto
    from reach_length [OF k(1)] k(2) Some show ?thesis by (simp add: grp_def)
  qed
qed

function (sequential) collapse_loop :: "string \<Rightarrow> string \<Rightarrow> string res" where
  "collapse_loop collapsed elided =
     (case Match FIRST_QUOTE elided of
        None \<Rightarrow> Inr (collapsed @ elided)
      | Some match \<Rightarrow>
          if grp match 2 = [dquote] then
            (case str_find (grp match 3) [dquote] of
               Some second_quote \<Rightarrow> collapse_loop (collapsed @ grp match 1 @ [dquote, dquote])
                                     (drop (second_quote + 1) (grp match 3))
             | None \<Rightarrow> Inr (collapsed @ elided))
          else if Search NUMBER_AT_END (grp match 1) \<noteq> None then
            (case Match DIGIT_SEPARATORS (squote # grp match 3) of
               None \<Rightarrow> Inl AttributeError
             | Some match_literal \<Rightarrow>
                 collapse_loop (collapsed @ grp match 1 @ str_replace (grp match_literal 1) [squote] [])
                   (grp match_literal 2))
          else
            (case str_find (grp match 3) [squote] of
               Some second_quote \<Rightarrow> collapse_loop (collapsed @ grp match 1 @ [squote, squote])
                                     (drop (second_quote + 1) (grp match 3))
             | None \<Rightarrow> Inr (collapsed @ elided)))"
  by pat_completeness auto
termination
proof (relation "measure (\<lambda>(collapsed, elided). length elided)", goal_cases)
  case (3 collapsed elided m ml)
  from number_nonempty [OF 3(3)] group_length [OF 3(4), of 2] first_quote_division [OF 3(1)]
  show ?case by (cases "grp m 1") (auto dest: arg_cong [of elided _ length])
qed (auto dest!: first_quote_division dest: arg_cong [of _ _ length])

declare collapse_loop.simps [simp del]

definition CollapseStrings :: "string \<Rightarrow> string res" where
  "CollapseStrings elided =
     (if re_match (rx RE_PATTERN_INCLUDE) elided \<noteq> None then Inr elided
      else collapse_loop [] (re_sub (rx RE_PATTERN_CLEANSE_LINE_ESCAPES) (\<lambda>_. []) elided))"

section \<open>The class CleansedLines\<close>

record cleansed_lines =
  cl_elided :: "string list"
  cl_lines :: "string list"
  cl_raw_lines :: "string list"
  cl_num_lines :: nat
  cl_lines_without_raw_strings :: "string list"

definition cleanse_line :: "string \<Rightarrow> string list \<times> string list \<Rightarrow> (string list \<times> string list) res" where
  "cleanse_line line st =
     (let (elided, lines) = st
      in bind_res (CollapseStrings line) (\<lambda>collapsed.
           Inr (elided @ [CleanseComments collapsed], lines @ [CleanseComments line])))"

definition CleansedLines :: "string list \<Rightarrow> cleansed_lines res" where
  "CleansedLines lines =
     bind_res (CleanseRawStrings lines) (\<lambda>lines_without_raw_strings.
     bind_res (fold_res cleanse_line lines_without_raw_strings ([], [])) (\<lambda>(elided, cleansed).
       Inr \<lparr>cl_elided = elided, cl_lines = cleansed, cl_raw_lines = lines,
            cl_num_lines = length lines,
            cl_lines_without_raw_strings = lines_without_raw_strings\<rparr>))"

definition NumLines :: "cleansed_lines \<Rightarrow> nat" where
  "NumLines clean_lines = cl_num_lines clean_lines"

section \<open>Properties of the raw string pass\<close>

lemma leading_space_pattern:
  "rx LEADING_SPACE = Cat Bol (Cat (Group 1 (Star True (Class False [Space]))) (Class False [NotSpace]))"
  by code_simp

lemma takeWhile_append_nth: "\<forall>x \<in> set w. P x \<Longrightarrow> \<not> P y \<Longrightarrow> takeWhile P (w @ y # v) = w"
  by (induction w) auto

lemma leading_space:
  assumes "\<not> is_space c" "c \<in> set line"
  shows "\<exists>m. Match LEADING_SPACE line = Some m \<and> grp m 1 = takeWhile is_space line"
proof -
  let ?w = "takeWhile is_space line" and ?S = "Star True (Class False [Space])"
  have sp: "class_has False [Space] = is_space" "class_has False [NotSpace] = (\<lambda>x. \<not> is_space x)"
    by (auto simp: class_has_def fun_eq_iff)
  from assms obtain y v where v: "line = ?w @ y # v" "\<not> is_space y"
    by (metis dropWhile_eq_Nil_conv list.collapse hd_dropWhile takeWhile_dropWhile_id)
  from char_starI [of "start_cursor line" ?w "y # v" is_space] v(1) obtain k where
    k: "(start_cursor line, k) \<in> (char_rel is_space)\<^sup>*" "rest k = y # v"
    by (auto dest: set_takeWhileD)
  have "(start_cursor line, advance k) \<in> rx_rel (rx LEADING_SPACE)"
    using k(1) char_relI [of k y v "\<lambda>x. \<not> is_space x"] k(2) v(2)
    by (auto simp: leading_space_pattern sp test_rel_def)
  moreover have "no_backref (rx LEADING_SPACE)" by (simp add: leading_space_pattern)
  ultimately obtain m where m: "Match LEADING_SPACE line = Some m"
    using Match_None_iff [of LEADING_SPACE line] by (meson DomainI not_Some_eq)
  from Match_SomeD [OF m] obtain k0 c0 k1 c1 k2 where
    "(k0, c0) \<in> set (matches Bol (start_cursor line) [])"
    and g: "(k1, c1) \<in> set (matches (Group 1 ?S) k0 c0)"
    and e: "(k2, m_caps m) \<in> set (matches (Class False [NotSpace]) k1 c1)"
    unfolding leading_space_pattern matches_Cat_iff by blast
  then have same: "k0 = start_cursor line" "c0 = []" by (auto split: if_splits)
  from matches_GroupD [OF g] matches_plainD [of ?S k1 _ k0 c0] obtain w where
    w: "c1 = [(1, pos k0, w)]" "line = w @ rest k1" "(k1, []) \<in> set (matches ?S k0 [])"
    by (auto simp: same)
  from matches_relD [OF _ w(3)] have "(k0, k1) \<in> (char_rel is_space)\<^sup>*" by (simp add: sp)
  from char_star_rest [OF this] w(2) same have "\<forall>x \<in> set w. is_space x" by auto
  moreover from matches_ClassD [OF e] obtain x where
    x: "m_caps m = c1" "rest k1 = x # rest k2" "\<not> is_space x" by (auto simp: sp)
  ultimately have "takeWhile is_space line = w" using w(2) takeWhile_append_nth by metis
  moreover have "grp m 1 = w" by (simp add: grp_caps x w)
  ultimately show ?thesis using m by blast
qed

lemma raw_loop_delimiter: "raw_loop line = (line', Some d) \<Longrightarrow> \<exists>t. d = CHR '')'' # t"
proof (induction line rule: raw_loop.induct)
  case (1 line)
  then show ?case
    by (subst (asm) (2) raw_loop.simps) (auto split: option.splits if_splits simp: Let_def)
qed

lemma close_paren_not_space: "\<not> is_space CHR '')''"
  by code_simp

lemma raw_line_total:
  assumes "\<And>d. delimiter = Some d \<Longrightarrow> \<exists>t. d = CHR '')'' # t"
  shows "\<exists>line' delimiter'. raw_line delimiter line = Inr (line', delimiter') \<and>
    (\<forall>d. delimiter' = Some d \<longrightarrow> (\<exists>t. d = CHR '')'' # t))"
proof (cases delimiter)
  case None
  obtain l d where l: "raw_loop line = (l, d)" by fastforce
  with None raw_loop_delimiter show ?thesis by (auto simp: raw_line_def)
next
  case (Some d)
  with assms obtain t where t: "d = CHR '')'' # t" by blast
  show ?thesis
  proof (cases "str_find line d")
    case None
    with Some t show ?thesis by (simp add: raw_line_def)
  next
    case (Some e)
    from str_find_SomeD [OF this] t have "CHR '')'' \<in> set line" by auto
    from leading_space [OF close_paren_not_space this] obtain m where
      m: "Match LEADING_SPACE line = Some m" by blast
    obtain l d' where l: "raw_loop (grp m 1 @ [dquote, dquote] @ drop (e + length d) line) = (l, d')"
      by fastforce
    with m Some \<open>delimiter = Some d\<close> raw_loop_delimiter show ?thesis by (auto simp: raw_line_def)
  qed
qed

lemma raw_lines_loop_total:
  "(\<And>d. delimiter = Some d \<Longrightarrow> \<exists>t. d = CHR '')'' # t) \<Longrightarrow>
     \<exists>ls. raw_lines_loop delimiter lines = Inr ls \<and> length ls = length lines"
proof (induction lines arbitrary: delimiter)
  case (Cons line lines)
  from raw_line_total [OF Cons.prems] obtain line' delimiter' where
    r: "raw_line delimiter line = Inr (line', delimiter')"
      "\<And>d. delimiter' = Some d \<Longrightarrow> \<exists>t. d = CHR '')'' # t" by blast
  obtain ls where "raw_lines_loop delimiter' lines = Inr ls" "length ls = length lines"
    using Cons.IH [of delimiter'] r(2) by blast
  with r(1) show ?case by simp
qed simp

text \<open>
  C17: \<open>CleanseRawStrings\<close> returns for every list of lines whatever: the leading-space match
  whose \<open>group\<close> it takes never fails, the inner loop ends, and the result has as many lines
  as the input, so that line numbers stay valid.
\<close>

theorem cleanse_raw_strings_total:
  "\<exists>ls. CleanseRawStrings lines = Inr ls \<and> length ls = length lines"
  unfolding CleanseRawStrings_def by (rule raw_lines_loop_total) simp

text \<open>
  The lazy prefix of the pattern: its matches come in the order of their ends, so the
  first match of a pattern that begins with it takes the shortest prefix there is.
\<close>

lemma lazy_dot_unfold:
  "matches (Star False Dot) k c = (k, c) # (case rest k of [] \<Rightarrow> []
     | x # xs \<Rightarrow> if not_newline x then matches (Star False Dot) (advance k) c else [])"
  by (subst matches.simps(7)) (auto simp: one_char_def advance_def Let_def split: list.splits)

lemma lazy_dot_sorted: "sorted (map (\<lambda>x. pos (fst x)) (matches (Star False Dot) k c))"
proof (induction "length (rest k)" arbitrary: k)
  case 0
  then show ?case by (subst lazy_dot_unfold) simp
next
  case (Suc n)
  then obtain x xs where x: "rest k = x # xs" by (cases "rest k") auto
  then have a: "length (rest (advance k)) = n" "pos (advance k) = Suc (pos k)"
    using Suc.hyps(2) by (simp_all add: advance_def)
  have "pos k \<le> pos (fst y)" if "y \<in> set (matches (Star False Dot) (advance k) c)" for y
    using reach_pos [OF matches_reach [of "fst y" "snd y" "Star False Dot" "advance k" c]] that a by simp
  with Suc.hyps(1) [of "advance k"] a x show ?case by (subst lazy_dot_unfold) auto
qed

lemma hd_concat_map_sorted:
  assumes "sorted (map g xs)" and "x \<in> set xs" and "f x \<noteq> []" and "concat (map f xs) = y # ys"
  shows "\<exists>x' \<in> set xs. g x' \<le> g x \<and> y \<in> set (f x')"
  using assms
proof (induction xs)
  case (Cons a xs)
  show ?case
  proof (cases "f a = []")
    case True
    with Cons show ?thesis by auto
  next
    case False
    then obtain b bs where "f a = b # bs" by (cases "f a") auto
    with Cons.prems show ?thesis by auto
  qed
qed simp

abbreviation raw_tail :: regex where
  "raw_tail \<equiv> Cat WordB (Cat (rx ''R|u8R|uR|UR|LR'') (Cat (Class False [Lit dquote]) (Cat
       (Group 2 (Star True (Class True [Space, Lit backslash, Lit CHR ''('', Lit CHR '')''])))
       (Cat (Class False [Lit CHR ''('']) (Cat (Group 3 (Star True Dot)) Eol)))))"

lemma matches_Nil_iff: "no_backref r \<Longrightarrow> matches r k c = [] \<longleftrightarrow> k \<notin> Domain (rx_rel r)"
proof -
  assume "no_backref r"
  from matches_rx_rel [OF this, of k c] have "matches r k c = [] \<longleftrightarrow> rx_rel r `` {k} = {}"
    by (metis image_is_empty set_empty)
  also have "\<dots> \<longleftrightarrow> k \<notin> Domain (rx_rel r)" by blast
  finally show ?thesis .
qed

lemma caps_skip:
  assumes "(k', c') \<in> set (matches r k c)" and "\<forall>x \<in> set (groups_of r). fst x \<noteq> n"
  shows "map_of c' n = map_of c n"
proof -
  from matches_captures [OF assms(1)] obtain d where
    d: "c' = d @ c" "\<forall>x \<in> set d. capture_ok (groups_of r) k x" by (auto simp: captures_ok_def)
  have "n \<notin> fst ` set d"
  proof
    assume "n \<in> fst ` set d"
    then obtain i t where "(n, i, t) \<in> set d" by force
    with d(2) obtain r' where "(n, r') \<in> set (groups_of r)" by (auto simp: capture_ok_def)
    with assms(2) show False by force
  qed
  then have "map_of d n = None" by (simp add: map_of_eq_None_iff)
  then show ?thesis by (simp add: d(1) map_add_def)
qed

lemma char_star_cursor:
  "i \<le> length s \<Longrightarrow> \<forall>x \<in> set (take i s). P x \<Longrightarrow> (start_cursor s, cursor_at s i) \<in> (char_rel P)\<^sup>*"
proof (induction i)
  case (Suc i)
  then have d: "drop i s = s ! i # drop (Suc i) s" and x: "P (s ! i)"
    and p: "\<forall>x \<in> set (take i s). P x"
    by (auto simp: Cons_nth_drop_Suc take_Suc_conv_app_nth)
  from d have "(cursor_at s i, cursor_at s (Suc i)) \<in> char_rel P"
    using x by (simp add: char_rel_def next_char_def advance_def cursor_at_def)
  with Suc.IH [OF _ p] Suc.prems(1) show ?case by (auto intro: rtrancl_into_rtrancl)
qed simp

lemma raw_pattern_lazy:
  assumes "Match RAW_STRING_START line = Some m" and "i \<le> length line"
    and "\<forall>x \<in> set (take i line). not_newline x"
    and "cursor_at line i \<in> Domain (rx_rel raw_tail)"
  shows "length (grp m 1) \<le> i"
proof -
  let ?xs = "matches (Group 1 (Star False Dot)) (start_cursor line) []"
  let ?f = "\<lambda>(k', c'). matches raw_tail k' c'"
  have all: "matches (rx RAW_STRING_START) (start_cursor line) [] = concat (map ?f ?xs)"
    by (simp only: raw_string_pattern matches.simps(5) [of Bol] matches.simps(10)
        matches.simps(5) [of "Group 1 (Star False Dot)"] start_cursor_sel if_True simp_thms list.map
        concat.simps prod.case append_Nil2)
  have sorted: "sorted (map (\<lambda>x. pos (fst x)) ?xs)"
    using lazy_dot_sorted [of "start_cursor line" "[]"] by (simp add: comp_def split_beta)
  define k where k': "k = cursor_at line i"
  have k: "pos k = i" by (simp add: k' cursor_at_def)
  have "k \<in> fst ` set (matches (Star False Dot) (start_cursor line) [])"
    using matches_rx_rel [of "Star False Dot" "start_cursor line" "[]"]
      char_star_cursor [OF assms(2,3)] by (simp add: k')
  then obtain c where c: "(k, c) \<in> set (matches (Star False Dot) (start_cursor line) [])" by auto
  from c obtain c' where x: "(k, c') \<in> set ?xs" by force
  have "no_backref raw_tail" by code_simp
  from matches_Nil_iff [OF this, of k c'] assms(4) k' have ne: "?f (k, c') \<noteq> []"
    unfolding prod.case by blast
  obtain kc ys where y: "concat (map ?f ?xs) = kc # ys" "m_caps m = snd kc"
    using assms(1) all by (auto simp: Match_def re_match_def match_at_def mk_match_def split: list.splits)
  from hd_concat_map_sorted [OF sorted x ne y(1)] k obtain k1 c1 where
    k1: "(k1, c1) \<in> set ?xs" "pos k1 \<le> i" "kc \<in> set (matches raw_tail k1 c1)"
    by (auto simp del: matches.simps)
  have "\<forall>x \<in> set (groups_of raw_tail). fst x \<noteq> 1" by code_simp
  from caps_skip [OF _ this, of "fst kc" "snd kc" k1 c1] k1(3) y(2)
  have "map_of (m_caps m) 1 = map_of c1 1" unfolding prod.collapse by metis
  moreover from k1(1) obtain c0 where "c1 = (1, 0, take (pos k1) line) # c0" by auto
  ultimately show ?thesis using k1(2) by (simp add: grp_caps)
qed

lemma in_line_comment_pattern:
  \<open>rx IN_LINE_COMMENT = Cat Bol (Cat (rx (raw ''([^`'"]|`'(``.|[^`'])*`'|"(``.|[^"])*")*''))
     (Cat (Class False [Lit CHR ''/'']) (Class False [Lit CHR ''/''])))\<close>
  by code_simp

lemma in_line_comment_slashes:
  assumes "Match IN_LINE_COMMENT s \<noteq> None"
  shows "\<exists>u v. s = u @ ''//'' @ v"
proof -
  from assms obtain m where m: "Match IN_LINE_COMMENT s = Some m" by blast
  from Match_SomeD [OF m] obtain k0 c0 k1 c1 k2 c2 k3 r where
    "(k0, c0) \<in> set (matches Bol (start_cursor s) [])"
    and k1: "(k1, c1) \<in> set (matches r k0 c0)"
    and k2: "(k2, c2) \<in> set (matches (Class False [Lit CHR ''/'']) k1 c1)"
    and k3: "(k3, m_caps m) \<in> set (matches (Class False [Lit CHR ''/'']) k2 c2)"
    unfolding in_line_comment_pattern matches_Cat_iff by blast
  then have "k0 = start_cursor s" by (auto split: if_splits)
  with reach_text [OF matches_reach [OF k1]] matches_ClassD [OF k2] matches_ClassD [OF k3]
  have "\<exists>u. s = u @ ''//'' @ rest k3" by (auto simp: class_has_def intro: sym)
  then show ?thesis by blast
qed

text \<open>
  The text before a raw string literal: no literal begins in it, it does not end in a word
  and holds no comment marker. The delimiter of a literal has no space, backslash or
  parenthesis.
\<close>

definition raw_string_head :: "string \<Rightarrow> bool" where
  "raw_string_head h \<longleftrightarrow> \<not> str_in [CHR ''R'', dquote] h \<and> \<not> str_in ''//'' h \<and>
     (h = [] \<or> \<not> is_word (last h))"

definition raw_delimiter :: "string \<Rightarrow> bool" where
  "raw_delimiter d \<longleftrightarrow>
     (\<forall>c \<in> set d. \<not> is_space c \<and> c \<noteq> backslash \<and> c \<noteq> CHR ''('' \<and> c \<noteq> CHR '')'')"

lemma raw_tail_domain:
  assumes "rest k = ''R'' @ [dquote] @ d @ ''('' @ b" "raw_delimiter d"
    "\<forall>x \<in> set b. not_newline x" "\<not> at_word (prev k)"
  shows "k \<in> Domain (rx_rel raw_tail)"
proof -
  let ?C = "class_has True [Space, Lit backslash, Lit CHR ''('', Lit CHR '')'']"
  have "is_word CHR ''R''" by code_simp
  then have w: "(k, k) \<in> rx_rel WordB"
    using assms(1,4) by (simp add: test_rel_def next_char_def at_word_def)
  have "(k, advance k) \<in> rx_rel (Class False [Lit CHR ''R''])"
    using char_relI [of k "CHR ''R''"] assms(1) by (simp add: class_has_def)
  then have r: "(k, advance k) \<in> rx_rel (rx ''R|u8R|uR|UR|LR'')"
    unfolding raw_prefix_pattern by simp
  let ?k1 = "advance k" let ?k2 = "advance ?k1"
  have r1: "rest ?k1 = dquote # d @ ''('' @ b" using assms(1) by (simp add: advance_def)
  then have q: "(?k1, ?k2) \<in> rx_rel (Class False [Lit dquote])"
    using char_relI [of ?k1 dquote] by (simp add: class_has_def)
  have r2: "rest ?k2 = d @ ''('' @ b" using r1 by (simp add: advance_def)
  from assms(2) have "\<forall>x \<in> set d. ?C x" by (auto simp: raw_delimiter_def class_has_def)
  from char_starI [OF r2 this] obtain k3 where k3: "(?k2, k3) \<in> (char_rel ?C)\<^sup>*"
    "rest k3 = ''('' @ b" by blast
  let ?k4 = "advance k3"
  have p: "(k3, ?k4) \<in> rx_rel (Class False [Lit CHR ''(''])" "rest ?k4 = b @ []"
    using char_relI [of k3 "CHR ''(''"] k3(2) by (simp_all add: class_has_def advance_def)
  from char_starI [OF p(2) assms(3)] obtain k5 where
    k5: "(?k4, k5) \<in> (char_rel not_newline)\<^sup>*" "rest k5 = []" by blast
  have s: "(?k2, k3) \<in> rx_rel (Group 2 (Star True (Class True
      [Space, Lit backslash, Lit CHR ''('', Lit CHR '')''])))"
    and d: "(?k4, k5) \<in> rx_rel (Group 3 (Star True Dot))" and e: "(k5, k5) \<in> rx_rel Eol"
    using k3(1) k5 by (simp_all add: test_rel_def)
  have "(k, k5) \<in> rx_rel raw_tail"
    unfolding rx_rel.simps(5) using w r q s p(1) d e by (meson relcompI)
  then show ?thesis by blast
qed

lemma str_in_iff: "str_in sub s \<longleftrightarrow> (\<exists>u v. s = u @ sub @ v)"
  by (auto simp: str_in_def str_find_None_iff)

text \<open>An occurrence of \<open>R"\<close> in \<open>h R" t\<close> does not begin inside \<open>h\<close>.\<close>

lemma raw_occurrence:
  assumes "\<not> str_in [CHR ''R'', dquote] h" and "u @ [CHR ''R'', dquote] @ v = h @ [CHR ''R'', dquote] @ t"
  shows "length h \<le> length u"
proof (rule ccontr)
  assume "\<not> length h \<le> length u"
  then obtain c w where w: "h = u @ c # w" and r: "[CHR ''R'', dquote] @ v = c # w @ [CHR ''R'', dquote] @ t"
    using assms(2) by (auto simp: append_eq_append_conv2 Cons_eq_append_conv)
  from r w show False
  proof (cases w)
    case Nil
    with r show False by (simp add: dquote_def)
  next
    case (Cons x xs)
    with r w have "h = u @ [CHR ''R'', dquote] @ xs" by simp
    with assms(1) show False by (auto simp: str_in_iff)
  qed
qed

lemma split_unique: "u @ x # a = v @ x # b \<Longrightarrow> x \<notin> set u \<Longrightarrow> x \<notin> set v \<Longrightarrow> u = v \<and> a = b"
proof (induction u arbitrary: v)
  case Nil
  then show ?case by (cases v) auto
next
  case (Cons c u)
  then show ?case by (cases v) auto
qed

lemma append_longer: "u @ v = g @ w \<Longrightarrow> length g \<le> length u \<Longrightarrow> \<exists>z. u = g @ z \<and> z @ v = w"
  by (auto simp: append_eq_append_conv2)

lemma raw_string_match:
  assumes h: "raw_string_head h" and d: "raw_delimiter d"
    and nl: "\<forall>x \<in> set h \<union> set b. not_newline x"
  shows "\<exists>m. Match RAW_STRING_START (h @ [CHR ''R'', dquote] @ d @ ''('' @ b) = Some m \<and>
    grp m 1 = h \<and> grp m 2 = d \<and> grp m 3 = b"
proof -
  let ?line = "h @ [CHR ''R'', dquote] @ d @ ''('' @ b"
  have "\<not> at_word (prev (cursor_at ?line (length h)))"
    using h by (cases "h = []") (auto simp: raw_string_head_def cursor_at_def at_word_def last_conv_nth nth_append)
  with raw_tail_domain [OF _ d, of "cursor_at ?line (length h)" b] nl
  have dom: "cursor_at ?line (length h) \<in> Domain (rx_rel raw_tail)"
    by (simp only: cursor_at_def) simp
  have nl': "\<forall>x \<in> set (take (length h) ?line). not_newline x" using nl by simp
  from dom obtain k where t: "(cursor_at ?line (length h), k) \<in> rx_rel raw_tail" by blast
  have s: "(start_cursor ?line, start_cursor ?line) \<in> rx_rel Bol"
    and g: "(start_cursor ?line, cursor_at ?line (length h)) \<in> rx_rel (Group 1 (Star False Dot))"
    using char_star_cursor [OF _ nl'] by (simp_all add: test_rel_def)
  have "(start_cursor ?line, k) \<in> rx_rel (rx RAW_STRING_START)"
    unfolding raw_string_pattern rx_rel.simps(5) [of Bol] rx_rel.simps(5) [of "Group 1 r" for r]
    by (rule relcompI [OF s relcompI [OF g t]])
  then have "start_cursor ?line \<in> Domain (rx_rel (rx RAW_STRING_START))" by blast
  moreover have "no_backref (rx RAW_STRING_START)" by code_simp
  ultimately obtain m where m: "Match RAW_STRING_START ?line = Some m"
    using Match_None_iff [of RAW_STRING_START ?line] by blast
  from raw_string_division [OF m] obtain x y where
    l: "?line = grp m 1 @ x @ [CHR ''R'', dquote] @ grp m 2 @ [CHR ''(''] @ grp m 3 @ y"
    and x: "x \<in> raw_prefixes" and g2: "CHR ''('' \<notin> set (grp m 2)" and y: "y = [] \<or> y = [CHR 0x0A]" by blast
  have le: "length (grp m 1) \<le> length h" by (rule raw_pattern_lazy [OF m _ nl' dom]) simp
  have ge: "length h \<le> length (grp m 1 @ x)"
    using h l [symmetric]
    by (intro raw_occurrence [where v = "grp m 2 @ ''('' @ grp m 3 @ y" and t = "d @ ''('' @ b"])
      (simp_all add: raw_string_head_def)
  from l le obtain z where z: "h = grp m 1 @ z" and zx: "z @ [CHR ''R'', dquote] @ d @ ''('' @ b =
      x @ [CHR ''R'', dquote] @ grp m 2 @ [CHR ''(''] @ grp m 3 @ y"
    using append_longer [OF l] by blast
  have "z = []"
  proof (rule ccontr)
    assume "z \<noteq> []"
    moreover from ge z append_longer [OF zx [symmetric]] obtain w where "x = z @ w" by auto
    ultimately have "last h \<in> set x" using z by auto
    moreover have "\<forall>c \<in> set (concat [''u8'', ''u'', ''U'', ''L'']). is_word c" by code_simp
    ultimately have "is_word (last h)" using x by auto
    with h \<open>z \<noteq> []\<close> z show False by (simp add: raw_string_head_def)
  qed
  with zx x have "x = []" by auto
  with zx \<open>z = []\<close> have t: "d @ CHR ''('' # b = grp m 2 @ CHR ''('' # grp m 3 @ y" by simp
  have "CHR ''('' \<notin> set d" using d by (auto simp: raw_delimiter_def)
  from split_unique [OF t this g2] have db: "d = grp m 2" "b = grp m 3 @ y" by simp_all
  have "y = []"
  proof (rule ccontr)
    assume "y \<noteq> []"
    with y db(2) have "CHR 0x0A \<in> set b" by simp
    with nl show False by (auto simp: not_newline_def)
  qed
  with db z \<open>z = []\<close> have "grp m 1 = h" "grp m 2 = d" "grp m 3 = b" by simp_all
  with m show ?thesis by blast
qed

lemma raw_loop_literal:
  assumes "raw_string_head h" "raw_delimiter d" "\<forall>x \<in> set h \<union> set b. not_newline x"
  shows "raw_loop (h @ [CHR ''R'', dquote] @ d @ ''('' @ b) =
    (case str_find b ('')'' @ d @ [dquote]) of
       Some e \<Rightarrow> raw_loop (h @ [dquote, dquote] @ drop (e + length d + 2) b)
     | None \<Rightarrow> (h @ [dquote, dquote], Some ('')'' @ d @ [dquote])))"
proof -
  let ?line = "h @ [CHR ''R'', dquote] @ d @ ''('' @ b"
  from raw_string_match [OF assms] obtain m where m: "Match RAW_STRING_START ?line = Some m"
    "grp m 1 = h" "grp m 2 = d" "grp m 3 = b" by blast
  have "Match IN_LINE_COMMENT h = None"
    using assms(1) in_line_comment_slashes [of h] by (metis raw_string_head_def str_in_iff)
  with m show ?thesis
    by (subst raw_loop.simps) (simp add: Let_def split: option.splits)
qed

lemma raw_loop_none:
  assumes "\<not> str_in [CHR ''R'', dquote] line"
  shows "raw_loop line = (line, None)"
proof -
  have "Match RAW_STRING_START line = None"
  proof (cases "Match RAW_STRING_START line")
    case (Some m)
    from raw_string_division [OF Some] obtain x y where
      "line = (grp m 1 @ x) @ [CHR ''R'', dquote] @ (grp m 2 @ [CHR ''(''] @ grp m 3 @ y)"
      unfolding append.assoc by blast
    with assms show ?thesis unfolding str_in_iff by blast
  qed simp
  then show ?thesis by (simp add: raw_loop.simps)
qed

lemma raw_start_skip:
  "CHR ''R'' \<notin> set w \<Longrightarrow> str_in [CHR ''R'', dquote] (w @ s) \<Longrightarrow> str_in [CHR ''R'', dquote] s"
proof (induction w)
  case (Cons c w)
  from Cons.prems(2) obtain u v where "c # w @ s = u @ [CHR ''R'', dquote] @ v"
    by (auto simp: str_in_iff)
  with Cons.prems(1) have "str_in [CHR ''R'', dquote] (w @ s)"
    by (cases u) (auto simp: str_in_iff)
  with Cons show ?case by simp
qed simp

lemma raw_lines_loop_inside:
  "\<forall>l \<in> set ls. \<not> str_in d l \<Longrightarrow>
     raw_lines_loop (Some d) (ls @ ls') =
     bind_res (raw_lines_loop (Some d) ls') (\<lambda>r. Inr (map (\<lambda>_. [dquote, dquote]) ls @ r))"
proof (induction ls)
  case Nil
  then show ?case by (cases "raw_lines_loop (Some d) ls'") auto
next
  case (Cons l ls)
  then have "raw_line (Some d) l = Inr ([dquote, dquote], Some d)"
    by (simp add: raw_line_def str_in_def)
  with Cons show ?case by (cases "raw_lines_loop (Some d) ls'") auto
qed

text \<open>
  C10: what becomes of a C++11 raw string literal \<open>R"d(...)d"\<close> that begins on one line and
  ends on another. The code \<open>h\<close> before it is kept and followed by \<open>""\<close>; every line strictly
  inside it becomes the line \<open>""\<close>, not a blank line as the docstring's picture (``replaced by
  blank line'') and the comment in the loop (``append a blank line'') have it; the line that
  ends it keeps its indentation, gets \<open>""\<close>, and keeps the text after the literal. Conditions:
  \<open>h\<close> does not end in a word character and contains neither \<open>R"\<close> nor \<open>//\<close>
  (\<open>raw_string_head\<close>), and \<open>h\<close> and \<open>b\<close> are on one line; the delimiter \<open>d\<close> has no white space, backslash or parenthesis
  (\<open>raw_delimiter\<close>); \<open>)d"\<close> occurs neither in the rest \<open>b\<close> of the first line nor in a line
  between, and first in the last line at \<open>e\<close>; the text after it has no \<open>R"\<close>.
\<close>

theorem raw_string_emptied:
  assumes "raw_string_head h" "raw_delimiter d" "\<forall>x \<in> set h \<union> set b. not_newline x"
    and "\<not> str_in ('')'' @ d @ [dquote]) b"
    and "\<forall>l \<in> set mids. \<not> str_in ('')'' @ d @ [dquote]) l"
    and "str_find end_line ('')'' @ d @ [dquote]) = Some e"
    and "\<not> str_in [CHR ''R'', dquote] (drop (e + length d + 2) end_line)"
  shows "CleanseRawStrings ((h @ [CHR ''R'', dquote] @ d @ ''('' @ b) # mids @ [end_line]) =
    Inr ((h @ [dquote, dquote]) # map (\<lambda>_. [dquote, dquote]) mids @
      [takeWhile is_space end_line @ [dquote, dquote] @ drop (e + length d + 2) end_line])"
proof -
  let ?D = "'')'' @ d @ [dquote]"
  let ?l = "takeWhile is_space end_line @ [dquote, dquote]"
  from assms(4) have "str_find b ?D = None" by (simp add: str_in_def)
  with raw_loop_literal [OF assms(1-3)] have start:
    "raw_line None (h @ [CHR ''R'', dquote] @ d @ ''('' @ b) = Inr (h @ [dquote, dquote], Some ?D)"
    by (simp add: raw_line_def)
  from str_find_SomeD [OF assms(6)] have "CHR '')'' \<in> set end_line" by auto
  from leading_space [OF close_paren_not_space this] obtain m where
    m: "Match LEADING_SPACE end_line = Some m" "grp m 1 = takeWhile is_space end_line" by blast
  have "\<not> is_space CHR ''R''" "CHR ''R'' \<noteq> dquote" by (code_simp, simp add: dquote_def)
  then have "CHR ''R'' \<notin> set ?l" by (auto dest: set_takeWhileD)
  with assms(7) raw_start_skip have "\<not> str_in [CHR ''R'', dquote] (?l @ drop (e + length d + 2) end_line)"
    by blast
  from raw_loop_none [OF this] have "raw_line (Some ?D) end_line =
      Inr (?l @ drop (e + length d + 2) end_line, None)"
    using assms(6) m by (simp add: raw_line_def)
  with start raw_lines_loop_inside [OF assms(5), of "[end_line]"] show ?thesis
    by (simp add: CleanseRawStrings_def)
qed

theorem raw_string_emptied_witness:
  "CleanseRawStrings [''s = R'' @ [dquote] @ ''x(a // b'', ''  c'', ''  )x'' @ [dquote] @ '';''] =
     Inr [''s = '' @ [dquote, dquote], [dquote, dquote], ''  '' @ [dquote, dquote] @ '';'']"
proof -
  have "raw_string_head ''s = ''" "raw_delimiter ''x''" "\<not> str_in ('')x'' @ [dquote]) ''a // b''"
    "\<not> str_in ('')x'' @ [dquote]) ''  c''"
    "str_find (''  )x'' @ [dquote] @ '';'') ('')x'' @ [dquote]) = Some 2"
    "\<not> str_in [CHR ''R'', dquote] '';''" "takeWhile is_space (''  )x'' @ [dquote] @ '';'') = ''  ''"
    "\<forall>x \<in> set (''s = '' @ ''a // b''). not_newline x"
    by code_simp+
  then show ?thesis
    using raw_string_emptied [of "''s = ''" "''x''" "''a // b''" "[''  c'']" "''  )x'' @ [dquote] @ '';''" 2]
    by simp
qed

section \<open>Properties of the multi-line comment pass\<close>

text \<open>
  A reference definition: a comment that starts on a line is masked up to the line that
  ends it, and when no line ends it the rest stays as it is.
\<close>

function (sequential) mask_comments :: "string list \<Rightarrow> string list" where
  "mask_comments [] = []"
| "mask_comments (l # ls) =
     (if starts_multiline_comment l then
        (case first_index ends_multiline_comment (l # ls) of
           None \<Rightarrow> l # ls
         | Some n \<Rightarrow> replicate (Suc n) ''/**/'' @ mask_comments (drop n ls))
      else l # mask_comments ls)"
  by pat_completeness auto
termination
  by (relation "measure length") auto

lemma FindStart_first_index:
  "lineix \<le> length lines \<Longrightarrow> FindNextMultiLineCommentStart lines lineix =
     (case first_index starts_multiline_comment (drop lineix lines) of
        None \<Rightarrow> length lines | Some n \<Rightarrow> lineix + n)"
proof (induction lines lineix rule: FindNextMultiLineCommentStart.induct)
  case (1 lines lineix)
  show ?case
  proof (cases "lineix < length lines")
    case True
    with 1 show ?thesis
      by (subst FindNextMultiLineCommentStart.simps)
        (auto simp flip: Cons_nth_drop_Suc split: option.splits)
  qed (use 1 in \<open>simp add: FindNextMultiLineCommentStart.simps\<close>)
qed

lemma FindEnd_first_index:
  "lineix \<le> length lines \<Longrightarrow> FindNextMultiLineCommentEnd lines lineix =
     (case first_index ends_multiline_comment (drop lineix lines) of
        None \<Rightarrow> length lines | Some n \<Rightarrow> lineix + n)"
proof (induction lines lineix rule: FindNextMultiLineCommentEnd.induct)
  case (1 lines lineix)
  show ?case
  proof (cases "lineix < length lines")
    case True
    with 1 show ?thesis
      by (subst FindNextMultiLineCommentEnd.simps)
        (auto simp flip: Cons_nth_drop_Suc split: option.splits)
  qed (use 1 in \<open>simp add: FindNextMultiLineCommentEnd.simps\<close>)
qed

lemma RemoveRange_parts:
  "b \<le> e \<Longrightarrow> e \<le> length lines \<Longrightarrow> RemoveMultiLineCommentsFromRange lines b e =
     take b lines @ replicate (e - b) ''/**/'' @ drop e lines"
proof (induction e)
  case (Suc e)
  show ?case
  proof (cases "b = Suc e")
    case False
    with Suc.prems have "b \<le> e" "e < length lines" by auto
    with Suc.IH have "RemoveMultiLineCommentsFromRange lines b (Suc e) =
      (take b lines @ replicate (e - b) ''/**/'' @ drop e lines)[e := ''/**/'']"
      by (simp add: RemoveMultiLineCommentsFromRange_def)
    also have "\<dots> = take b lines @ replicate (e - b) ''/**/'' @ ''/**/'' # drop (Suc e) lines"
      using \<open>b \<le> e\<close> \<open>e < length lines\<close> by (simp add: list_update_append flip: Cons_nth_drop_Suc)
    also have "\<dots> = take b lines @ replicate (Suc e - b) ''/**/'' @ drop (Suc e) lines"
      using \<open>b \<le> e\<close> by (simp add: Suc_diff_le replicate_app_Cons_same)
    finally show ?thesis .
  qed (simp add: RemoveMultiLineCommentsFromRange_def)
qed (simp add: RemoveMultiLineCommentsFromRange_def)

text \<open>The line on which a comment starts that no line ends.\<close>

function (sequential) open_comment :: "string list \<Rightarrow> nat option" where
  "open_comment [] = None"
| "open_comment (l # ls) =
     (if starts_multiline_comment l then
        (case first_index ends_multiline_comment (l # ls) of
           None \<Rightarrow> Some 0
         | Some n \<Rightarrow> map_option (\<lambda>k. Suc n + k) (open_comment (drop n ls)))
      else map_option Suc (open_comment ls))"
  by pat_completeness auto
termination
  by (relation "measure length") auto

lemma mask_comments_skip:
  "first_index starts_multiline_comment ls = Some n \<Longrightarrow>
     mask_comments ls = take n ls @ mask_comments (drop n ls) \<and>
     open_comment ls = map_option (\<lambda>k. n + k) (open_comment (drop n ls))"
proof (induction ls arbitrary: n)
  case (Cons l ls)
  show ?case
  proof (cases "starts_multiline_comment l")
    case True
    with Cons.prems have "n = 0" by simp
    then show ?thesis by (simp add: option.map_ident)
  next
    case False
    with Cons.prems obtain k where k: "first_index starts_multiline_comment ls = Some k" "n = Suc k"
      by auto
    from Cons.IH [OF k(1)] False k(2) show ?thesis by (auto simp: option.map_comp comp_def)
  qed
qed simp

lemma mask_comments_none:
  "first_index starts_multiline_comment ls = None \<Longrightarrow> mask_comments ls = ls \<and> open_comment ls = None"
  by (induction ls) (auto split: if_splits)

lemma mask_comments_start:
  assumes "ls \<noteq> []" "starts_multiline_comment (hd ls)"
  shows "mask_comments ls = (case first_index ends_multiline_comment ls of None \<Rightarrow> ls
      | Some n \<Rightarrow> replicate (Suc n) ''/**/'' @ mask_comments (drop (Suc n) ls))"
    "open_comment ls = (case first_index ends_multiline_comment ls of None \<Rightarrow> Some 0
      | Some n \<Rightarrow> map_option (\<lambda>k. Suc n + k) (open_comment (drop (Suc n) ls)))"
proof -
  obtain l xs where ls: "ls = l # xs" using assms(1) by (cases ls) auto
  show "mask_comments ls = (case first_index ends_multiline_comment ls of None \<Rightarrow> ls
      | Some n \<Rightarrow> replicate (Suc n) ''/**/'' @ mask_comments (drop (Suc n) ls))"
    "open_comment ls = (case first_index ends_multiline_comment ls of None \<Rightarrow> Some 0
      | Some n \<Rightarrow> map_option (\<lambda>k. Suc n + k) (open_comment (drop (Suc n) ls)))"
    using assms(2) unfolding ls mask_comments.simps(2) open_comment.simps(2) drop_Suc_Cons
    by (simp_all only: list.sel if_True)
qed

definition comment_errors :: "string \<Rightarrow> nat option \<Rightarrow> effect list" where
  "comment_errors filename n = (case n of None \<Rightarrow> []
     | Some i \<Rightarrow> [ErrorCall filename (int i + 1) ''readability/multiline_comment'' 5
                  ''Could not find end of multi-line comment''])"

lemma remove_comments_loop_mask:
  "lineix \<le> length lines \<Longrightarrow> remove_comments_loop filename lines lineix =
     (take lineix lines @ mask_comments (drop lineix lines),
      comment_errors filename (map_option (\<lambda>k. lineix + k) (open_comment (drop lineix lines))))"
proof (induction filename lines lineix rule: remove_comments_loop.induct)
  case (1 filename lines lineix)
  let ?b = "FindNextMultiLineCommentStart lines lineix"
  let ?e = "FindNextMultiLineCommentEnd lines ?b"
  show ?case
  proof (cases "first_index starts_multiline_comment (drop lineix lines)")
    case None
    with FindStart_first_index [OF "1.prems"] mask_comments_none [OF None] show ?thesis
      by (subst remove_comments_loop.simps) (auto simp: comment_errors_def)
  next
    case (Some n)
    from first_index_SomeD [OF Some] have n: "n < length lines - lineix"
      "starts_multiline_comment (lines ! (lineix + n))" using "1.prems" by simp_all
    from FindStart_first_index [OF "1.prems"] Some have b: "?b = lineix + n" by simp
    note skip = mask_comments_skip [OF Some]
    let ?rest = "drop (lineix + n) lines"
    have st: "?rest \<noteq> []" "starts_multiline_comment (hd ?rest)"
      using n by (simp_all add: hd_drop_conv_nth)
    have fe: "?e = (case first_index ends_multiline_comment ?rest of None \<Rightarrow> length lines
        | Some k \<Rightarrow> lineix + n + k)"
      unfolding b using FindEnd_first_index [of "lineix + n" lines] n(1) by simp
    have tk: "take lineix lines @ take n (drop lineix lines) = take (lineix + n) lines"
      by (simp add: take_add)
    have dr: "drop n (drop lineix lines) = ?rest" by (simp add: add.commute)
    show ?thesis
    proof (cases "first_index ends_multiline_comment ?rest")
      case None
      with fe b n st skip tk dr mask_comments_start [OF st] "1.prems" show ?thesis
        by (subst remove_comments_loop.simps)
          (auto simp: Let_def comment_errors_def simp flip: append_assoc)
    next
      case (Some k)
      from first_index_SomeD [OF Some] n have k: "lineix + n + k < length lines" by auto
      from Some fe have e: "?e = lineix + n + k" by simp
      let ?ls = "RemoveMultiLineCommentsFromRange lines (lineix + n) (lineix + n + k + 1)"
      have ls: "?ls = take (lineix + n) lines @ replicate (Suc k) ''/**/'' @ drop (Suc k) ?rest"
        using RemoveRange_parts [of "lineix + n" "lineix + n + k + 1" lines] k
        by (simp add: add.commute add.left_commute)
      have "remove_comments_loop filename lines lineix =
          remove_comments_loop filename ?ls (lineix + n + k + 1)"
        using k b e by (subst remove_comments_loop.simps) (simp add: Let_def)
      also have "\<dots> = (take (lineix + n + k + 1) ?ls @ mask_comments (drop (lineix + n + k + 1) ?ls),
          comment_errors filename (map_option (\<lambda>j. lineix + n + k + 1 + j)
            (open_comment (drop (lineix + n + k + 1) ?ls))))"
        using "1.IH" [OF _ refl _ refl] k b e by simp
      also have "drop (lineix + n + k + 1) ?ls = drop (Suc k) ?rest" using ls k n by simp
      also have "take (lineix + n + k + 1) ?ls = take (lineix + n) lines @ replicate (Suc k) ''/**/''"
        using ls k n by simp
      finally show ?thesis
        using skip dr tk Some mask_comments_start [OF st]
        by (simp add: option.map_comp comp_def add.assoc flip: append_assoc)
    qed
  qed
qed

text \<open>
  C12: \<open>RemoveMultiLineComments\<close>, which rewrites the list of lines in place with two index
  searches, computes the one-pass reference: the comments that end are masked line by line
  with \<open>/**/\<close>, and exactly when a comment has no end is one error reported, at the line on
  which it starts.
\<close>

theorem remove_comments_reference:
  "RemoveMultiLineComments filename lines =
     (mask_comments lines, comment_errors filename (open_comment lines))"
  by (simp add: RemoveMultiLineComments_def remove_comments_loop_mask option.map_ident)

lemma masked_not_start: "\<not> starts_multiline_comment ''/**/''"
  by code_simp

lemma mask_comments_lines:
  "list_all2 (\<lambda>a b. a = b \<or> a = ''/**/'') (mask_comments ls) ls"
proof (induction ls rule: mask_comments.induct)
  case (2 l ls)
  show ?case
  proof (cases "starts_multiline_comment l")
    case True
    show ?thesis
    proof (cases "first_index ends_multiline_comment (l # ls)")
      case None
      have "list_all2 (\<lambda>a b. a = b \<or> a = ''/**/'') (l # ls) (l # ls)" by (simp add: list_all2_same)
      with True None show ?thesis by simp
    next
      case (Some n)
      from first_index_SomeD [OF Some] have n: "n \<le> length ls" by simp
      have "list_all2 (\<lambda>a b. a = b \<or> a = ''/**/'') (replicate (Suc n) ''/**/'') (take (Suc n) (l # ls))"
        using n by (auto simp: list_all2_conv_all_nth nth_Cons split: nat.splits)
      from list_all2_appendI [OF this "2.IH"(1) [OF True Some]] n True Some show ?thesis by simp
    qed
  qed (use 2 in simp)
qed simp

lemma mask_comments_closed: "open_comment ls = None \<Longrightarrow> l \<in> set (mask_comments ls) \<Longrightarrow> \<not> starts_multiline_comment l"
proof (induction ls rule: mask_comments.induct)
  case (2 x ls)
  then show ?case using masked_not_start by (auto split: if_splits option.splits)
qed simp

text \<open>
  C18: after \<open>RemoveMultiLineComments\<close> the list has the same length, every line is the old
  one or \<open>/**/\<close>, and unless an error was reported no line starts a multi-line comment.
\<close>

theorem remove_comments_result:
  assumes "RemoveMultiLineComments filename lines = (lines', errors)"
  shows "length lines' = length lines \<and>
    (\<forall>i < length lines. lines' ! i = lines ! i \<or> lines' ! i = ''/**/'') \<and>
    (errors = [] \<longrightarrow> (\<forall>l \<in> set lines'. \<not> starts_multiline_comment l))"
proof (intro conjI)
  from assms have r: "lines' = mask_comments lines" "errors = comment_errors filename (open_comment lines)"
    by (simp_all add: RemoveMultiLineComments_def remove_comments_loop_mask option.map_ident)
  with mask_comments_lines [of lines] show "length lines' = length lines"
    "\<forall>i < length lines. lines' ! i = lines ! i \<or> lines' ! i = ''/**/''"
    by (auto simp: list_all2_conv_all_nth)
  from r mask_comments_closed [of lines]
  show "errors = [] \<longrightarrow> (\<forall>l \<in> set lines'. \<not> starts_multiline_comment l)"
    by (auto simp: comment_errors_def split: option.splits)
qed

theorem remove_comments_result_witness:
  "\<not> starts_multiline_comment ''int b;'' \<and> \<not> starts_multiline_comment ''/**/''"
proof -
  have "RemoveMultiLineComments ''f.h'' [''int a;'', ''/* x'', '' y */'', ''int b;''] =
    ([''int a;'', ''/**/'', ''/**/'', ''int b;''], [])" by code_simp
  from remove_comments_result [OF this] show ?thesis by simp
qed

section \<open>Properties of the line pass\<close>

abbreviation single_line :: "string \<Rightarrow> bool" where
  "single_line l \<equiv> CHR 0x0A \<notin> set l"

lemma single_line_not_newline: "single_line l \<longleftrightarrow> (\<forall>x \<in> set l. not_newline x)"
  by (auto simp: not_newline_def)

lemma digit_separators_pattern:
  "\<exists>r. rx DIGIT_SEPARATORS = Cat Bol (Cat (Group 1 (Star True r)) (Cat (Group 2 (Star True Dot)) Eol)) \<and>
     no_backref r \<and> groups_of r = []"
proof -
  have "rx DIGIT_SEPARATORS = Cat Bol (Cat (Group 1 (Star True (rx (raw ''`'?[0-9a-zA-Z_]''))))
      (Cat (Group 2 (Star True Dot)) Eol))" by code_simp
  moreover have "no_backref (rx (raw ''`'?[0-9a-zA-Z_]''))" "groups_of (rx (raw ''`'?[0-9a-zA-Z_]'')) = []"
    by code_simp+
  ultimately show ?thesis by blast
qed

lemma digit_separators_total:
  assumes "single_line s"
  shows "\<exists>m. Match DIGIT_SEPARATORS s = Some m"
proof -
  from digit_separators_pattern obtain r where
    r: "rx DIGIT_SEPARATORS = Cat Bol (Cat (Group 1 (Star True r)) (Cat (Group 2 (Star True Dot)) Eol))"
    "no_backref r" by blast
  from char_starI [of "start_cursor s" s "[]" not_newline] assms obtain k where
    k: "(start_cursor s, k) \<in> (char_rel not_newline)\<^sup>*" "rest k = []"
    by (auto simp: not_newline_def)
  then have "(start_cursor s, start_cursor s) \<in> rx_rel Bol" "(k, k) \<in> rx_rel Eol"
    "(start_cursor s, start_cursor s) \<in> rx_rel (Group 1 (Star True r))"
    "(start_cursor s, k) \<in> rx_rel (Group 2 (Star True Dot))" by (simp_all add: test_rel_def)
  then have "(start_cursor s, k) \<in> rx_rel (rx DIGIT_SEPARATORS)"
    unfolding r rx_rel.simps(5) by (meson relcompI)
  moreover have "no_backref (rx DIGIT_SEPARATORS)" using r by simp
  ultimately show ?thesis using Match_None_iff [of DIGIT_SEPARATORS s] by blast
qed

lemma group_subset:
  assumes "Match p s = Some m"
  shows "set (grp m n) \<subseteq> set s"
proof (cases "group m n")
  case None
  then show ?thesis by (simp add: grp_def)
next
  case (Some t)
  note m = assms [unfolded Match_def re_match_def]
  show ?thesis
  proof (cases "n = 0")
    case True
    with Some match_at_span(4) [OF m] show ?thesis by (auto simp: grp_def group_def dest: in_set_takeD)
  next
    case False
    from match_at_group [OF m Some this] obtain k1 and k2 :: cursor where
      k: "reach (start_cursor s) k1" "rest k1 = t @ rest k2" by auto
    from reach_text [OF k(1)] k(2) Some show ?thesis
      by (metis Un_upper1 Un_upper2 grp_def option.case(2) order_trans set_append start_cursor_sel(1))
  qed
qed

lemma collapse_loop_total: "single_line elided \<Longrightarrow> \<exists>s. collapse_loop collapsed elided = Inr s"
proof (induction collapsed elided rule: collapse_loop.induct)
  case (1 collapsed elided)
  show ?case
  proof (cases "Match FIRST_QUOTE elided")
    case None
    then show ?thesis by (simp add: collapse_loop.simps)
  next
    case (Some m)
    have s3: "single_line (grp m 3)" using group_subset [OF Some, of 3] "1.prems" by blast
    then have d: "single_line (drop n (grp m 3))" for n by (meson in_set_dropD)
    from s3 digit_separators_total [of "squote # grp m 3"] obtain ml where
      ml: "Match DIGIT_SEPARATORS (squote # grp m 3) = Some ml" by (auto simp: squote_def)
    have "single_line (grp ml 2)" using group_subset [OF ml, of 2] s3 by (auto simp: squote_def)
    with "1.IH" Some d ml show ?thesis
      by (subst collapse_loop.simps) (auto split: option.splits)
  qed
qed

lemma CollapseStrings_total: "single_line l \<Longrightarrow> \<exists>s. CollapseStrings l = Inr s"
proof -
  assume "single_line l"
  moreover have "set (re_sub (rx RE_PATTERN_CLEANSE_LINE_ESCAPES) (\<lambda>_. []) l) \<subseteq> set l"
    using sub_from_delete [of "rx RE_PATTERN_CLEANSE_LINE_ESCAPES" False "start_cursor l"]
    by (auto simp: re_sub_def elim: list_emb_set)
  ultimately show ?thesis
    unfolding CollapseStrings_def using collapse_loop_total by auto
qed

text \<open>The raw string pass keeps lines free of newlines.\<close>

lemma raw_loop_set: "set (fst (raw_loop line)) \<subseteq> insert dquote (set line)"
proof (induction line rule: raw_loop.induct)
  case (1 line)
  show ?case
  proof (cases "Match RAW_STRING_START line")
    case (Some m)
    then have g: "set (grp m 1) \<subseteq> set line" "set (drop n (grp m 3)) \<subseteq> set line" for n
      using group_subset [OF Some, of 1] group_subset [OF Some, of 3] by (auto dest: in_set_dropD)
    show ?thesis
    proof (cases "Match IN_LINE_COMMENT (grp m 1) = None")
      case True
      show ?thesis
      proof (cases "str_find (grp m 3) ('')'' @ grp m 2 @ [dquote])")
        case None
        with Some True g show ?thesis by (subst raw_loop.simps) auto
      next
        case (Some e)
        from "1.IH" [OF \<open>Match RAW_STRING_START line = Some m\<close> _ refl Some] True
        have "set (fst (raw_loop (grp m 1 @ [dquote, dquote] @
            drop (e + length ('')'' @ grp m 2 @ [dquote])) (grp m 3)))) \<subseteq>
          insert dquote (set (grp m 1 @ [dquote, dquote] @
            drop (e + length ('')'' @ grp m 2 @ [dquote])) (grp m 3)))" by simp
        also have "\<dots> \<subseteq> insert dquote (set line)" using g by auto
        finally show ?thesis
          using \<open>Match RAW_STRING_START line = Some m\<close> Some True
          by (subst raw_loop.simps) (simp add: Let_def)
      qed
    qed (use Some in \<open>subst raw_loop.simps, auto\<close>)
  qed (simp add: raw_loop.simps subset_insertI)
qed

lemma raw_line_single:
  assumes "raw_line delimiter line = Inr (line', delimiter')" "single_line line"
  shows "single_line line'"
proof -
  have q: "CHR 0x0A \<noteq> dquote" by (simp add: dquote_def)
  consider "line' = [dquote, dquote]" | "line' = fst (raw_loop line)"
    | m n where "Match LEADING_SPACE line = Some m"
        "line' = fst (raw_loop (grp m 1 @ [dquote, dquote] @ drop n line))"
    using assms(1) by (auto simp: raw_line_def split: option.splits) (metis fst_conv)+
  then have "set line' \<subseteq> insert dquote (set line)"
  proof cases
    case (3 m n)
    have "set (grp m 1 @ [dquote, dquote] @ drop n line) \<subseteq> insert dquote (set line)"
      using group_subset [OF 3(1), of 1] by (auto dest: in_set_dropD)
    with 3(2) raw_loop_set [of "grp m 1 @ [dquote, dquote] @ drop n line"] show ?thesis by blast
  qed (use raw_loop_set [of line] in auto)
  with q assms(2) show ?thesis by blast
qed

lemma raw_lines_loop_single:
  "raw_lines_loop delimiter lines = Inr ls \<Longrightarrow> \<forall>l \<in> set lines. single_line l \<Longrightarrow>
     \<forall>l \<in> set ls. single_line l"
proof (induction lines arbitrary: delimiter ls)
  case (Cons line lines)
  from Cons.prems(1) obtain line' delimiter' ls' where
    r: "raw_line delimiter line = Inr (line', delimiter')" "raw_lines_loop delimiter' lines = Inr ls'"
      "ls = line' # ls'" by auto
  with Cons.IH [OF r(2)] raw_line_single [OF r(1)] Cons.prems(2) show ?case by simp
qed simp

lemma cleanse_fold:
  "\<forall>l \<in> set ls. single_line l \<Longrightarrow>
     \<exists>elided. fold_res cleanse_line ls (es, cs) = Inr (es @ elided, cs @ map CleanseComments ls) \<and>
       list_all2 (\<lambda>e l. \<exists>s. CollapseStrings l = Inr s \<and> e = CleanseComments s) elided ls"
proof (induction ls arbitrary: es cs)
  case (Cons l ls)
  from CollapseStrings_total Cons.prems obtain s where s: "CollapseStrings l = Inr s" by auto
  from Cons.IH [of "es @ [CleanseComments s]" "cs @ [CleanseComments l]"] Cons.prems s
  show ?case by (auto simp: cleanse_line_def list_all2_Cons2)
qed simp

text \<open>
  C11: for lines without newline characters (what splitting a file gives) the constructor of
  \<open>CleansedLines\<close> returns, and the four copies have as many lines as the file, the number
  that \<open>NumLines\<close> reports; line by line they are the raw line, the line without raw
  strings, that line without comments, and that line without strings and comments.
\<close>

theorem cleansed_lines_correct:
  assumes "\<forall>l \<in> set lines. single_line l"
  shows "\<exists>c. CleansedLines lines = Inr c \<and> NumLines c = length lines \<and> cl_raw_lines c = lines \<and>
    CleanseRawStrings lines = Inr (cl_lines_without_raw_strings c) \<and>
    length (cl_lines_without_raw_strings c) = length lines \<and>
    cl_lines c = map CleanseComments (cl_lines_without_raw_strings c) \<and>
    length (cl_elided c) = length lines \<and>
    (\<forall>i < length lines. \<exists>s. CollapseStrings (cl_lines_without_raw_strings c ! i) = Inr s \<and>
       cl_elided c ! i = CleanseComments s)"
proof -
  have "\<exists>ls. raw_lines_loop None lines = Inr ls \<and> length ls = length lines"
    by (rule raw_lines_loop_total) simp
  then obtain ls where ls: "raw_lines_loop None lines = Inr ls" "length ls = length lines" by blast
  from cleanse_fold [OF raw_lines_loop_single [OF ls(1) assms], of "[]" "[]"] obtain elided where
    e: "fold_res cleanse_line ls ([], []) = Inr (elided, map CleanseComments ls)"
    "list_all2 (\<lambda>e l. \<exists>s. CollapseStrings l = Inr s \<and> e = CleanseComments s) elided ls" by auto
  with ls show ?thesis
    by (auto simp: CleansedLines_def CleanseRawStrings_def NumLines_def list_all2_conv_all_nth)
qed

theorem cleansed_lines_correct_witness:
  "\<exists>c. CleansedLines [''int a; // x'', ''f();''] = Inr c \<and> NumLines c = 2"
  using cleansed_lines_correct [of "[''int a; // x'', ''f();'']"] by auto

section \<open>What the line pass removes\<close>

lemma rx_rel_rest: "no_backref r \<Longrightarrow> (k, k') \<in> rx_rel r \<Longrightarrow> \<exists>w. rest k = w @ rest k'"
proof -
  assume "no_backref r" "(k, k') \<in> rx_rel r"
  then obtain c where "(k', c) \<in> set (matches r k [])" using matches_rx_rel [of r k "[]"] by force
  from reach_text [OF matches_reach [OF this]] show ?thesis by metis
qed

lemma c_comments_pattern:
  "rx RE_PATTERN_CLEANSE_LINE_C_COMMENTS =
     Group 1 (Alt (Cat (rx (raw ''`s*'')) (Cat (Class False [Lit CHR ''/''])
         (rx (raw ''`*(?:[^*]|`*(?!/))*`*/`s*$''))))
       (Alt (Cat (Class False [Lit CHR ''/'']) (rx (raw ''`*(?:[^*]|`*(?!/))*`*/`s+'')))
       (Alt (Cat (rx (raw ''`s+'')) (Cat (Class False [Lit CHR ''/''])
         (rx (raw ''`*(?:[^*]|`*(?!/))*`*/(?=`W)''))))
       (Cat (Class False [Lit CHR ''/'']) (rx (raw ''`*(?:[^*]|`*(?!/))*`*/''))))))"
  by code_simp

lemma c_comment_slash:
  assumes "(k, k') \<in> rx_rel (rx RE_PATTERN_CLEANSE_LINE_C_COMMENTS)"
  shows "CHR ''/'' \<in> set (rest k)"
proof -
  have sl: "CHR ''/'' \<in> set (rest k1)" if "(k1, k2) \<in> rx_rel (Class False [Lit CHR ''/''])" for k1 k2
    using that by (auto simp: class_has_def dest!: char_rel_rest)
  have nb: "no_backref (rx (raw ''`s*''))" "no_backref (rx (raw ''`s+''))" by code_simp+
  from assms obtain k1 k2 where "k1 = k \<or> (k, k1) \<in> rx_rel (rx (raw ''`s*'')) \<or>
      (k, k1) \<in> rx_rel (rx (raw ''`s+''))" "(k1, k2) \<in> rx_rel (Class False [Lit CHR ''/''])"
    unfolding c_comments_pattern rx_rel.simps(5,6,8) by blast
  with sl [of k1 k2] rx_rel_rest [OF nb(1), of k k1] rx_rel_rest [OF nb(2), of k k1] show ?thesis by auto
qed

lemma re_sub_needs:
  assumes "no_backref r" "\<And>k k'. (k, k') \<in> rx_rel r \<Longrightarrow> c \<in> set (rest k)" "c \<notin> set s"
  shows "re_sub r rep s = s"
proof (rule re_sub_no_match, intro allI impI)
  fix i
  have "c \<notin> set (rest (cursor_at s i))" using assms(3) by (auto simp: cursor_at_def dest: in_set_dropD)
  with assms(2) have "cursor_at s i \<notin> Domain (rx_rel r)" by blast
  then show "match_at r (cursor_at s i) = None" by (simp add: match_at_None_iff [OF assms(1)])
qed

lemma no_c_comment: "CHR ''/'' \<notin> set s \<Longrightarrow> re_sub (rx RE_PATTERN_CLEANSE_LINE_C_COMMENTS) rep s = s"
  by (rule re_sub_needs [OF _ c_comment_slash]) code_simp

lemma escapes_pattern:
  \<open>rx RE_PATTERN_CLEANSE_LINE_ESCAPES =
     Cat (Class False [Lit backslash]) (rx (raw ''([abfnrtv?"```']|`d+|x[0-9a-fA-F]+)''))\<close>
  by code_simp

lemma no_escape:
  assumes "backslash \<notin> set s"
  shows "re_sub (rx RE_PATTERN_CLEANSE_LINE_ESCAPES) rep s = s"
proof (rule re_sub_needs [OF _ _ assms])
  show "no_backref (rx RE_PATTERN_CLEANSE_LINE_ESCAPES)" by code_simp
  fix k k'
  assume "(k, k') \<in> rx_rel (rx RE_PATTERN_CLEANSE_LINE_ESCAPES)"
  then obtain k1 where "(k, k1) \<in> rx_rel (Class False [Lit backslash])"
    unfolding escapes_pattern rx_rel.simps(5) by blast
  then show "backslash \<in> set (rest k)" by (auto simp: class_has_def dest!: char_rel_rest)
qed

definition plain_code :: "string \<Rightarrow> bool" where
  "plain_code l \<longleftrightarrow> set l \<inter> {dquote, squote, backslash, CHR ''/''} = {}"

lemma CleanseComments_plain: "CHR ''/'' \<notin> set l \<Longrightarrow> CleanseComments l = l"
proof -
  assume "CHR ''/'' \<notin> set l"
  then have "str_find l ''//'' = None" by (auto simp: str_find_None_iff)
  with no_c_comment [OF \<open>CHR ''/'' \<notin> set l\<close>] show ?thesis by (simp add: CleanseComments_def)
qed

lemma no_quote_match: "dquote \<notin> set l \<Longrightarrow> squote \<notin> set l \<Longrightarrow> Match FIRST_QUOTE l = None"
proof (cases "Match FIRST_QUOTE l")
  case (Some m)
  assume n: "dquote \<notin> set l" "squote \<notin> set l"
  from first_quote_division [OF Some] have "set (grp m 2) \<subseteq> set l" "set (grp m 2) \<inter> {dquote, squote} \<noteq> {}"
    using group_subset [OF Some] by auto
  with n show ?thesis by blast
qed simp

lemma CollapseStrings_plain: "plain_code l \<Longrightarrow> CollapseStrings l = Inr l"
proof -
  assume "plain_code l"
  then have "dquote \<notin> set l" "squote \<notin> set l" "backslash \<notin> set l" by (auto simp: plain_code_def)
  then show ?thesis
    by (simp add: CollapseStrings_def no_escape collapse_loop.simps no_quote_match)
qed

lemma raw_lines_loop_plain: "\<forall>l \<in> set ls. plain_code l \<Longrightarrow> raw_lines_loop None ls = Inr ls"
proof (induction ls)
  case (Cons l ls)
  then have "\<not> str_in [CHR ''R'', dquote] l" by (auto simp: plain_code_def str_in_iff)
  with Cons show ?case by (simp add: raw_line_def raw_loop_none)
qed simp

text \<open>
  C19: code without quotes, backslashes and slashes passes through unchanged: all four copies
  of \<open>CleansedLines\<close> are the lines of the file.
\<close>

theorem plain_code_unchanged:
  assumes "\<forall>l \<in> set lines. plain_code l"
  shows "CleansedLines lines = Inr \<lparr>cl_elided = lines, cl_lines = lines, cl_raw_lines = lines,
    cl_num_lines = length lines, cl_lines_without_raw_strings = lines\<rparr>"
proof -
  have "fold_res cleanse_line ls (es, cs) = Inr (es @ ls, cs @ ls)" if "\<forall>l \<in> set ls. plain_code l" for ls es cs
    using that
  proof (induction ls arbitrary: es cs)
    case (Cons l ls)
    then have "CleanseComments l = l" by (auto simp: plain_code_def intro: CleanseComments_plain)
    with Cons show ?case by (simp add: cleanse_line_def CollapseStrings_plain)
  qed simp
  from this [OF assms] raw_lines_loop_plain [OF assms] show ?thesis
    by (simp add: CleansedLines_def CleanseRawStrings_def)
qed

theorem plain_code_unchanged_witness:
  "\<exists>c. CleansedLines [''if (a < b) {'', ''}''] = Inr c \<and> cl_elided c = [''if (a < b) {'', ''}'']"
proof -
  have "\<forall>l \<in> set [''if (a < b) {'', ''}'']. plain_code l" by code_simp
  from plain_code_unchanged [OF this] show ?thesis by simp
qed



text \<open>The accumulator of the collapsing loop.\<close>

lemma collapse_loop_acc:
  "collapse_loop (d @ collapsed) elided = bind_res (collapse_loop collapsed elided) (\<lambda>r. Inr (d @ r))"
proof (induction collapsed elided rule: collapse_loop.induct)
  case (1 collapsed elided)
  show ?case
  proof (cases "Match FIRST_QUOTE elided")
    case None
    then show ?thesis by (simp add: collapse_loop.simps)
  next
    case (Some m)
    with 1 show ?thesis
      by (subst (1 2) collapse_loop.simps) (simp split: option.splits)
  qed
qed

lemma first_quote_match:
  assumes "dquote \<notin> set a" "squote \<notin> set a" "q = dquote \<or> q = squote" "single_line t"
  shows "\<exists>m. Match FIRST_QUOTE (a @ q # t) = Some m \<and> grp m 1 = a \<and> grp m 2 = [q] \<and> grp m 3 = t"
proof -
  let ?l = "a @ q # t" and ?C = "class_has True [Lit squote, Lit dquote]"
  have "\<forall>x \<in> set a. ?C x" using assms(1,2) by (auto simp: class_has_def)
  from char_starI [of "start_cursor ?l" a "q # t", OF _ this] obtain k where
    k: "(start_cursor ?l, k) \<in> (char_rel ?C)\<^sup>*" "rest k = q # t" by auto
  have "class_has False [Lit squote, Lit dquote] q" using assms(3) by (auto simp: class_has_def)
  with k(2) have a: "(k, advance k) \<in> char_rel (class_has False [Lit squote, Lit dquote])"
    by (rule char_relI)
  have "rest (advance k) = t @ []" using k(2) by (simp add: advance_def)
  from char_starI [OF this, of not_newline] assms(4) obtain k' where
    k': "(advance k, k') \<in> (char_rel not_newline)\<^sup>*" "rest k' = []" by (auto simp: not_newline_def)
  have "(start_cursor ?l, k') \<in> rx_rel (rx FIRST_QUOTE)"
    unfolding first_quote_pattern rx_rel.simps
    by (rule relcompI [OF _ relcompI [OF k(1) relcompI [OF a relcompI [OF k'(1)]]]])
      (simp_all add: test_rel_def k'(2))
  moreover have "no_backref (rx FIRST_QUOTE)" by code_simp
  ultimately obtain m where m: "Match FIRST_QUOTE ?l = Some m"
    using Match_None_iff [of FIRST_QUOTE ?l] by blast
  from first_quote_division [OF m] obtain y c where l: "?l = grp m 1 @ c # grp m 3 @ y"
    "y = [] \<or> y = [CHR 0x0A]" "squote \<notin> set (grp m 1)" "dquote \<notin> set (grp m 1)" "grp m 2 = [c]"
    "c = squote \<or> c = dquote" by auto
  let ?P = "\<lambda>x. x \<noteq> squote \<and> x \<noteq> dquote"
  have "a = takeWhile ?P ?l" using assms(1-3) by (intro takeWhile_append_nth [symmetric]) auto
  moreover have "grp m 1 = takeWhile ?P ?l"
    unfolding l(1) using l(3,4,6) by (intro takeWhile_append_nth [symmetric]) auto
  ultimately have g: "grp m 1 = a" by simp
  with l(1) have t: "c = q" "t = grp m 3 @ y" by simp_all
  with l(2) assms(4) have "y = []" by auto
  with g t l(5) m show ?thesis by simp
qed

lemma include_pattern:
  \<open>rx RE_PATTERN_INCLUDE = Cat Bol (Cat (Star True (Class False [Space]))
     (Cat (Class False [Lit CHR ''#'']) (rx (raw ''`s*include`s*([<"])([^>"]*)[>"].*$''))))\<close>
  by code_simp

lemma include_hash:
  assumes "re_match (rx RE_PATTERN_INCLUDE) s \<noteq> None"
  shows "\<exists>w v. s = w @ CHR ''#'' # v \<and> (\<forall>x \<in> set w. is_space x)"
proof -
  from assms obtain m where m: "Match RE_PATTERN_INCLUDE s = Some m" by (auto simp: Match_def)
  from Match_SomeD [OF m] obtain k0 c0 k1 c1 k2 c2 where
    "(k0, c0) \<in> set (matches Bol (start_cursor s) [])"
    and k1: "(k1, c1) \<in> set (matches (Star True (Class False [Space])) k0 c0)"
    and k2: "(k2, c2) \<in> set (matches (Class False [Lit CHR ''#'']) k1 c1)"
    unfolding include_pattern matches_Cat_iff by blast
  then have "k0 = start_cursor s" by (auto split: if_splits)
  with matches_relD [OF _ k1] matches_ClassD [OF k2] obtain w where
    "s = w @ CHR ''#'' # rest k2" "\<forall>x \<in> set w. is_space x"
    by (auto simp: class_has_def dest!: char_star_rest)
  then show ?thesis by blast
qed

section \<open>Literals\<close>

text \<open>The escapes that are removed: a simple one, a decimal and a hexadecimal one.\<close>

abbreviation simple_escape :: "char \<Rightarrow> bool" where
  "simple_escape \<equiv> class_has False (map Lit [CHR ''a'', CHR ''b'', CHR ''f'', CHR ''n'', CHR ''r'',
     CHR ''t'', CHR ''v'', CHR ''?'', dquote, backslash, squote])"

abbreviation hex_digit :: "char \<Rightarrow> bool" where
  "hex_digit \<equiv> class_has False
     [Range CHR ''0'' CHR ''9'', Range CHR ''a'' CHR ''f'', Range CHR ''A'' CHR ''F'']"

lemma escapes_rel:
  "rx_rel (rx RE_PATTERN_CLEANSE_LINE_ESCAPES) = char_rel (class_has False [Lit backslash]) O
     (char_rel simple_escape \<union>
      (char_rel (class_has False [Digit]) O (char_rel (class_has False [Digit]))\<^sup>* \<union>
       char_rel (class_has False [Lit CHR ''x'']) O char_rel hex_digit O (char_rel hex_digit)\<^sup>*))"
proof -
  have "rx RE_PATTERN_CLEANSE_LINE_ESCAPES = Cat (Class False [Lit backslash])
     (Group 1 (Alt (Class False (map Lit [CHR ''a'', CHR ''b'', CHR ''f'', CHR ''n'', CHR ''r'',
         CHR ''t'', CHR ''v'', CHR ''?'', dquote, backslash, squote]))
       (Alt (Cat (Class False [Digit]) (Star True (Class False [Digit])))
         (Cat (Class False [Lit CHR ''x''])
           (Cat (Class False [Range CHR ''0'' CHR ''9'', Range CHR ''a'' CHR ''f'', Range CHR ''A'' CHR ''F''])
             (Star True (Class False
               [Range CHR ''0'' CHR ''9'', Range CHR ''a'' CHR ''f'', Range CHR ''A'' CHR ''F''])))))))"
    by code_simp
  then show ?thesis by simp
qed

lemma escapes_no_backref: "no_backref (rx RE_PATTERN_CLEANSE_LINE_ESCAPES)"
  by code_simp

lemma hex_digit_word: "hex_digit c \<Longrightarrow> is_word c"
  by (auto simp: class_has_def is_word_def is_digit_def is_lower_def is_upper_def code_def)

lemma escape_span:
  assumes "(k, k') \<in> rx_rel (rx RE_PATTERN_CLEANSE_LINE_ESCAPES)"
  shows "\<exists>e w. rest k = backslash # e # w @ rest k' \<and> (\<forall>x \<in> set w. is_word x)"
proof -
  from assms obtain k1 where "(k, k1) \<in> char_rel (class_has False [Lit backslash])" and
    alt: "(k1, k') \<in> char_rel simple_escape \<union>
      (char_rel (class_has False [Digit]) O (char_rel (class_has False [Digit]))\<^sup>* \<union>
       char_rel (class_has False [Lit CHR ''x'']) O char_rel hex_digit O (char_rel hex_digit)\<^sup>*)"
    unfolding escapes_rel by blast
  from char_rel_rest [OF this(1)] have k: "rest k = backslash # rest k1" by (auto simp: class_has_def)
  have "\<exists>e w. rest k1 = e # w @ rest k' \<and> (\<forall>x \<in> set w. is_word x)"
    using alt
  proof (elim UnE relcompEpair)
    assume "(k1, k') \<in> char_rel simple_escape"
    from char_rel_rest [OF this] show ?thesis by (auto intro!: exI [of _ "[]"])
  next
    fix k2 assume "(k1, k2) \<in> char_rel (class_has False [Digit])"
      "(k2, k') \<in> (char_rel (class_has False [Digit]))\<^sup>*"
    with char_rel_rest char_star_rest obtain e w where "rest k1 = e # w @ rest k'"
      "\<forall>x \<in> set w. class_has False [Digit] x" by metis
    then show ?thesis by (auto simp: class_has_def is_word_def intro!: exI [of _ w])
  next
    fix k2 k3 assume "(k1, k2) \<in> char_rel (class_has False [Lit CHR ''x''])"
      "(k2, k3) \<in> char_rel hex_digit" "(k3, k') \<in> (char_rel hex_digit)\<^sup>*"
    from char_rel_rest [OF this(1)] char_rel_rest [OF this(2)] char_star_rest [OF this(3)]
    obtain x e w where "rest k1 = x # e # w @ rest k'" "\<forall>y \<in> set (e # w). hex_digit y" by auto
    with hex_digit_word show ?thesis by (intro exI [of _ x] exI [of _ "e # w"]) auto
  qed
  with k show ?thesis by auto
qed

abbreviation unescape_from :: "bool \<Rightarrow> cursor \<Rightarrow> string" where
  "unescape_from \<equiv> sub_from (rx RE_PATTERN_CLEANSE_LINE_ESCAPES) (\<lambda>_. [])"

lemma unescape_other:
  assumes "rest k = c # t" and "c \<noteq> backslash \<or> (k \<notin> Domain (rx_rel (rx RE_PATTERN_CLEANSE_LINE_ESCAPES)))"
  shows "unescape_from just k = c # unescape_from False (advance k)"
proof -
  have "k \<notin> Domain (rx_rel (rx RE_PATTERN_CLEANSE_LINE_ESCAPES))"
    using assms escape_span by fastforce
  then have "matches (rx RE_PATTERN_CLEANSE_LINE_ESCAPES) k [] = []"
    using matches_Nil_iff [OF escapes_no_backref] by blast
  with assms(1) show ?thesis by (subst sub_from.simps) simp
qed

lemma unescape_match:
  assumes "rest k = backslash # t" and "k \<in> Domain (rx_rel (rx RE_PATTERN_CLEANSE_LINE_ESCAPES))"
  shows "\<exists>e w k'. t = e # w @ rest k' \<and> (\<forall>x \<in> set w. is_word x) \<and>
    unescape_from just k = unescape_from True k'"
proof -
  from assms(2) matches_Nil_iff [OF escapes_no_backref, of k "[]"] obtain k' c kcs where
    m: "matches (rx RE_PATTERN_CLEANSE_LINE_ESCAPES) k [] = (k', c) # kcs"
    by (cases "matches (rx RE_PATTERN_CLEANSE_LINE_ESCAPES) k []") auto
  then have "(k, k') \<in> rx_rel (rx RE_PATTERN_CLEANSE_LINE_ESCAPES)"
    by (intro matches_relD [OF escapes_no_backref, of _ c k "[]"]) simp
  from escape_span [OF this] assms(1) obtain e w where
    w: "t = e # w @ rest k'" "\<forall>x \<in> set w. is_word x" by auto
  then have "length (rest k') < length (rest k)" using assms(1) by simp
  with m have "unescape_from just k = unescape_from True k'" by (subst sub_from.simps) simp
  with w show ?thesis by blast
qed

text \<open>
  What a literal may hold between its quotes \<open>q\<close>: backslashes come in pairs with the character
  they escape, and an unescaped quote ends it.
\<close>

fun literal_body :: "char \<Rightarrow> string \<Rightarrow> bool" where
  "literal_body q [] = True"
| "literal_body q (c # s) =
     (if c = backslash then (case s of [] \<Rightarrow> False | e # t \<Rightarrow> e \<noteq> CHR 0x0A \<and> literal_body q t)
      else c \<noteq> q \<and> c \<noteq> CHR 0x0A \<and> literal_body q s)"

lemma literal_body_word: "literal_body q (w @ s) \<Longrightarrow> \<forall>x \<in> set w. is_word x \<Longrightarrow> literal_body q s"
proof (induction w)
  case (Cons x w)
  then have "x \<noteq> backslash" by (auto simp: is_word_def is_lower_def is_upper_def is_digit_def code_def backslash_def)
  with Cons show ?case by simp
qed simp

lemma quote_not: "q = dquote \<or> q = squote \<Longrightarrow> q \<noteq> backslash \<and> \<not> is_word q \<and> q \<noteq> CHR 0x0A"
  by (auto simp: dquote_def squote_def backslash_def is_word_def is_lower_def is_upper_def is_digit_def code_def)

lemma quoted_escape:
  assumes "rest k = backslash # e # t" "e = dquote \<or> e = squote \<or> e = backslash"
  shows "k \<in> Domain (rx_rel (rx RE_PATTERN_CLEANSE_LINE_ESCAPES))"
proof -
  have "class_has False [Lit backslash] backslash" "simple_escape e"
    using assms(2) by (auto simp: class_has_def)
  from char_relI [where P = "class_has False [Lit backslash]", OF assms(1) this(1)]
    char_relI [where P = simple_escape and k = "advance k" and xs = t, OF _ this(2)] assms(1)
  show ?thesis unfolding escapes_rel by (auto simp: advance_def)
qed

lemma prefix_of_words:
  "s @ q # t = w @ u \<Longrightarrow> \<forall>x \<in> set w. is_word x \<Longrightarrow> \<not> is_word q \<Longrightarrow> \<exists>s'. s = w @ s' \<and> u = s' @ q # t"
proof (induction w arbitrary: s)
  case (Cons x w)
  then obtain y s1 where s: "s = y # s1" by (cases s) auto
  with Cons have "s1 @ q # t = w @ u" by simp
  from Cons.IH [OF this] Cons.prems s show ?case by auto
qed simp

lemma unescape_body:
  assumes q: "q = dquote \<or> q = squote"
  shows "literal_body q s \<Longrightarrow> rest k = s @ q # t \<Longrightarrow>
    \<exists>s' j k'. unescape_from just k = s' @ unescape_from j k' \<and> rest k' = q # t \<and>
      q \<notin> set s' \<and> single_line s'"
proof (induction s arbitrary: k just rule: length_induct)
  case (1 s)
  note qn = quote_not [OF q]
  show ?case
  proof (cases s)
    case Nil
    with "1.prems" show ?thesis by (intro exI [of _ "[]"]) auto
  next
    case (Cons c s1)
    show ?thesis
    proof (cases "c = backslash")
      case False
      with Cons "1.prems" have c: "c \<noteq> q" "c \<noteq> CHR 0x0A" "literal_body q s1" and
        r: "rest k = c # s1 @ q # t" by auto
      have a: "rest (advance k) = s1 @ q # t" using r by (simp add: advance_def)
      obtain s' j k' where "unescape_from False (advance k) = s' @ unescape_from j k'" "rest k' = q # t"
        "q \<notin> set s'" "single_line s'"
        using "1.IH" [rule_format, OF _ c(3) a, of False] Cons by auto
      with unescape_other [OF r] False c show ?thesis by (intro exI [of _ "c # s'"]) auto
    next
      case True
      with Cons "1.prems" obtain e s2 where e: "s1 = e # s2" "e \<noteq> CHR 0x0A" "literal_body q s2"
        by (auto split: list.splits)
      with Cons True "1.prems"(2) have r: "rest k = backslash # e # s2 @ q # t" by simp
      show ?thesis
      proof (cases "k \<in> Domain (rx_rel (rx RE_PATTERN_CLEANSE_LINE_ESCAPES))")
        case True
        from unescape_match [OF r this, of just] obtain w k1 where
          w: "s2 @ q # t = w @ rest k1" "\<forall>x \<in> set w. is_word x" and
          u: "unescape_from just k = unescape_from True k1" by auto
        from prefix_of_words [OF w] qn obtain s3 where s3: "s2 = w @ s3" "rest k1 = s3 @ q # t" by auto
        from e(3) s3(1) w(2) have "literal_body q s3" by (auto intro: literal_body_word)
        from "1.IH" [rule_format, OF _ this s3(2), of True] s3(1) e(1) Cons u show ?thesis by auto
      next
        case False
        from False quoted_escape [OF r] have n: "e \<noteq> dquote" "e \<noteq> squote" "e \<noteq> backslash" by auto
        have a1: "rest (advance k) = e # s2 @ q # t" using r by (simp add: advance_def)
        have a2: "rest (advance (advance k)) = s2 @ q # t" using a1 by (simp add: advance_def)
        obtain s' j k' where
          "unescape_from False (advance (advance k)) = s' @ unescape_from j k'" "rest k' = q # t"
          "q \<notin> set s'" "single_line s'"
          using "1.IH" [rule_format, OF _ e(3) a2, of False] Cons e(1) by auto
        with unescape_other [OF r, of just] unescape_other [OF a1, of False] False n qn e(2) q show ?thesis
          by (intro exI [of _ "backslash # e # s'"]) (auto simp: backslash_def)
      qed
    qed
  qed
qed

lemma unescape_plain:
  "backslash \<notin> set g \<Longrightarrow> rest k = g @ t \<Longrightarrow>
     \<exists>j k'. unescape_from just k = g @ unescape_from j k' \<and> rest k' = t"
proof (induction g arbitrary: k just)
  case (Cons c g)
  then have r: "rest k = c # g @ t" "c \<noteq> backslash" by auto
  then have "rest (advance k) = g @ t" by (simp add: advance_def)
  from Cons.IH [OF _ this, of False] Cons.prems(1) unescape_other [OF r(1)] r(2) show ?case by auto
qed auto


text \<open>
  A literal with the code before it: the code, the quote and the body. A character literal
  must not follow a word, where its quote could be a digit separator.
\<close>

type_synonym quoted = "string \<times> char \<times> string"

fun literal_ok :: "quoted \<Rightarrow> bool" where
  "literal_ok (g, q, s) \<longleftrightarrow> (q = dquote \<or> q = squote) \<and> literal_body q s \<and>
     set g \<inter> {dquote, squote, backslash, CHR 0x0A} = {} \<and>
     (q = squote \<longrightarrow> g = [] \<or> \<not> is_word (last g))"

fun literal_source :: "quoted \<Rightarrow> string" where
  "literal_source (g, q, s) = g @ q # s @ [q]"

fun literal_elided :: "quoted \<Rightarrow> string" where
  "literal_elided (g, q, s) = g @ [q, q]"

fun literal_unescaped :: "quoted \<Rightarrow> quoted \<Rightarrow> bool" where
  "literal_unescaped (g, q, s) (g', q', s') \<longleftrightarrow> g' = g \<and> q' = q \<and> q \<notin> set s' \<and> single_line s'"

lemma unescape_literals:
  "list_all literal_ok lits \<Longrightarrow> backslash \<notin> set b \<Longrightarrow> rest k = concat (map literal_source lits) @ b \<Longrightarrow>
     \<exists>lits'. unescape_from just k = concat (map literal_source lits') @ b \<and>
       list_all2 literal_unescaped lits lits'"
proof (induction lits arbitrary: k just)
  case Nil
  then have "rest k = b @ []" by simp
  from unescape_plain [OF Nil.prems(2) this, of just] obtain j k' where
    "unescape_from just k = b @ unescape_from j k'" "rest k' = []" by blast
  moreover from this(2) have "unescape_from j k' = []"
    using sub_from_delete [of "rx RE_PATTERN_CLEANSE_LINE_ESCAPES" j k'] by simp
  ultimately show ?case by simp
next
  case (Cons l lits)
  obtain g q s where l: "l = (g, q, s)" by (cases l)
  let ?t = "concat (map literal_source lits) @ b"
  from Cons.prems(1) l have ok: "q = dquote \<or> q = squote" "literal_body q s" "backslash \<notin> set g"
    "list_all literal_ok lits" by auto
  from Cons.prems(3) l have "rest k = g @ q # s @ q # ?t" by simp
  from unescape_plain [OF ok(3) this, of just] obtain j k1 where
    1: "unescape_from just k = g @ unescape_from j k1" "rest k1 = q # s @ q # ?t" by blast
  from unescape_other [OF this(2), of j] quote_not [OF ok(1)] have
    2: "unescape_from j k1 = q # unescape_from False (advance k1)" by simp
  from 1(2) have "rest (advance k1) = s @ q # ?t" by (simp add: advance_def)
  from unescape_body [OF ok(1,2) this, of False] obtain s' j2 k2 where
    3: "unescape_from False (advance k1) = s' @ unescape_from j2 k2" "rest k2 = q # ?t"
      "q \<notin> set s'" "single_line s'" by blast
  from unescape_other [OF this(2), of j2] quote_not [OF ok(1)] have
    4: "unescape_from j2 k2 = q # unescape_from False (advance k2)" by simp
  from 3(2) have "rest (advance k2) = ?t" by (simp add: advance_def)
  from Cons.IH [OF ok(4) Cons.prems(2) this, of False] obtain lits' where
    "unescape_from False (advance k2) = concat (map literal_source lits') @ b"
    "list_all2 literal_unescaped lits lits'" by blast
  with 1 2 3 4 l show ?case by (intro exI [of _ "(g, q, s') # lits'"]) simp
qed

lemma number_rel:
  assumes "(k, k') \<in> rx_rel (rx NUMBER_AT_END)"
  shows "\<exists>w. w \<noteq> [] \<and> rest k = w @ rest k' \<and> (\<forall>x \<in> set w. is_word x) \<and>
    (rest k' = [] \<or> rest k' = [CHR 0x0A])"
proof -
  have "rx NUMBER_AT_END = Cat WordB (Cat (Alt (Cat (Class False [Lit CHR ''0''])
      (Alt (Class False [Lit CHR ''b'', Lit CHR ''B'', Lit CHR ''x'', Lit CHR ''X'']) Empty))
      (Class False [Range CHR ''1'' CHR ''9''])) (Cat (Star True (Class False
      [Range CHR ''0'' CHR ''9'', Range CHR ''a'' CHR ''f'', Range CHR ''A'' CHR ''F''])) Eol))"
    by code_simp
  with assms obtain k2 where
    alt: "(k, k2) \<in> char_rel (class_has False [Lit CHR ''0'']) O
        (char_rel (class_has False [Lit CHR ''b'', Lit CHR ''B'', Lit CHR ''x'', Lit CHR ''X'']) \<union> Id) \<union>
        char_rel (class_has False [Range CHR ''1'' CHR ''9''])" and
    hex: "(k2, k') \<in> (char_rel hex_digit)\<^sup>*" and eol: "rest k' = [] \<or> rest k' = [CHR 0x0A]"
    by (auto simp: test_rel_def)
  have W: "class_has False [Lit CHR ''0''] x \<Longrightarrow> is_word x"
    "class_has False [Lit CHR ''b'', Lit CHR ''B'', Lit CHR ''x'', Lit CHR ''X''] x \<Longrightarrow> is_word x"
    "class_has False [Range CHR ''1'' CHR ''9''] x \<Longrightarrow> is_word x" for x
    by (auto simp: class_has_def is_word_def is_digit_def is_lower_def is_upper_def code_def)
  have "\<exists>u. u \<noteq> [] \<and> rest k = u @ rest k2 \<and> (\<forall>x \<in> set u. is_word x)"
    using alt
  proof (elim UnE relcompEpair)
    fix k1 assume a: "(k, k1) \<in> char_rel (class_has False [Lit CHR ''0''])"
      "(k1, k2) \<in> char_rel (class_has False [Lit CHR ''b'', Lit CHR ''B'', Lit CHR ''x'', Lit CHR ''X''])"
    from char_rel_rest [OF a(1)] char_rel_rest [OF a(2)] obtain x y where
      "rest k = [x, y] @ rest k2" "is_word x" "is_word y" using W by auto
    then show ?thesis by (intro exI [of _ "[x, y]"]) simp
  next
    fix k1 assume a: "(k, k1) \<in> char_rel (class_has False [Lit CHR ''0''])" "(k1, k2) \<in> Id"
    from char_rel_rest [OF a(1)] a(2) obtain x where "rest k = [x] @ rest k2" "is_word x" using W by auto
    then show ?thesis by (intro exI [of _ "[x]"]) simp
  next
    assume a: "(k, k2) \<in> char_rel (class_has False [Range CHR ''1'' CHR ''9''])"
    from char_rel_rest [OF a] obtain x where "rest k = [x] @ rest k2" "is_word x" using W by auto
    then show ?thesis by (intro exI [of _ "[x]"]) simp
  qed
  moreover from char_star_rest [OF hex] hex_digit_word obtain w where
    "rest k2 = w @ rest k'" "\<forall>x \<in> set w. is_word x" by blast
  ultimately obtain u where "u \<noteq> []" "rest k = (u @ w) @ rest k'" "\<forall>x \<in> set (u @ w). is_word x" by auto
  with eol show ?thesis by (intro exI [of _ "u @ w"]) simp
qed

lemma no_number_at_end:
  assumes "g = [] \<or> \<not> is_word (last g)" and "single_line g"
  shows "Search NUMBER_AT_END g = None"
proof (cases "Search NUMBER_AT_END g")
  case (Some m)
  have nb: "no_backref (rx NUMBER_AT_END)" by code_simp
  let ?k = "cursor_at g (m_start m)"
  from match_at_rel [OF nb Search_SomeD(2) [OF Some]] obtain k' where
    "(?k, k') \<in> rx_rel (rx NUMBER_AT_END)" by blast
  from number_rel [OF this] obtain w where w: "w \<noteq> []" "drop (m_start m) g = w @ rest k'"
    "\<forall>x \<in> set w. is_word x" "rest k' = [] \<or> rest k' = [CHR 0x0A]" by (auto simp: cursor_at_def)
  have "CHR 0x0A \<notin> set (drop (m_start m) g)" using assms(2) by (auto dest: in_set_dropD)
  with w have "drop (m_start m) g = w" by auto
  with w(1,3) have "g \<noteq> []" "is_word (last g)" by (metis drop_Nil, metis last_drop last_in_set drop_eq_Nil linorder_not_le)
  with assms(1) show ?thesis by simp
qed simp

lemma str_find_char: "q \<notin> set s \<Longrightarrow> str_find (s @ q # t) [q] = Some (length s)"
  by (induction s) (auto simp: str_find_Cons startswith_iff)

lemma collapse_literals:
  "list_all literal_ok lits \<Longrightarrow> list_all2 literal_unescaped lits lits' \<Longrightarrow>
   dquote \<notin> set b \<Longrightarrow> squote \<notin> set b \<Longrightarrow> single_line b \<Longrightarrow>
     collapse_loop collapsed (concat (map literal_source lits') @ b) =
       Inr (collapsed @ concat (map literal_elided lits) @ b)"
proof (induction lits arbitrary: lits' collapsed)
  case Nil
  then show ?case by (simp add: collapse_loop.simps no_quote_match)
next
  case (Cons l lits)
  obtain g q s where l: "l = (g, q, s)" by (cases l)
  with Cons.prems(2) obtain s' lits2 where s': "lits' = (g, q, s') # lits2" "q \<notin> set s'" "single_line s'"
    "list_all2 literal_unescaped lits lits2" by (auto simp: list_all2_Cons1)
  let ?t = "concat (map literal_source lits2) @ b"
  from Cons.prems(1) l have ok: "q = dquote \<or> q = squote" "dquote \<notin> set g" "squote \<notin> set g"
    "single_line g" "list_all literal_ok lits" "q = squote \<longrightarrow> g = [] \<or> \<not> is_word (last g)" by auto
  have line: "single_line ?t"
    using s'(4) ok(5) Cons.prems(5)
  proof (induction lits lits2 rule: list_all2_induct)
    case (Cons x xs y ys)
    then show ?case using quote_not by (cases x; cases y) auto
  qed simp
  from s'(3) line quote_not [OF ok(1)] have "single_line (s' @ q # ?t)" by auto
  from first_quote_match [OF ok(2,3,1) this] obtain m where
    m: "Match FIRST_QUOTE (g @ q # s' @ q # ?t) = Some m" "grp m 1 = g" "grp m 2 = [q]"
      "grp m 3 = s' @ q # ?t" by blast
  have "collapse_loop collapsed (concat (map literal_source lits') @ b) =
      collapse_loop (collapsed @ g @ [q, q]) ?t"
  proof (cases "q = dquote")
    case True
    with m s'(1,2) str_find_char [OF s'(2), of ?t] show ?thesis by (subst collapse_loop.simps) simp
  next
    case False
    with ok(1,6) no_number_at_end [OF _ ok(4)] have "q = squote" "Search NUMBER_AT_END g = None" by auto
    with False m s'(1,2) str_find_char [OF s'(2), of ?t] show ?thesis by (subst collapse_loop.simps) simp
  qed
  with Cons.IH [OF ok(5) s'(4) Cons.prems(3-5)] l show ?case by simp
qed

text \<open>
  C15: the contents of literals never reach a check. Take a line that is not a directive and
  that consists of string and character literals with code between and after them: the code
  has no quotes and no backslashes, a literal may hold anything between its quotes but an
  unescaped quote of its own kind (every backslash escapes the character after it, so \<open>\"\<close>
  does not end it), and a character literal does not directly follow a word, where its quote
  may be a digit separator. Then \<open>_CollapseStrings\<close> keeps the code as it is and leaves every
  literal empty.
\<close>

theorem string_contents_elided:
  assumes "list_all literal_ok lits" and "set b \<inter> {dquote, squote, backslash, CHR 0x0A} = {}"
    and "\<not> startswith (dropWhile is_space (concat (map literal_source lits) @ b)) ''#''"
  shows "CollapseStrings (concat (map literal_source lits) @ b) =
    Inr (concat (map literal_elided lits) @ b)"
proof -
  let ?l = "concat (map literal_source lits) @ b"
  have "re_match (rx RE_PATTERN_INCLUDE) ?l = None"
  proof (rule ccontr)
    assume "re_match (rx RE_PATTERN_INCLUDE) ?l \<noteq> None"
    from include_hash [OF this] obtain w v where
      w: "?l = w @ CHR ''#'' # v" "\<forall>x \<in> set w. is_space x" by blast
    have "\<not> is_space CHR ''#''" by code_simp
    with w have "dropWhile is_space ?l = CHR ''#'' # v" by simp
    with assms(3) show False by (simp add: startswith_iff)
  qed
  moreover obtain lits' where
    "re_sub (rx RE_PATTERN_CLEANSE_LINE_ESCAPES) (\<lambda>_. []) ?l = concat (map literal_source lits') @ b"
    "list_all2 literal_unescaped lits lits'"
    using unescape_literals [OF assms(1), of b "start_cursor ?l" False] assms(2) by (auto simp: re_sub_def)
  ultimately show ?thesis
    using collapse_literals [OF assms(1), of lits' b "[]"] assms(2) by (simp add: CollapseStrings_def)
qed

text \<open>The witness: \<open>f("a\"//b", '"');\<close> becomes \<open>f("", '');\<close>.\<close>

theorem string_contents_elided_witness:
  "CollapseStrings (''f('' @ [dquote] @ ''a'' @ [backslash, dquote] @ ''//b'' @ [dquote] @ '', '' @
       [squote, dquote, squote] @ '');'') =
     Inr (''f('' @ [dquote, dquote] @ '', '' @ [squote, squote] @ '');'')"
proof -
  let ?lits = "[(''f('', dquote, ''a'' @ [backslash, dquote] @ ''//b''), ('', '', squote, [dquote])]"
  have 1: "list_all literal_ok ?lits" by code_simp
  have 2: "set '');'' \<inter> {dquote, squote, backslash, CHR 0x0A} = {}" by code_simp
  have 3: "\<not> startswith (dropWhile is_space (concat (map literal_source ?lits) @ '');'')) ''#''"
    by code_simp
  from string_contents_elided [OF 1 2 3] show ?thesis by simp
qed

end
