(* ===== verification/File_Checks.thy ===== *)
theory File_Checks
  imports File_Info Include_State Cleanse
begin

text \<open>
  The checks of a whole file: copyright, header guard, inclusion of the own header, bad
  characters, newline at the end; and the first checks of a single line. Each returns the
  calls it makes.
\<close>

section \<open>Copyright and indentation\<close>

definition CheckForCopyright :: "string \<Rightarrow> string list \<Rightarrow> effect list" where
  \<open>CheckForCopyright filename lines =
     (if \<exists>line \<in> set [1..<min (length lines) 11].
           re_search (ignore_case (rx ''Copyright'')) (lines ! line) \<noteq> None
      then []
      else [ErrorCall filename 0 ''legal/copyright'' 5
             (''No copyright message found.  '' @
              ''You should have a line: "Copyright [year] <Copyright Owner>"'')])\<close>

definition GetIndentLevel :: "string \<Rightarrow> nat" where
  "GetIndentLevel line =
     (case Match (raw ''^( *)`S'') line of
        Some indent \<Rightarrow> length (grp indent 1)
      | None \<Rightarrow> 0)"

section \<open>The header guard\<close>

definition GUARD_NOLINT :: string where
  "GUARD_NOLINT = raw ''//`s*NOLINT`(build/header_guard`)''"

definition SINGLE_LINE_COMMENT :: string where
  \<open>SINGLE_LINE_COMMENT = raw ''^(?:(?:`'(?:`.|[^`'])*`')|(?:"(?:`.|[^"])*")|[^`'"])*//''\<close>

text \<open>The variables of the loop that collects the parts of the guard.\<close>

record guard_scan =
  g_ifndef :: string
  g_ifndef_linenum :: nat
  g_define :: string
  g_endif :: string
  g_endif_linenum :: nat

definition guard_scan_init :: guard_scan where
  "guard_scan_init = \<lparr>g_ifndef = [], g_ifndef_linenum = 0, g_define = [], g_endif = [],
     g_endif_linenum = 0\<rparr>"

definition guard_scan_line :: "nat \<times> string \<Rightarrow> guard_scan \<Rightarrow> guard_scan" where
  "guard_scan_line nl g =
     (let (linenum, line) = nl;
          linesplit = split_ws line;
          g = (if 2 \<le> length linesplit \<and> g_ifndef g = [] \<and> linesplit ! 0 = ''#ifndef''
               then g\<lparr>g_ifndef := linesplit ! 1, g_ifndef_linenum := linenum\<rparr> else g);
          g = (if 2 \<le> length linesplit \<and> g_define g = [] \<and> linesplit ! 0 = ''#define''
               then g\<lparr>g_define := linesplit ! 1\<rparr> else g)
      in if startswith line ''#endif'' then g\<lparr>g_endif := line, g_endif_linenum := linenum\<rparr> else g)"

definition guard_scan_lines :: "string list \<Rightarrow> guard_scan" where
  "guard_scan_lines raw_lines = fold guard_scan_line (enumerate 0 raw_lines) guard_scan_init"

definition endif_pattern :: "string \<Rightarrow> string" where
  "endif_pattern cppvar = raw ''#endif`s*//`s*'' @ cppvar @ raw ''(_)?`b''"

definition endif_c_pattern :: "string \<Rightarrow> string" where
  "endif_c_pattern cppvar = raw ''#endif`s*/`*`s*'' @ cppvar @ raw ''(_)?`s*`*/''"

text \<open>What follows the search for the guard: the style of the name and of the \<open>#endif\<close> line.\<close>

definition check_endif :: "string \<Rightarrow> string list \<Rightarrow> string \<Rightarrow> guard_scan \<Rightarrow> effect list" where
  \<open>check_endif filename raw_lines cppvar g =
     (let call = (\<lambda>level message. ErrorCall filename (int (g_endif_linenum g)) ''build/header_guard''
            level message)
      in case Match (endif_pattern cppvar) (g_endif g) of
           Some m \<Rightarrow>
             (if group m 1 = Some ''_''
              then [call 0 (''#endif line should be "#endif  // '' @ cppvar @ [dquote])] else [])
         | None \<Rightarrow>
             (let no_single_line_comments =
                    (\<forall>i \<in> set [1..<length raw_lines - 1]. Match SINGLE_LINE_COMMENT (raw_lines ! i) = None);
                  none = [call 5 (''#endif line should be "#endif  // '' @ cppvar @ [dquote])]
              in if no_single_line_comments then
                   (case Match (endif_c_pattern cppvar) (g_endif g) of
                      Some m \<Rightarrow>
                        (if group m 1 = Some ''_''
                         then [call 0 (''#endif line should be "#endif  /* '' @ cppvar @ '' */"'')] else [])
                    | None \<Rightarrow> none)
                 else none))\<close>

definition check_guard :: "string \<Rightarrow> string list \<Rightarrow> string \<Rightarrow> effect list" where
  "check_guard filename raw_lines cppvar =
     (let g = guard_scan_lines raw_lines
      in if g_ifndef g = [] \<or> g_define g = [] \<or> g_ifndef g \<noteq> g_define g
         then [ErrorCall filename 0 ''build/header_guard'' 5
                 (''No #ifndef header guard found, suggested CPP variable is: '' @ cppvar)]
         else
           (if g_ifndef g \<noteq> cppvar then
              [NolintCall filename (raw_lines ! g_ifndef_linenum g) (int (g_ifndef_linenum g)),
               ErrorCall filename (int (g_ifndef_linenum g)) ''build/header_guard''
                 (if g_ifndef g \<noteq> cppvar @ ''_'' then 5 else 0)
                 (''#ifndef header guard has wrong style, please use: '' @ cppvar)]
            else []) @
           NolintCall filename (raw_lines ! g_endif_linenum g) (int (g_endif_linenum g)) #
           check_endif filename raw_lines cppvar g)"

text \<open>\<open>None\<close> when the search for the repository does not end.\<close>

definition CheckForHeaderGuard ::
  "os_env \<Rightarrow> string option \<Rightarrow> bool \<Rightarrow> string \<Rightarrow> cleansed_lines \<Rightarrow> effect list res option" where
  "CheckForHeaderGuard env root root_debug filename clean_lines =
     (let raw_lines = cl_lines_without_raw_strings clean_lines
      in if \<exists>i \<in> set raw_lines. Search GUARD_NOLINT i \<noteq> None then Some (Inr [])
         else map_option (\<lambda>v. bind_res v (\<lambda>cppvar. Inr (check_guard filename raw_lines cppvar)))
                (GetHeaderGuardCPPVariable env root root_debug filename))"

section \<open>Inclusion of the own header\<close>

text \<open>\<open>s[0:e]\<close>: a negative end counts from the end of the string.\<close>

definition slice_to :: "string \<Rightarrow> int \<Rightarrow> string" where
  "slice_to s e = take (nat (if e < 0 then int (length s) + e else e)) s"

definition TEST_FILE_SUFFIX :: string where
  "TEST_FILE_SUFFIX = ''(_test|_unittest|_regtest)$''"

text \<open>The two loops over the include list: \<open>None\<close> for the early return.\<close>

fun own_header_loop :: "string \<Rightarrow> (string \<times> int) list \<Rightarrow> int \<Rightarrow> int option" where
  "own_header_loop headername [] first_include = Some first_include"
| "own_header_loop headername (f # fs) first_include =
     (if str_in headername (fst f) \<or> str_in (fst f) headername then None
      else own_header_loop headername fs (if first_include = 0 then snd f else first_include))"

definition CheckHeaderFileIncluded ::
  "os_env \<Rightarrow> string \<Rightarrow> include_state \<Rightarrow> effect list option" where
  "CheckHeaderFileIncluded env filename include_state =
     Option.bind (BaseName env filename) (\<lambda>basename.
       if Search TEST_FILE_SUFFIX basename \<noteq> None then Some []
       else Option.bind (Extension env filename) (\<lambda>ext.
         let headerfile = slice_to filename (int (length filename) - int (length ext)) @ ''.h''
         in if \<not> exists env headerfile then Some []
            else Option.bind (RepositoryName env headerfile) (\<lambda>headername.
              case own_header_loop headername (concat (include_list include_state)) 0 of
                None \<Rightarrow> Some []
              | Some first_include \<Rightarrow>
                  Option.bind (RepositoryName env filename) (\<lambda>name.
                    Some [ErrorCall filename first_include ''build/include'' 5
                      (name @ '' should include its header file '' @ headername)]))))"

section \<open>Bad characters and the end of the file\<close>

text \<open>Here a line is the list of its code points, since one of the characters is \<open>U+FFFD\<close>.\<close>

definition bad_characters :: "string \<Rightarrow> nat \<times> nat list \<Rightarrow> effect list" where
  "bad_characters filename nl =
     (let (linenum, line) = nl
      in (if 0xFFFD \<in> set line
          then [ErrorCall filename (int linenum) ''readability/utf8'' 5
                  ''Line contains invalid UTF-8 (or Unicode replacement character).''] else []) @
         (if 0 \<in> set line
          then [ErrorCall filename (int linenum) ''readability/nul'' 5 ''Line contains NUL byte.'']
          else []))"

definition CheckForBadCharacters :: "string \<Rightarrow> nat list list \<Rightarrow> effect list" where
  "CheckForBadCharacters filename lines = concat (map (bad_characters filename) (enumerate 0 lines))"

definition CheckForNewlineAtEOF :: "string \<Rightarrow> string list \<Rightarrow> effect list" where
  "CheckForNewlineAtEOF filename lines =
     (if length lines < 3 \<or> lines ! (length lines - 2) \<noteq> []
      then [ErrorCall filename (int (length lines) - 2) ''whitespace/ending_newline'' 5
              ''Could not find a newline character at the end of the file.'']
      else [])"

section \<open>First checks of a line\<close>

definition CheckForMultilineCommentsAndStrings ::
  "string \<Rightarrow> cleansed_lines \<Rightarrow> nat \<Rightarrow> effect list res" where
  \<open>CheckForMultilineCommentsAndStrings filename clean_lines linenum =
     bind_res (py_nth (cl_elided clean_lines) (int linenum)) (\<lambda>line.
       let line = str_replace line [backslash, backslash] []
       in Inr ((if str_count line ''*/'' < str_count line ''/*''
                then [ErrorCall filename (int linenum) ''readability/multiline_comment'' 5
                   (''Complex multi-line /*...*/-style comment found. '' @
                    ''Lint may give bogus warnings.  '' @
                    ''Consider replacing these with //-style comments, '' @
                    ''with #if 0...#endif, '' @
                    ''or with more clearly structured multi-line comments.'')] else []) @
               (if odd (int (str_count line [dquote]) - int (str_count line [backslash, dquote]))
                then [ErrorCall filename (int linenum) ''readability/multiline_string'' 5
                   (''Multi-line string ("...") found.  This lint script doesn'' @ [squote] @ ''t '' @
                    ''do well with such strings, and may give bogus warnings.  '' @
                    ''Use C++11 raw strings or concatenation instead.'')] else [])))\<close>

definition UNSAFE_FUNC_PREFIX :: string where
  "UNSAFE_FUNC_PREFIX = raw ''(?:[-+*/=%^&|(<]`s*|>`s+)''"

definition THREADING_LIST :: "(string \<times> string \<times> string) list" where
  "THREADING_LIST = [
    (''asctime('', ''asctime_r('', UNSAFE_FUNC_PREFIX @ raw ''asctime`([^)]+`)''),
    (''ctime('', ''ctime_r('', UNSAFE_FUNC_PREFIX @ raw ''ctime`([^)]+`)''),
    (''getgrgid('', ''getgrgid_r('', UNSAFE_FUNC_PREFIX @ raw ''getgrgid`([^)]+`)''),
    (''getgrnam('', ''getgrnam_r('', UNSAFE_FUNC_PREFIX @ raw ''getgrnam`([^)]+`)''),
    (''getlogin('', ''getlogin_r('', UNSAFE_FUNC_PREFIX @ raw ''getlogin`(`)''),
    (''getpwnam('', ''getpwnam_r('', UNSAFE_FUNC_PREFIX @ raw ''getpwnam`([^)]+`)''),
    (''getpwuid('', ''getpwuid_r('', UNSAFE_FUNC_PREFIX @ raw ''getpwuid`([^)]+`)''),
    (''gmtime('', ''gmtime_r('', UNSAFE_FUNC_PREFIX @ raw ''gmtime`([^)]+`)''),
    (''localtime('', ''localtime_r('', UNSAFE_FUNC_PREFIX @ raw ''localtime`([^)]+`)''),
    (''rand('', ''rand_r('', UNSAFE_FUNC_PREFIX @ raw ''rand`(`)''),
    (''strtok('', ''strtok_r('', UNSAFE_FUNC_PREFIX @ raw ''strtok`([^)]+`)''),
    (''ttyname('', ''ttyname_r('', UNSAFE_FUNC_PREFIX @ raw ''ttyname`([^)]+`)'')]"

definition CheckPosixThreading :: "string \<Rightarrow> cleansed_lines \<Rightarrow> nat \<Rightarrow> effect list res" where
  "CheckPosixThreading filename clean_lines linenum =
     bind_res (py_nth (cl_elided clean_lines) (int linenum)) (\<lambda>line.
       Inr (concat (map (\<lambda>(single_thread_func, multithread_safe_func, pat).
         if Search pat line \<noteq> None
         then [ErrorCall filename (int linenum) ''runtime/threadsafe_fn'' 2
                (''Consider using '' @ multithread_safe_func @ ''...) instead of '' @
                 single_thread_func @ ''...) for improved thread safety.'')]
         else []) THREADING_LIST)))"

definition CheckVlogArguments :: "string \<Rightarrow> cleansed_lines \<Rightarrow> nat \<Rightarrow> effect list res" where
  "CheckVlogArguments filename clean_lines linenum =
     bind_res (py_nth (cl_elided clean_lines) (int linenum)) (\<lambda>line.
       if Search (raw ''`bVLOG`((INFO|ERROR|WARNING|DFATAL|FATAL)`)'') line \<noteq> None
       then Inr [ErrorCall filename (int linenum) ''runtime/vlog'' 5
              (''VLOG() should be used with numeric verbosity level.  '' @
               ''Use LOG() if you want symbolic severity levels.'')]
       else Inr [])"

definition RE_PATTERN_INVALID_INCREMENT :: string where
  "RE_PATTERN_INVALID_INCREMENT = raw ''^`s*`*`w+(`+`+|--);''"

definition CheckInvalidIncrement :: "string \<Rightarrow> cleansed_lines \<Rightarrow> nat \<Rightarrow> effect list res" where
  "CheckInvalidIncrement filename clean_lines linenum =
     bind_res (py_nth (cl_elided clean_lines) (int linenum)) (\<lambda>line.
       if re_match (rx RE_PATTERN_INVALID_INCREMENT) line \<noteq> None
       then Inr [ErrorCall filename (int linenum) ''runtime/invalid_increment'' 5
              ''Changing pointer instead of value (or unused value of operator*).'']
       else Inr [])"

section \<open>Properties: copyright, indentation, end of file\<close>

text \<open>A sequence of one-character expressions, and a literal read without regard to case.\<close>

lemma class_seq_rel:
  "(\<exists>k'. (k, k') \<in> rx_rel (cat_all (map (Class False) its))) \<longleftrightarrow>
     (\<exists>w v. rest k = w @ v \<and> list_all2 (class_has False) its w)"
proof (induction its arbitrary: k)
  case (Cons it its)
  have cat: "(\<exists>k'. (k, k') \<in> rx_rel (cat_all (Class False it # map (Class False) its))) \<longleftrightarrow>
      (\<exists>k1. (k, k1) \<in> char_rel (class_has False it) \<and>
        (\<exists>k'. (k1, k') \<in> rx_rel (cat_all (map (Class False) its))))"
    by (cases its) auto
  have "\<dots> \<longleftrightarrow> (\<exists>x w v. rest k = x # w @ v \<and> class_has False it x \<and> list_all2 (class_has False) its w)"
    unfolding Cons.IH
  proof (intro iffI; elim exE conjE)
    fix k1 w v
    assume c: "(k, k1) \<in> char_rel (class_has False it)" and r: "rest k1 = w @ v"
      and l: "list_all2 (class_has False) its w"
    from char_rel_rest [OF c] r obtain x where "rest k = x # w @ v" "class_has False it x" by auto
    with l show "\<exists>x w v. rest k = x # w @ v \<and> class_has False it x \<and> list_all2 (class_has False) its w"
      by blast
  next
    fix x w v
    assume r: "rest k = x # w @ v" and "class_has False it x" "list_all2 (class_has False) its w"
    moreover have "rest (advance k) = w @ v" using r by (simp add: advance_def)
    ultimately show "\<exists>k1. (k, k1) \<in> char_rel (class_has False it) \<and>
        (\<exists>w v. rest k1 = w @ v \<and> list_all2 (class_has False) its w)"
      using char_relI [OF r] by blast
  qed
  also have "\<dots> \<longleftrightarrow> (\<exists>w v. rest k = w @ v \<and> list_all2 (class_has False) (it # its) w)"
    by (auto simp: list_all2_Cons1) (metis append_Cons)+
  finally show ?case using cat by simp
qed simp

lemma copyright_pattern:
  "ignore_case (rx ''Copyright'') =
     cat_all (map (Class False) (map (\<lambda>c. [Lit c, Lit (to_upper c)]) ''copyright''))"
  by code_simp

lemma lower_iff:
  assumes "is_lower c"
  shows "class_has False [Lit c, Lit (to_upper c)] x \<longleftrightarrow> to_lower x = c"
proof -
  have cc: "code (char_of n) = n" if "n < 256" for n using that by (simp add: code_def)
  have "code x < 256" "code c < 256" by (simp_all add: code_def)
  then have "class_has False [Lit c, Lit (to_upper c)] x \<longleftrightarrow> code x = code c \<or> code x = code c - 32"
    "to_lower x = c \<longleftrightarrow> code (to_lower x) = code c"
    using assms cc [of "code c - 32"]
    by (simp_all add: class_has_def to_upper_def code_eq_iff [symmetric] del: code_eq_iff)
  moreover have "code (to_lower x) = (if is_upper x \<or> (192 \<le> code x \<and> code x \<le> 222 \<and> code x \<noteq> 215)
      then code x + 32 else code x)"
    using cc [of "code x + 32"] by (auto simp: to_lower_def is_upper_def)
  ultimately have "class_has False [Lit c, Lit (to_upper c)] x \<longleftrightarrow> code x = code c \<or> code x = code c - 32"
    "to_lower x = c \<longleftrightarrow> (if (65 \<le> code x \<and> code x \<le> 90) \<or> (192 \<le> code x \<and> code x \<le> 222 \<and> code x \<noteq> 215)
      then code x + 32 else code x) = code c" by (simp_all only: is_upper_def)
  moreover have "(a = b \<or> a = b - 32) \<longleftrightarrow> (if (65 \<le> a \<and> a \<le> 90) \<or> (192 \<le> a \<and> a \<le> 222 \<and> a \<noteq> 215)
      then a + 32 else a) = b" if "97 \<le> b" "b \<le> 122" for a b :: nat
    using that by auto
  ultimately show ?thesis using assms [unfolded is_lower_def] by (simp only:)
qed

lemma str_in_map: "str_in p (map f s) \<longleftrightarrow> (\<exists>u w v. s = u @ w @ v \<and> map f w = p)"
proof
  assume "str_in p (map f s)"
  then obtain u v where "map f s = u @ p @ v" by (auto simp: str_in_iff)
  then have "map f (take (length p) (drop (length u) s)) = p" by (simp flip: take_map drop_map)
  moreover have "s = take (length u) s @ take (length p) (drop (length u) s) @
      drop (length p) (drop (length u) s)" by (simp only: append_take_drop_id)
  ultimately show "\<exists>u w v. s = u @ w @ v \<and> map f w = p" by blast
qed (use str_in_iff map_append in metis)

lemma lower_seq:
  "\<forall>c \<in> set p. is_lower c \<Longrightarrow>
     list_all2 (class_has False) (map (\<lambda>c. [Lit c, Lit (to_upper c)]) p) w \<longleftrightarrow> str_lower w = p"
  by (induction p arbitrary: w) (auto simp: list_all2_Cons1 str_lower_def lower_iff)

lemma copyright_search:
  "re_search (ignore_case (rx ''Copyright'')) s \<noteq> None \<longleftrightarrow> str_in ''copyright'' (str_lower s)"
proof -
  let ?r = "ignore_case (rx ''Copyright'')"
  have low: "\<forall>c \<in> set ''copyright''. is_lower c" by code_simp
  have "no_backref ?r" by code_simp
  then have "re_search ?r s \<noteq> None \<longleftrightarrow> (\<exists>k. reach (start_cursor s) k \<and> k \<in> Domain (rx_rel ?r))"
    unfolding re_search_def search_from_None_iff by (auto simp: match_at_None_iff)
  also have "\<dots> \<longleftrightarrow> (\<exists>k. reach (start_cursor s) k \<and> (\<exists>w v. rest k = w @ v \<and> str_lower w = ''copyright''))"
    unfolding Domain_iff copyright_pattern class_seq_rel lower_seq [OF low] ..
  also have "\<dots> \<longleftrightarrow> (\<exists>u w v. s = u @ w @ v \<and> str_lower w = ''copyright'')"
  proof (intro iffI; elim exE conjE)
    fix k w v
    assume k: "reach (start_cursor s) k" "rest k = w @ v" "str_lower w = ''copyright''"
    from reach_text [OF k(1)] k(2) have "s = take (pos k - pos (start_cursor s)) s @ w @ v" by simp
    with k(3) show "\<exists>u w v. s = u @ w @ v \<and> str_lower w = ''copyright''" by blast
  next
    fix u w v
    assume s: "s = u @ w @ v" "str_lower w = ''copyright''"
    have "rest (cursor_at s (length u)) = w @ v" by (simp add: cursor_at_def s(1))
    moreover have "reach (start_cursor s) (cursor_at s (length u))"
      by (rule reach_cursor_at) (simp add: s(1))
    ultimately show "\<exists>k. reach (start_cursor s) k \<and> (\<exists>w v. rest k = w @ v \<and> str_lower w = ''copyright'')"
      using s(2) by blast
  qed
  also have "\<dots> \<longleftrightarrow> str_in ''copyright'' (str_lower s)"
    unfolding str_lower_def str_in_map ..
  finally show ?thesis .
qed

text \<open>
  C32: the copyright check passes exactly when one of the lines 1 to 10 holds the word
  \<open>copyright\<close>, in capitals or not.
\<close>

theorem copyright_check:
  "CheckForCopyright filename lines = [] \<longleftrightarrow>
     (\<exists>i. 1 \<le> i \<and> i \<le> 10 \<and> i < length lines \<and> str_in ''copyright'' (str_lower (lines ! i)))"
proof -
  have "set [1..<min (length lines) 11] = {i. 1 \<le> i \<and> i \<le> 10 \<and> i < length lines}" by auto
  then show ?thesis unfolding CheckForCopyright_def copyright_search by auto
qed

lemma split_on_snoc:
  "split_on c (s @ [x]) = (if x = c then split_on c s @ [[]]
     else butlast (split_on c s) @ [last (split_on c s) @ [x]])"
proof (induction s)
  case (Cons y s)
  obtain w ws where "split_on c s = w # ws" by (metis list.exhaust split_on_nonempty)
  with Cons show ?case by (cases ws) auto
qed simp

text \<open>
  C31: the check for the final newline, on the lines that a file's contents give: split at
  newlines, between the two marker lines that \<open>ProcessFileData\<close> adds. It is silent exactly
  for an empty file and for one whose last character is a newline.
\<close>

theorem newline_at_eof_check:
  "CheckForNewlineAtEOF filename (marker # split_on CHR 0x0A contents @ [marker']) = [] \<longleftrightarrow>
     contents = [] \<or> last contents = CHR 0x0A"
proof -
  let ?ls = "split_on CHR 0x0A contents"
  have ne: "?ls \<noteq> []" by simp
  then have n: "(marker # ?ls @ [marker']) ! (length (marker # ?ls @ [marker']) - 2) = last ?ls"
    by (cases ?ls rule: rev_cases) (simp_all add: nth_append)
  have "last ?ls = [] \<longleftrightarrow> contents = [] \<or> last contents = CHR 0x0A"
    by (cases contents rule: rev_cases) (auto simp: split_on_snoc)
  moreover have "\<not> length (marker # ?ls @ [marker']) < 3" using ne by (cases ?ls) auto
  ultimately show ?thesis unfolding CheckForNewlineAtEOF_def n by simp
qed

lemma indent_pattern:
  "rx (raw ''^( *)`S'') = Cat Bol (Cat (Group 1 (Star True (Class False [Lit CHR '' ''])))
     (Class False [NotSpace]))"
  by code_simp

text \<open>
  C33: \<open>GetIndentLevel\<close> is the number of blanks that a line starts with when the next
  character exists and is no white space. Otherwise, for a line of blanks only and for blanks
  followed by a tab or other white space, it is 0, although such a line has leading spaces,
  which the docstring says are counted.
\<close>

theorem indent_level:
  "GetIndentLevel line =
     (let n = length (takeWhile (\<lambda>c. c = CHR '' '') line)
      in if n < length line \<and> \<not> is_space (line ! n) then n else 0)"
proof -
  let ?P = "\<lambda>c. c = CHR '' ''" and ?S = "Star True (Class False [Lit CHR '' ''])"
  let ?p = "raw ''^( *)`S''" and ?w = "takeWhile ?P line"
  have cl: "class_has False [Lit CHR '' ''] = ?P" "class_has False [NotSpace] = (\<lambda>x. \<not> is_space x)"
    by (auto simp: class_has_def fun_eq_iff)
  show ?thesis
  proof (cases "Match ?p line")
    case (Some m)
    from Match_SomeD [OF Some] obtain k0 c0 k1 c1 k2 where
      "(k0, c0) \<in> set (matches Bol (start_cursor line) [])"
      and g: "(k1, c1) \<in> set (matches (Group 1 ?S) k0 c0)"
      and e: "(k2, m_caps m) \<in> set (matches (Class False [NotSpace]) k1 c1)"
      unfolding indent_pattern matches_Cat_iff by blast
    then have same: "k0 = start_cursor line" "c0 = []" by (auto split: if_splits)
    from matches_GroupD [OF g] matches_plainD [of ?S k1 _ k0 c0] obtain w where
      w: "c1 = [(1, pos k0, w)]" "line = w @ rest k1" "(k1, []) \<in> set (matches ?S k0 [])"
      by (auto simp: same)
    from matches_relD [OF _ w(3)] have "(k0, k1) \<in> (char_rel ?P)\<^sup>*" by (simp add: cl)
    from char_star_rest [OF this] w(2) same have sp: "\<forall>x \<in> set w. ?P x" by auto
    from matches_ClassD [OF e] obtain x where
      x: "m_caps m = c1" "rest k1 = x # rest k2" "\<not> is_space x" by (auto simp: cl)
    then have "\<not> ?P x" by (auto simp: is_space_def)
    from takeWhile_append_nth [OF sp this] w(2) x(2) have "?w = w" by metis
    moreover have "grp m 1 = w" by (simp add: grp_caps x w)
    ultimately show ?thesis using Some w(2) x by (simp add: GetIndentLevel_def Let_def)
  next
    case None
    have "\<not> (length ?w < length line \<and> \<not> is_space (line ! length ?w))"
    proof
      assume n: "length ?w < length line \<and> \<not> is_space (line ! length ?w)"
      have "line = ?w @ drop (length ?w) line"
        by (metis append_take_drop_id takeWhile_eq_take)
      with n have l: "line = ?w @ line ! length ?w # drop (Suc (length ?w)) line"
        by (simp add: Cons_nth_drop_Suc)
      from char_starI [of "start_cursor line" ?w _ ?P] l obtain k where
        k: "(start_cursor line, k) \<in> (char_rel ?P)\<^sup>*"
          "rest k = line ! length ?w # drop (Suc (length ?w)) line"
        by (metis set_takeWhileD start_cursor_sel(1))
      have a: "(k, advance k) \<in> char_rel (\<lambda>x. \<not> is_space x)" using n by (intro char_relI [OF k(2)]) simp
      have "(start_cursor line, advance k) \<in> rx_rel (rx ?p)"
        unfolding indent_pattern rx_rel.simps cl
        by (rule relcompI [OF _ relcompI [OF k(1) a]]) (simp add: test_rel_def)
      moreover have "no_backref (rx ?p)" by (simp add: indent_pattern)
      ultimately show False using None Match_None_iff [of ?p line] by blast
    qed
    with None show ?thesis by (auto simp: GetIndentLevel_def Let_def)
  qed
qed

end
