(* ===== verification/Nesting.thy ===== *)
theory Nesting
  imports Expressions File_Checks "HOL-Library.Multiset"
begin

text \<open>
  The classes \<open>_BlockInfo\<close>, \<open>_ExternCInfo\<close>, \<open>_ClassInfo\<close>, \<open>_NamespaceInfo\<close>,
  \<open>_PreprocessorInfo\<close> and \<open>NestingState\<close>: the stack of open blocks, updated line by line.
\<close>

section \<open>Lines\<close>

definition IsMacroDefinition :: "string list \<Rightarrow> nat \<Rightarrow> bool res" where
  "IsMacroDefinition clean_lines linenum =
     bind_res (py_nth clean_lines (int linenum)) (\<lambda>line.
       if Search ''^#define'' line \<noteq> None then Inr True
       else if 0 < linenum then
         bind_res (py_nth clean_lines (int linenum - 1)) (\<lambda>previous.
           Inr (Search (raw ''``$'') previous \<noteq> None))
       else Inr False)"

definition IsForwardClassDeclaration :: "string list \<Rightarrow> nat \<Rightarrow> bool res" where
  "IsForwardClassDeclaration clean_lines linenum =
     bind_res (py_nth clean_lines (int linenum)) (\<lambda>line.
       Inr (Match (raw ''^`s*(`btemplate`b)*.*class`s+`w+;`s*$'') line \<noteq> None))"

section \<open>Blocks\<close>

datatype asm_state = NO_ASM | INSIDE_ASM | END_ASM | BLOCK_ASM

definition MATCH_ASM :: string where
  "MATCH_ASM = raw (''^`s*(?:asm|_asm|__asm|__asm__)'' @ ''(?:`s+(volatile|__volatile__))?'' @ ''`s*[{(]'')"

record class_data =
  class_name :: string
  is_derived :: bool
  access :: string
  is_struct :: bool
  class_indent :: nat
  last_line :: nat

text \<open>The class of a block, with the attributes that only the derived classes have.\<close>

datatype block_kind =
    PlainBlock
  | ExternCBlock
  | ClassBlock class_data
  | NamespaceBlock string

text \<open>
  A block object. Two objects are compared by identity in one place of the program, so
  that a block has an identity, which \<open>copy.deepcopy\<close> does not keep.
\<close>

record block =
  block_id :: nat
  kind :: block_kind
  starting_linenum :: nat
  seen_open_brace :: bool
  open_parentheses :: int
  inline_asm :: asm_state
  check_namespace_indentation :: bool

definition BlockInfo_init :: "nat \<Rightarrow> nat \<Rightarrow> bool \<Rightarrow> block" where
  "BlockInfo_init ident linenum seen =
     \<lparr>block_id = ident, kind = PlainBlock, starting_linenum = linenum, seen_open_brace = seen,
      open_parentheses = 0, inline_asm = NO_ASM, check_namespace_indentation = False\<rparr>"

definition ExternCInfo_init :: "nat \<Rightarrow> nat \<Rightarrow> block" where
  "ExternCInfo_init ident linenum = (BlockInfo_init ident linenum True)\<lparr>kind := ExternCBlock\<rparr>"

text \<open>\<open>name or ''\<close>: the group is \<open>None\<close> for an anonymous namespace.\<close>

definition NamespaceInfo_init :: "nat \<Rightarrow> string option \<Rightarrow> nat \<Rightarrow> block" where
  "NamespaceInfo_init ident name linenum =
     (BlockInfo_init ident linenum False)\<lparr>
        kind := NamespaceBlock (case name of None \<Rightarrow> [] | Some n \<Rightarrow> n),
        check_namespace_indentation := True\<rparr>"

text \<open>The search for the last line of a class: the first line at which the braces balance.\<close>

fun class_last_line :: "string list \<Rightarrow> nat \<Rightarrow> int \<Rightarrow> nat" where
  "class_last_line [] i depth = 0"
| "class_last_line (line # ls) i depth =
     (let depth = depth + int (str_count line ''{'') - int (str_count line ''}'')
      in if depth = 0 then i else class_last_line ls (Suc i) depth)"

definition ClassInfo_init ::
  "nat \<Rightarrow> string \<Rightarrow> string \<Rightarrow> cleansed_lines \<Rightarrow> nat \<Rightarrow> block res" where
  "ClassInfo_init ident name class_or_struct clean_lines linenum =
     bind_res (py_nth (cl_raw_lines clean_lines) (int linenum)) (\<lambda>raw_line.
       Inr ((BlockInfo_init ident linenum False)\<lparr>
         kind := ClassBlock \<lparr>class_name = name, is_derived = False,
           access = (if class_or_struct = ''struct'' then ''public'' else ''private''),
           is_struct = (class_or_struct = ''struct''),
           class_indent = GetIndentLevel raw_line,
           last_line = class_last_line
             (drop linenum (take (NumLines clean_lines) (cl_elided clean_lines))) linenum 0\<rparr>,
         check_namespace_indentation := True\<rparr>))"

definition IsBlockInfo :: "block \<Rightarrow> bool" where
  "IsBlockInfo b \<longleftrightarrow> kind b = PlainBlock"

section \<open>Checks at the ends of a block\<close>

text \<open>\<open>CheckBegin\<close> does something for a class only: it looks for a bare colon.\<close>

definition CheckBegin :: "cleansed_lines \<Rightarrow> nat \<Rightarrow> block \<Rightarrow> block res" where
  "CheckBegin clean_lines linenum b =
     (case kind b of
        ClassBlock c \<Rightarrow>
          bind_res (py_nth (cl_elided clean_lines) (int linenum)) (\<lambda>line.
            if Search ''(^|[^:]):($|[^:])'' line \<noteq> None
            then Inr (b\<lparr>kind := ClassBlock (c\<lparr>is_derived := True\<rparr>)\<rparr>) else Inr b)
      | _ \<Rightarrow> Inr b)"

definition DISALLOW_PATTERN :: "string \<Rightarrow> string" where
  "DISALLOW_PATTERN name =
     raw ''`b(DISALLOW_COPY_AND_ASSIGN|DISALLOW_IMPLICIT_CONSTRUCTORS)`('' @ name @ raw ''`)''"

text \<open>The loop from the line before the closing brace back to the start of the class.\<close>

fun disallow_loop ::
  "string \<Rightarrow> string list \<Rightarrow> string \<Rightarrow> nat \<Rightarrow> nat \<Rightarrow> bool \<Rightarrow> effect list res" where
  "disallow_loop filename elided name start i seen_last_thing_in_class =
     (if i \<le> start then Inr []
      else bind_res (py_nth elided (int i)) (\<lambda>line.
        case Search (DISALLOW_PATTERN name) line of
          Some m \<Rightarrow>
            Inr (if seen_last_thing_in_class
                 then [ErrorCall filename (int i) ''readability/constructors'' 3
                        (grp m 1 @ '' should be the last thing in the class'')]
                 else [])
        | None \<Rightarrow> disallow_loop filename elided name start (i - 1)
            (seen_last_thing_in_class \<or> Match (raw ''^`s*$'') line = None)))"

declare disallow_loop.simps [simp del]

definition class_parent :: "class_data \<Rightarrow> string" where
  "class_parent c = (if is_struct c then ''struct '' else ''class '') @ class_name c"

definition CheckEnd_class ::
  "string \<Rightarrow> cleansed_lines \<Rightarrow> nat \<Rightarrow> nat \<Rightarrow> class_data \<Rightarrow> effect list res" where
  "CheckEnd_class filename clean_lines linenum start c =
     bind_res (disallow_loop filename (cl_elided clean_lines) (class_name c) start (linenum - 1) False)
       (\<lambda>es. bind_res (py_nth (cl_elided clean_lines) (int linenum)) (\<lambda>line.
         Inr (es @ (case Match (raw ''^( *)`}'') line of
              Some indent \<Rightarrow>
                if length (grp indent 1) \<noteq> class_indent c
                then [ErrorCall filename (int linenum) ''whitespace/indent'' 3
                       (''Closing brace should be aligned with beginning of '' @ class_parent c)]
                else []
            | None \<Rightarrow> []))))"

text \<open>\<open>re.escape\<close>: a backslash before everything but letters and digits.\<close>

definition re_escape :: "string \<Rightarrow> string" where
  "re_escape s = concat (map (\<lambda>c. if is_lower c \<or> is_upper c \<or> is_digit c then [c] else [backslash, c]) s)"

definition NAMESPACE_COMMENT :: string where
  "NAMESPACE_COMMENT = raw ''^`s*};*`s*(//|/`*).*`bnamespace`b''"

definition NAMED_NAMESPACE_END :: "string \<Rightarrow> string" where
  "NAMED_NAMESPACE_END name =
     raw ''^`s*};*`s*(//|/`*).*`bnamespace`s+'' @ re_escape name @ raw ''[`*/`.```s]*$''"

definition ANONYMOUS_NAMESPACE_END :: string where
  "ANONYMOUS_NAMESPACE_END = raw ''^`s*};*`s*(//|/`*).*`bnamespace[`*/`.```s]*$''"

definition ANONYMOUS_TEXT :: string where
  "ANONYMOUS_TEXT = raw ''^`s*}.*`b(namespace anonymous|anonymous namespace)`b''"

definition CheckEnd_namespace ::
  "string \<Rightarrow> cleansed_lines \<Rightarrow> nat \<Rightarrow> nat \<Rightarrow> string \<Rightarrow> effect list res" where
  \<open>CheckEnd_namespace filename clean_lines linenum start name =
     bind_res (py_nth (cl_raw_lines clean_lines) (int linenum)) (\<lambda>line.
       let call = (\<lambda>message. ErrorCall filename (int linenum) ''readability/namespace'' 5 message)
       in if int linenum - int start < 10 \<and> Match NAMESPACE_COMMENT line = None then Inr []
          else if name \<noteq> [] then
            (if Match (NAMED_NAMESPACE_END name) line = None
             then Inr [call (''Namespace should be terminated with "// namespace '' @ name @ [dquote])]
             else Inr [])
          else if Match ANONYMOUS_NAMESPACE_END line = None then
            (if Match ANONYMOUS_TEXT line \<noteq> None
             then Inr [call (''Anonymous namespace should be terminated with "// namespace"'' @
                             '' or "// anonymous namespace"'')]
             else Inr [call ''Anonymous namespace should be terminated with "// namespace"''])
          else Inr [])\<close>

definition CheckEnd :: "string \<Rightarrow> cleansed_lines \<Rightarrow> nat \<Rightarrow> block \<Rightarrow> effect list res" where
  "CheckEnd filename clean_lines linenum b =
     (case kind b of
        ClassBlock c \<Rightarrow> CheckEnd_class filename clean_lines linenum (starting_linenum b) c
      | NamespaceBlock name \<Rightarrow>
          CheckEnd_namespace filename clean_lines linenum (starting_linenum b) name
      | _ \<Rightarrow> Inr [])"

section \<open>The nesting state\<close>

text \<open>Stacks have their top first: the head is the last element of the Python list.\<close>

record preprocessor_info =
  stack_before_if :: "block list"
  stack_before_else :: "block list"
  seen_else :: bool

text \<open>
  \<open>previous_stack_top\<close> is a reference to a block; the program reads its class and its
  identity only. \<open>next_id\<close> is the identity of the next object.
\<close>

record nesting_state =
  stack :: "block list"
  previous_stack_top :: "block option"
  pp_stack :: "preprocessor_info list"
  next_id :: nat

definition NestingState_init :: nesting_state where
  "NestingState_init = \<lparr>stack = [], previous_stack_top = None, pp_stack = [], next_id = 0\<rparr>"

definition SeenOpenBrace :: "nesting_state \<Rightarrow> bool" where
  "SeenOpenBrace st = (case stack st of [] \<Rightarrow> True | b # _ \<Rightarrow> seen_open_brace b)"

definition is_class :: "block \<Rightarrow> bool" where
  "is_class b = (case kind b of ClassBlock _ \<Rightarrow> True | _ \<Rightarrow> False)"

definition is_namespace :: "block \<Rightarrow> bool" where
  "is_namespace b = (case kind b of NamespaceBlock _ \<Rightarrow> True | _ \<Rightarrow> False)"

definition InNamespaceBody :: "nesting_state \<Rightarrow> bool" where
  "InNamespaceBody st = (case stack st of [] \<Rightarrow> False | b # _ \<Rightarrow> is_namespace b)"

definition InExternC :: "nesting_state \<Rightarrow> bool" where
  "InExternC st = (case stack st of [] \<Rightarrow> False | b # _ \<Rightarrow> kind b = ExternCBlock)"

definition InClassDeclaration :: "nesting_state \<Rightarrow> bool" where
  "InClassDeclaration st = (case stack st of [] \<Rightarrow> False | b # _ \<Rightarrow> is_class b)"

definition InAsmBlock :: "nesting_state \<Rightarrow> bool" where
  "InAsmBlock st = (case stack st of [] \<Rightarrow> False | b # _ \<Rightarrow> inline_asm b \<noteq> NO_ASM)"

definition InnermostClass :: "nesting_state \<Rightarrow> block option" where
  "InnermostClass st = find is_class (stack st)"

definition CheckCompletedBlocks :: "string \<Rightarrow> nesting_state \<Rightarrow> effect list" where
  "CheckCompletedBlocks filename st =
     concat (map (\<lambda>obj. case kind obj of
         ClassBlock c \<Rightarrow> [ErrorCall filename (int (starting_linenum obj)) ''build/class'' 5
           (''Failed to find complete declaration of class '' @ class_name c)]
       | NamespaceBlock name \<Rightarrow> [ErrorCall filename (int (starting_linenum obj)) ''build/namespaces'' 5
           (''Failed to find complete declaration of namespace '' @ name)]
       | _ \<Rightarrow> []) (rev (stack st)))"

section \<open>Template argument lists\<close>

lemma bind_res_cong [fundef_cong]:
  "m = m' \<Longrightarrow> (\<And>x. m' = Inr x \<Longrightarrow> f x = g x) \<Longrightarrow> bind_res m f = bind_res m' g"
  by (cases m') auto

lemma py_nth_Inr: "py_nth xs (int i) = Inr x \<Longrightarrow> i < length xs \<and> x = xs ! i"
  by (auto simp: py_nth_def Let_def split: if_splits)

lemma Match_end:
  assumes "Match p s = Some m"
  shows "\<exists>k'. (k', m_caps m) \<in> set (matches (rx p) (start_cursor s) []) \<and>
    s = grp m 0 @ rest k'"
proof -
  from assms obtain k' c where k: "matches (rx p) (start_cursor s) [] \<noteq> []"
    "hd (matches (rx p) (start_cursor s) []) = (k', c)" "reach (start_cursor s) k'"
    "m = mk_match (start_cursor s) (k', c)"
    unfolding Match_def re_match_def by (rule match_at_SomeD)
  from k(1,2) have "(k', c) \<in> set (matches (rx p) (start_cursor s) [])" by (metis hd_in_set)
  with reach_text [OF k(3)] k(4) show ?thesis
    by (auto simp: mk_match_def grp_def group_def intro!: exI [of _ k'])
qed

definition TEMPLATE_TOKEN :: string where
  "TEMPLATE_TOKEN = raw ''^[^{};=`[`]`.<>]*(.)''"

lemma template_token_pattern:
  "rx TEMPLATE_TOKEN = Cat Bol (Cat (rx (raw ''[^{};=`[`]`.<>]*'')) (Group 1 Dot))"
  by code_simp

lemma template_token_nonempty:
  assumes "Match TEMPLATE_TOKEN s = Some m"
  shows "grp m 0 \<noteq> []"
proof -
  from Match_end [OF assms] obtain k' where
    m: "(k', m_caps m) \<in> set (matches (rx TEMPLATE_TOKEN) (start_cursor s) [])" "s = grp m 0 @ rest k'"
    by blast
  from m(1) obtain k0 c0 k1 c1 r where "(k0, c0) \<in> set (matches Bol (start_cursor s) [])"
    and k1: "(k1, c1) \<in> set (matches r k0 c0)" and k': "(k', m_caps m) \<in> set (matches (Group 1 Dot) k1 c1)"
    unfolding template_token_pattern matches_Cat_iff by blast
  then have "k0 = start_cursor s" by (auto split: if_splits)
  with reach_length [OF matches_reach [OF k1]] have "length (rest k1) \<le> length s" by simp
  moreover from k' have "length (rest k') < length (rest k1)"
    by (auto simp: one_char_def advance_def split: list.splits if_splits)
  ultimately show ?thesis using m(2) by auto
qed

function (sequential) InTemplateArgumentList :: "cleansed_lines \<Rightarrow> nat \<Rightarrow> nat \<Rightarrow> bool res" where
  "InTemplateArgumentList clean_lines linenum col =
     (if linenum < NumLines clean_lines then
        bind_res (py_nth (cl_elided clean_lines) (int linenum)) (\<lambda>line.
          case Match TEMPLATE_TOKEN (drop col line) of
            None \<Rightarrow> InTemplateArgumentList clean_lines (linenum + 1) 0
          | Some match \<Rightarrow>
              if grp match 1 \<in> {''{'', ''}'', '';''} then Inr False
              else if grp match 1 \<in> {''>'', ''='', ''['', '']'', ''.''} then Inr True
              else if grp match 1 \<noteq> ''<'' then
                (if length line \<le> col + length (grp match 0) + 1
                 then InTemplateArgumentList clean_lines (linenum + 1) 0
                 else InTemplateArgumentList clean_lines linenum (col + length (grp match 0) + 1))
              else
                bind_res (CloseExpression (cl_elided clean_lines) linenum
                           (col + length (grp match 0) - 1))
                  (\<lambda>(_, end_line, end_pos).
                     if end_pos < 0 then Inr False
                     else InTemplateArgumentList clean_lines end_line (nat end_pos)))
      else Inr False)"
  by pat_completeness auto
termination
proof (relation "measures [\<lambda>(cl, n, p). cl_num_lines cl - n, \<lambda>(cl, n, p). length (cl_elided cl ! n) - p]",
    goal_cases)
  case (4 cl n col line m)
  from py_nth_Inr [OF 4(2)] template_token_nonempty [OF 4(3)] group_length [OF 4(3), of 0] 4(7)
  show ?case by (cases "grp m 0") auto
next
  case (5 cl n col line m r xy z n' p)
  let ?c = "col + length (grp m 0) - 1"
  from py_nth_Inr [OF 5(2)] have l: "line = cl_elided cl ! n" by simp
  from template_token_nonempty [OF 5(3)] group_length [OF 5(3), of 0]
  have g: "0 < length (grp m 0)" "length (grp m 0) \<le> length line - col" by auto
  from CloseExpression_progress [of "cl_elided cl" n ?c xy n' p] 5(7-10)
  have "n \<le> n'" "n' = n \<longrightarrow> int ?c + 1 < p \<and> p \<le> int (length line)" by (auto simp: l)
  with g 5(1) show ?case by (cases "n' = n") (auto simp: NumLines_def l)
qed (auto simp: NumLines_def)

declare InTemplateArgumentList.simps [simp del]

section \<open>The preprocessor stack\<close>

text \<open>\<open>copy.deepcopy\<close> of a stack: new objects with the same attributes.\<close>

fun renumber :: "nat \<Rightarrow> block list \<Rightarrow> block list" where
  "renumber n [] = []"
| "renumber n (b # bs) = b\<lparr>block_id := n\<rparr> # renumber (Suc n) bs"

definition PP_IF :: string where
  "PP_IF = raw ''^`s*#`s*(if|ifdef|ifndef)`b''"

definition PP_ELSE :: string where
  "PP_ELSE = raw ''^`s*#`s*(else|elif)`b''"

definition PP_ENDIF :: string where
  "PP_ENDIF = raw ''^`s*#`s*endif`b''"

definition UpdatePreprocessor :: "string \<Rightarrow> nesting_state \<Rightarrow> nesting_state" where
  "UpdatePreprocessor line st =
     (if Match PP_IF line \<noteq> None then
        st\<lparr>pp_stack := \<lparr>stack_before_if = renumber (next_id st) (stack st), stack_before_else = [],
                        seen_else = False\<rparr> # pp_stack st,
           next_id := next_id st + length (stack st)\<rparr>
      else if Match PP_ELSE line \<noteq> None then
        (case pp_stack st of
           [] \<Rightarrow> st
         | p # ps \<Rightarrow>
             (let st1 = (if \<not> seen_else p
                then st\<lparr>pp_stack := p\<lparr>seen_else := True,
                          stack_before_else := renumber (next_id st) (stack st)\<rparr> # ps,
                        next_id := next_id st + length (stack st)\<rparr>
                else st)
              in st1\<lparr>stack := renumber (next_id st1) (stack_before_if p),
                     next_id := next_id st1 + length (stack_before_if p)\<rparr>))
      else if Match PP_ENDIF line \<noteq> None then
        (case pp_stack st of
           [] \<Rightarrow> st
         | p # ps \<Rightarrow>
             (let st1 = (if seen_else p then st\<lparr>stack := stack_before_else p\<rparr> else st)
              in st1\<lparr>pp_stack := ps\<rparr>))
      else st)"

section \<open>Update\<close>

definition push_block :: "block \<Rightarrow> nesting_state \<Rightarrow> nesting_state" where
  "push_block b st = st\<lparr>stack := b # stack st, next_id := Suc (next_id st)\<rparr>"

definition map_top :: "(block \<Rightarrow> block) \<Rightarrow> nesting_state \<Rightarrow> nesting_state" where
  "map_top f st = (case stack st of [] \<Rightarrow> st | b # bs \<Rightarrow> st\<lparr>stack := f b # bs\<rparr>)"

definition pop_block :: "nesting_state \<Rightarrow> nesting_state" where
  "pop_block st = st\<lparr>stack := tl (stack st)\<rparr>"

text \<open>The parentheses of the innermost block and its assembler state.\<close>

definition count_parentheses :: "string \<Rightarrow> block \<Rightarrow> block" where
  "count_parentheses line inner_block =
     (let depth_change = int (str_count line ''('') - int (str_count line '')'');
          b = inner_block\<lparr>open_parentheses := open_parentheses inner_block + depth_change\<rparr>
      in if inline_asm b = NO_ASM \<or> inline_asm b = END_ASM then
           (if depth_change \<noteq> 0 \<and> open_parentheses b = 1 \<and> re_match (rx MATCH_ASM) line \<noteq> None
            then b\<lparr>inline_asm := INSIDE_ASM\<rparr> else b\<lparr>inline_asm := NO_ASM\<rparr>)
         else if inline_asm b = INSIDE_ASM \<and> open_parentheses b = 0
         then b\<lparr>inline_asm := END_ASM\<rparr>
         else b)"

definition NAMESPACE_DECL :: string where
  "NAMESPACE_DECL = raw ''^`s*namespace`b`s*([:`w]+)?(.*)$''"

lemma namespace_pattern:
  "rx NAMESPACE_DECL = Cat Bol (Cat (Star True (Class False [Space])) (Cat (Class False [Lit CHR ''n''])
     (rx (raw ''amespace`b`s*([:`w]+)?(.*)$''))))"
  by code_simp

text \<open>A group that a part of a pattern captures is not longer than what that part reads.\<close>

lemma capture_length:
  assumes "(k', c') \<in> set (matches r k c)" and "map_of c' n = Some (i, t)" and "map_of c n = None"
  shows "length t \<le> length (rest k)"
proof -
  from matches_captures [OF assms(1)] obtain d where
    d: "c' = d @ c" "\<forall>x \<in> set d. capture_ok (groups_of r) k x" by (auto simp: captures_ok_def)
  with assms(2,3) have "map_of d n = Some (i, t)" by (auto simp: map_add_def split: option.splits)
  then have "(n, i, t) \<in> set d" by (rule map_of_SomeD)
  with d(2) have ok: "capture_ok (groups_of r) k (n, i, t)" by blast
  then obtain k1 and k2 :: cursor where k: "reach k k1" "rest k1 = t @ rest k2"
    unfolding capture_ok_def by auto
  from reach_length [OF k(1)] k(2) show ?thesis by simp
qed

lemma namespace_shorter:
  assumes "Match NAMESPACE_DECL line = Some m"
  shows "length (grp m 2) < length line"
proof -
  from Match_SomeD [OF assms] obtain k0 c0 k1 c1 k2 c2 k3 r where
    k0: "(k0, c0) \<in> set (matches Bol (start_cursor line) [])"
    and k1: "(k1, c1) \<in> set (matches (Star True (Class False [Space])) k0 c0)"
    and k2: "(k2, c2) \<in> set (matches (Class False [Lit CHR ''n'']) k1 c1)"
    and k3: "(k3, m_caps m) \<in> set (matches r k2 c2)"
    unfolding namespace_pattern matches_Cat_iff by blast
  from k0 have "k0 = start_cursor line" "c0 = []" by (auto split: if_splits)
  with matches_plainD [OF _ k1] matches_ClassD [OF k2] obtain w x where
    c: "c2 = []" and l: "line = w @ x # rest k2" by auto
  have "length (grp m 2) \<le> length (rest k2)"
    using capture_length [OF k3, of 2] c by (auto simp: grp_caps split: option.splits)
  with l show ?thesis by simp
qed

function (sequential) namespace_loop ::
  "nat \<Rightarrow> nesting_state \<Rightarrow> string \<Rightarrow> nesting_state \<times> string" where
  "namespace_loop linenum st line =
     (case Match NAMESPACE_DECL line of
        None \<Rightarrow> (st, line)
      | Some m \<Rightarrow>
          (let new_namespace = NamespaceInfo_init (next_id st) (group m 1) linenum
           in case str_find (grp m 2) ''{'' of
                None \<Rightarrow> namespace_loop linenum (push_block new_namespace st) (grp m 2)
              | Some p \<Rightarrow> namespace_loop linenum
                  (push_block (new_namespace\<lparr>seen_open_brace := True\<rparr>) st) (drop (p + 1) (grp m 2))))"
  by pat_completeness auto
termination
  by (relation "measure (\<lambda>(n, st, line). length line)") (auto dest!: namespace_shorter)

declare namespace_loop.simps [simp del]

definition CLASS_DECL :: string where
  "CLASS_DECL = raw (''^(`s*(?:template`s*<[`w`s<>,:]*>`s*)?'' @
     ''(class|struct)`s+(?:[A-Z_]+`s+)*(`w+(?:::`w+)*))'' @ ''(.*)$'')"

definition class_declaration ::
  "cleansed_lines \<Rightarrow> nat \<Rightarrow> nesting_state \<Rightarrow> string \<Rightarrow> (nesting_state \<times> string) res" where
  "class_declaration clean_lines linenum st line =
     (case Match CLASS_DECL line of
        None \<Rightarrow> Inr (st, line)
      | Some m \<Rightarrow>
          if stack st = [] \<or> open_parentheses (hd (stack st)) = 0 then
            bind_res (InTemplateArgumentList clean_lines linenum (length (grp m 1))) (\<lambda>inside.
              if inside then Inr (st, line)
              else bind_res (ClassInfo_init (next_id st) (grp m 3) (grp m 2) clean_lines linenum)
                (\<lambda>b. Inr (push_block b st, grp m 4)))
          else Inr (st, line))"

definition check_begin :: "cleansed_lines \<Rightarrow> nat \<Rightarrow> nesting_state \<Rightarrow> nesting_state res" where
  "check_begin clean_lines linenum st =
     (case stack st of
        [] \<Rightarrow> Inr st
      | b # bs \<Rightarrow>
          if \<not> SeenOpenBrace st
          then bind_res (CheckBegin clean_lines linenum b) (\<lambda>b'. Inr (st\<lparr>stack := b' # bs\<rparr>))
          else Inr st)"

definition ACCESS_PATTERN :: string where
  "ACCESS_PATTERN = raw (''^(.*)`b(public|private|protected|signals)(`s+(?:slots`s*)?)?'' @ '':(?:[^:]|$)'')"

text \<open>Access control inside a class: the new access, and the check of its indentation.\<close>

definition access_control ::
  "string \<Rightarrow> nat \<Rightarrow> nesting_state \<Rightarrow> string \<Rightarrow> nesting_state \<times> effect list" where
  "access_control filename linenum st line =
     (case stack st of
        [] \<Rightarrow> (st, [])
      | b # bs \<Rightarrow>
          (case kind b of
             ClassBlock classinfo \<Rightarrow>
               (case Match ACCESS_PATTERN line of
                  None \<Rightarrow> (st, [])
                | Some m \<Rightarrow>
                    (st\<lparr>stack := b\<lparr>kind := ClassBlock (classinfo\<lparr>access := grp m 2\<rparr>)\<rparr> # bs\<rparr>,
                     if length (grp m 1) \<noteq> class_indent classinfo + 1 \<and>
                        Match (raw ''^`s*$'') (grp m 1) \<noteq> None
                     then [ErrorCall filename (int linenum) ''whitespace/indent'' 3
                            (grp m 2 @ grp m 3 @ '': should be indented +1 space inside '' @
                             class_parent classinfo)]
                     else []))
           | _ \<Rightarrow> (st, [])))"

definition BRACE_PATTERN :: string where
  "BRACE_PATTERN = raw ''^[^{;)}]*([{;)}])(.*)$''"

definition EXTERN_PATTERN :: string where
  \<open>EXTERN_PATTERN = raw ''^extern`s*"[^"]*"`s*`{''\<close>

text \<open>An opening brace: it completes the head of a class or namespace, or opens a block.\<close>

definition open_brace :: "nat \<Rightarrow> string \<Rightarrow> nesting_state \<Rightarrow> nesting_state" where
  "open_brace linenum line st =
     (if \<not> SeenOpenBrace st then map_top (\<lambda>b. b\<lparr>seen_open_brace := True\<rparr>) st
      else if Match EXTERN_PATTERN line \<noteq> None then
        push_block (ExternCInfo_init (next_id st) linenum) st
      else
        push_block ((BlockInfo_init (next_id st) linenum True)\<lparr>
          inline_asm := (if re_match (rx MATCH_ASM) line \<noteq> None then BLOCK_ASM else NO_ASM)\<rparr>) st)"

lemma brace_pattern:
  "rx BRACE_PATTERN =
     Cat Bol (Cat (Star True (Class True [Lit CHR ''{'', Lit CHR '';'', Lit CHR '')'', Lit CHR ''}'']))
       (Cat (Group 1 (Class False [Lit CHR ''{'', Lit CHR '';'', Lit CHR '')'', Lit CHR ''}'']))
         (Cat (Group 2 (Star True Dot)) Eol)))"
  by code_simp

abbreviation brace_token :: "char \<Rightarrow> bool" where
  "brace_token c \<equiv> c \<in> {CHR ''{'', CHR '';'', CHR '')'', CHR ''}''}"

lemma brace_division:
  assumes "Match BRACE_PATTERN line = Some m"
  shows "\<exists>w c y. line = w @ c # grp m 2 @ y \<and> grp m 1 = [c] \<and> brace_token c \<and>
    (\<forall>x \<in> set w. \<not> brace_token x) \<and> (y = [] \<or> y = [CHR 0x0A])"
proof -
  let ?T = "[Lit CHR ''{'', Lit CHR '';'', Lit CHR '')'', Lit CHR ''}'']"
  have cl: "class_has True ?T = (\<lambda>x. \<not> brace_token x)" "class_has False ?T = brace_token"
    by (auto simp: class_has_def fun_eq_iff)
  from Match_SomeD [OF assms] obtain k0 c0 k1 c1 k2 c2 k3 c3 k4 where
    k0: "(k0, c0) \<in> set (matches Bol (start_cursor line) [])"
    and s: "(k1, c1) \<in> set (matches (Star True (Class True ?T)) k0 c0)"
    and g1: "(k2, c2) \<in> set (matches (Group 1 (Class False ?T)) k1 c1)"
    and g2: "(k3, c3) \<in> set (matches (Group 2 (Star True Dot)) k2 c2)"
    and e: "(k4, m_caps m) \<in> set (matches Eol k3 c3)"
    unfolding brace_pattern matches_Cat_iff by blast
  from k0 e have same: "k0 = start_cursor line" "c0 = []" "m_caps m = c3"
    and eol: "rest k3 = [] \<or> rest k3 = [CHR 0x0A]" by (auto split: if_splits)
  from matches_plainD [OF _ s] same have c1: "c1 = []" by simp
  from matches_relD [OF _ s] have "(k0, k1) \<in> (char_rel (\<lambda>x. \<not> brace_token x))\<^sup>*" by (simp add: cl)
  from char_star_rest [OF this] same obtain w where
    w: "line = w @ rest k1" "\<forall>x \<in> set w. \<not> brace_token x" by auto
  from matches_GroupD [OF g1] obtain w1 c2' where
    w1: "c2 = (1, pos k1, w1) # c2'" "rest k1 = w1 @ rest k2" "(k2, c2') \<in> set (matches (Class False ?T) k1 c1)"
    by blast
  from matches_ClassD [OF w1(3)] w1(2) obtain c where c: "c2' = []" "w1 = [c]" "brace_token c"
    by (auto simp: cl c1)
  from matches_GroupD [OF g2] matches_plainD [of "Star True Dot" k3 _ k2 c2] obtain w2 where
    w2: "c3 = (2, pos k2, w2) # c2" "rest k2 = w2 @ rest k3" by auto
  have g: "grp m 1 = [c]" "grp m 2 = w2" by (simp_all add: grp_caps same w1 w2 c)
  have "line = w @ c # grp m 2 @ rest k3" using w(1) w1(2) w2(2) c(2) g(2) by simp
  with g(1) w(2) c(3) eol show ?thesis by blast
qed

lemma brace_shorter: "Match BRACE_PATTERN line = Some m \<Longrightarrow> length (grp m 2) < length line"
proof -
  assume "Match BRACE_PATTERN line = Some m"
  from brace_division [OF this] obtain w c y where "line = w @ c # grp m 2 @ y" by blast
  from arg_cong [OF this, of length] show ?thesis by simp
qed

text \<open>The last loop: braces, semicolons and closing parentheses from what is left of the line.\<close>

function (sequential) brace_loop ::
  "string \<Rightarrow> cleansed_lines \<Rightarrow> nat \<Rightarrow> nesting_state \<Rightarrow> string \<Rightarrow> (nesting_state \<times> effect list) res" where
  "brace_loop filename clean_lines linenum st line =
     (case Match BRACE_PATTERN line of
        None \<Rightarrow> Inr (st, [])
      | Some matched \<Rightarrow>
          if grp matched 1 = ''{'' then
            brace_loop filename clean_lines linenum (open_brace linenum line st) (grp matched 2)
          else if grp matched 1 = '';'' \<or> grp matched 1 = '')'' then
            brace_loop filename clean_lines linenum
              (if \<not> SeenOpenBrace st then pop_block st else st) (grp matched 2)
          else
            (case stack st of
               [] \<Rightarrow> brace_loop filename clean_lines linenum st (grp matched 2)
             | b # _ \<Rightarrow>
                 bind_res (CheckEnd filename clean_lines linenum b) (\<lambda>es.
                 bind_res (brace_loop filename clean_lines linenum (pop_block st) (grp matched 2))
                   (\<lambda>(st', es'). Inr (st', es @ es')))))"
  by pat_completeness auto
termination
  by (relation "measure (\<lambda>(f, cl, n, st, line). length line)") (auto dest!: brace_shorter)

declare brace_loop.simps [simp del]

definition Update ::
  "string \<Rightarrow> cleansed_lines \<Rightarrow> nat \<Rightarrow> nesting_state \<Rightarrow> (nesting_state \<times> effect list) res" where
  "Update filename clean_lines linenum st =
     bind_res (py_nth (cl_elided clean_lines) (int linenum)) (\<lambda>line.
       let st = st\<lparr>previous_stack_top := (case stack st of [] \<Rightarrow> None | b # _ \<Rightarrow> Some b)\<rparr>;
           st = UpdatePreprocessor line st;
           st = map_top (count_parentheses line) st;
           (st, line) = namespace_loop linenum st line
       in bind_res (class_declaration clean_lines linenum st line) (\<lambda>(st, line).
          bind_res (check_begin clean_lines linenum st) (\<lambda>st.
            case access_control filename linenum st line of
              (st, es) \<Rightarrow>
                bind_res (brace_loop filename clean_lines linenum st line) (\<lambda>(st, es').
                  Inr (st, es @ es')))))"

section \<open>Properties of the preprocessor stack\<close>

text \<open>Stacks of blocks that differ in the identities of the objects at most.\<close>

definition anonymous :: "block list \<Rightarrow> block list" where
  "anonymous bs = map (\<lambda>b. b\<lparr>block_id := 0\<rparr>) bs"

lemma anonymous_renumber [simp]: "anonymous (renumber n bs) = anonymous bs"
  by (induction n bs rule: renumber.induct) (simp_all add: anonymous_def)

text \<open>
  C7: conditional compilation. Let \<open>#if\<close> be read in a state, then text that leaves the
  preprocessor stack as it was, \<open>#else\<close>, again such text, and \<open>#endif\<close>. The second branch
  starts from the blocks that were open at the \<open>#if\<close>, whatever the first one did; after the
  \<open>#endif\<close> the blocks are those at the end of the first branch, whatever the second one did;
  and the preprocessor stack is back to what it was.
\<close>

theorem preprocessor_branches:
  assumes "Match PP_IF if_line \<noteq> None"
    and "Match PP_IF else_line = None" "Match PP_ELSE else_line \<noteq> None"
    and "Match PP_IF endif_line = None" "Match PP_ELSE endif_line = None" "Match PP_ENDIF endif_line \<noteq> None"
    and "pp_stack st2 = pp_stack (UpdatePreprocessor if_line st1)"
    and "pp_stack st3 = pp_stack (UpdatePreprocessor else_line st2)"
  shows "anonymous (stack (UpdatePreprocessor else_line st2)) = anonymous (stack st1) \<and>
    anonymous (stack (UpdatePreprocessor endif_line st3)) = anonymous (stack st2) \<and>
    pp_stack (UpdatePreprocessor endif_line st3) = pp_stack st1"
  using assms by (simp add: UpdatePreprocessor_def Let_def)

theorem preprocessor_branches_witness:
  "pp_stack (UpdatePreprocessor ''#endif'' (UpdatePreprocessor ''#else''
     (UpdatePreprocessor ''#ifdef A'' NestingState_init))) = []"
proof -
  have "Match PP_IF ''#ifdef A'' \<noteq> None" "Match PP_IF ''#else'' = None" "Match PP_ELSE ''#else'' \<noteq> None"
    "Match PP_IF ''#endif'' = None" "Match PP_ELSE ''#endif'' = None" "Match PP_ENDIF ''#endif'' \<noteq> None"
    by code_simp+
  from preprocessor_branches [OF this refl refl, of NestingState_init] show ?thesis
    by (simp add: NestingState_init_def)
qed

section \<open>Update returns\<close>

definition cl_wf :: "cleansed_lines \<Rightarrow> bool" where
  "cl_wf c \<longleftrightarrow> length (cl_elided c) = cl_num_lines c \<and> length (cl_raw_lines c) = cl_num_lines c \<and>
     length (cl_lines c) = cl_num_lines c \<and> length (cl_lines_without_raw_strings c) = cl_num_lines c"

lemma InTemplateArgumentList_returns:
  "cl_wf c \<Longrightarrow> \<exists>b. InTemplateArgumentList c n col = Inr b"
proof (induction c n col rule: InTemplateArgumentList.induct)
  case (1 c n col)
  show ?case
  proof (cases "n < NumLines c")
    case True
    then have n: "n < length (cl_elided c)" using "1.prems" by (simp add: cl_wf_def NumLines_def)
    let ?l = "cl_elided c ! n"
    have l: "py_nth (cl_elided c) (int n) = Inr ?l" using n by simp
    show ?thesis
    proof (cases "Match TEMPLATE_TOKEN (drop col ?l)")
      case None
      with "1.IH"(1) [OF True l None "1.prems"] True l show ?thesis
        by (subst InTemplateArgumentList.simps) simp
    next
      case (Some m)
      let ?c = "col + length (grp m 0) - 1"
      from template_token_nonempty [OF Some] group_length [OF Some, of 0]
      have "?c < length ?l" by (cases "grp m 0") auto
      from CloseExpression_returns [OF n this] obtain x n' p where
        ce: "CloseExpression (cl_elided c) n ?c = Inr (x, n', p)" by auto
      show ?thesis
        using "1.IH"(2-4) [OF True l Some] "1.prems" True l Some ce
        by (subst InTemplateArgumentList.simps) auto
    qed
  qed (auto simp: InTemplateArgumentList.simps [of c n col])
qed

lemma disallow_loop_returns:
  "i < length elided \<Longrightarrow> \<exists>es. disallow_loop f elided name start i seen = Inr es"
proof (induction f elided name start i seen rule: disallow_loop.induct)
  case (1 f elided name start i seen)
  then show ?case by (subst disallow_loop.simps) (auto split: option.splits)
qed

lemma CheckEnd_returns:
  assumes "cl_wf c" "n < NumLines c"
  shows "\<exists>es. CheckEnd f c n b = Inr es"
proof -
  have n: "n < length (cl_elided c)" "n < length (cl_raw_lines c)" "n - 1 < length (cl_elided c)"
    using assms by (auto simp: cl_wf_def NumLines_def)
  have "\<exists>es. CheckEnd_class f c n s d = Inr es" for s d
    using disallow_loop_returns [OF n(3), of f "class_name d" s False] n(1)
    by (auto simp: CheckEnd_class_def)
  moreover have "\<exists>es. CheckEnd_namespace f c n s name = Inr es" for s name
    using n(2) by (simp add: CheckEnd_namespace_def Let_def)
  ultimately show ?thesis by (auto simp: CheckEnd_def split: block_kind.splits)
qed

lemma brace_loop_returns:
  "cl_wf c \<Longrightarrow> n < NumLines c \<Longrightarrow> \<exists>r. brace_loop f c n st line = Inr r"
proof (induction f c n st line rule: brace_loop.induct)
  case (1 f c n st line)
  show ?case
  proof (cases "Match BRACE_PATTERN line")
    case None
    then show ?thesis by (subst brace_loop.simps) simp
  next
    case (Some m)
    obtain es where es: "\<And>b. \<exists>es. CheckEnd f c n b = Inr es" using CheckEnd_returns [OF "1.prems"] by blast
    show ?thesis
    proof (cases "stack st")
      case Nil
      with "1.IH"(1,2) [OF Some] "1.IH"(3) [OF Some _ _ Nil] "1.prems" Some show ?thesis
        by (subst brace_loop.simps) simp
    next
      case (Cons b bs)
      from es obtain e where e: "CheckEnd f c n b = Inr e" by blast
      from "1.IH"(1,2) [OF Some] "1.IH"(4) [OF Some _ _ Cons e] "1.prems" Some Cons e show ?thesis
        by (subst brace_loop.simps) auto
    qed
  qed
qed

lemma class_declaration_returns:
  assumes "cl_wf c" "n < NumLines c"
  shows "\<exists>r. class_declaration c n st line = Inr r"
proof -
  have n: "n < length (cl_raw_lines c)" using assms by (simp add: cl_wf_def NumLines_def)
  show ?thesis
  proof (cases "Match CLASS_DECL line")
    case (Some m)
    from InTemplateArgumentList_returns [OF assms(1)] obtain b where
      "InTemplateArgumentList c n (length (grp m 1)) = Inr b" by blast
    then show ?thesis using Some n by (auto simp: class_declaration_def ClassInfo_init_def)
  qed (simp add: class_declaration_def)
qed

lemma check_begin_returns:
  assumes "cl_wf c" "n < NumLines c"
  shows "\<exists>st'. check_begin c n st = Inr st'"
  using assms by (auto simp: check_begin_def CheckBegin_def cl_wf_def NumLines_def
      split: list.splits block_kind.splits)

lemma Update_returns:
  assumes "cl_wf c" "n < NumLines c"
  shows "\<exists>r. Update f c n st = Inr r"
proof -
  have l: "py_nth (cl_elided c) (int n) = Inr (cl_elided c ! n)"
    using assms by (simp add: cl_wf_def NumLines_def)
  obtain st1 line where nl: "namespace_loop n (map_top (count_parentheses (cl_elided c ! n))
      (UpdatePreprocessor (cl_elided c ! n) (st\<lparr>previous_stack_top := (case stack st of [] \<Rightarrow> None | b # _ \<Rightarrow> Some b)\<rparr>)))
      (cl_elided c ! n) = (st1, line)" by fastforce
  from class_declaration_returns [OF assms] obtain st2 line2 where
    cd: "class_declaration c n st1 line = Inr (st2, line2)" by fastforce
  from check_begin_returns [OF assms] obtain st3 where cb: "check_begin c n st2 = Inr st3" by blast
  obtain st4 es where ac: "access_control f n st3 line2 = (st4, es)" by fastforce
  from brace_loop_returns [OF assms] obtain st5 es' where
    bl: "brace_loop f c n st4 line2 = Inr (st5, es')" by fastforce
  show ?thesis unfolding Update_def Let_def l by (simp add: nl cd cb ac bl)
qed

section \<open>Refinement of a machine on braces\<close>

text \<open>For every open block whether its opening brace was seen, innermost first.\<close>

definition open_blocks :: "nesting_state \<Rightarrow> bool list" where
  "open_blocks st = map seen_open_brace (stack st)"

fun brace_step :: "bool list \<Rightarrow> char \<Rightarrow> bool list" where
  "brace_step bs c =
     (if c = CHR ''{'' then (case bs of False # bs' \<Rightarrow> True # bs' | _ \<Rightarrow> True # bs)
      else if c = CHR '';'' \<or> c = CHR '')'' then (case bs of False # bs' \<Rightarrow> bs' | _ \<Rightarrow> bs)
      else if c = CHR ''}'' then tl bs
      else bs)"

declare brace_step.simps [simp del]

lemma brace_step_Nil: "brace_step [] CHR ''}'' = []"
  by (simp add: brace_step.simps)

lemma brace_step_other: "\<forall>x \<in> set w. \<not> brace_token x \<Longrightarrow> foldl brace_step bs w = bs"
  by (induction w) (auto simp: brace_step.simps)

lemma brace_classes:
  "class_has True [Lit CHR ''{'', Lit CHR '';'', Lit CHR '')'', Lit CHR ''}''] = (\<lambda>x. \<not> brace_token x)"
  "class_has False [Lit CHR ''{'', Lit CHR '';'', Lit CHR '')'', Lit CHR ''}''] = brace_token"
  by (auto simp: class_has_def fun_eq_iff)

lemma brace_match:
  assumes "single_line line" and "x \<in> set line" "brace_token x"
  shows "Match BRACE_PATTERN line \<noteq> None"
proof -
  let ?T = "[Lit CHR ''{'', Lit CHR '';'', Lit CHR '')'', Lit CHR ''}'']"
  let ?k = "start_cursor line"
  from assms(2,3) have "\<exists>x \<in> set line. brace_token x" by (rule bexI [rotated])
  from split_list_first_prop [OF this] obtain w c v where
    l: "line = w @ c # v" and c: "brace_token c" and w: "\<forall>x \<in> set w. \<not> brace_token x" by (elim exE conjE)
  from char_starI [of ?k w "c # v" "\<lambda>x. \<not> brace_token x"] l w obtain k1 where
    k1: "(?k, k1) \<in> (char_rel (\<lambda>x. \<not> brace_token x))\<^sup>*" "rest k1 = c # v" by auto
  let ?k2 = "advance k1"
  have k2: "(k1, ?k2) \<in> char_rel brace_token" by (rule char_relI [of _ c v]) (use k1(2) c in auto)
  have "rest ?k2 = v @ []" using k1(2) by (simp add: advance_def)
  from char_starI [OF this, of not_newline] assms(1) l obtain k3 where
    k3: "(?k2, k3) \<in> (char_rel not_newline)\<^sup>*" "rest k3 = []"
    by (auto simp: not_newline_def)
  have "(?k, ?k) \<in> rx_rel Bol" "(?k, k1) \<in> rx_rel (Star True (Class True ?T))"
    "(k1, ?k2) \<in> rx_rel (Group 1 (Class False ?T))" "(?k2, k3) \<in> rx_rel (Group 2 (Star True Dot))"
    "(k3, k3) \<in> rx_rel Eol"
    using k1(1) k2 k3 by (simp_all add: test_rel_def brace_classes)
  then have "(?k, k3) \<in> rx_rel (rx BRACE_PATTERN)"
    unfolding brace_pattern rx_rel.simps(5) by (meson relcompI)
  moreover have "no_backref (rx BRACE_PATTERN)" unfolding brace_pattern by simp
  ultimately show ?thesis using Match_None_iff [of BRACE_PATTERN line] by blast
qed

lemma open_blocks_open:
  "open_blocks (open_brace n line st) = brace_step (open_blocks st) CHR ''{''"
  by (cases "stack st") (auto simp: open_blocks_def brace_step.simps open_brace_def SeenOpenBrace_def
      map_top_def push_block_def ExternCInfo_init_def BlockInfo_init_def split: bool.splits)

lemma open_blocks_semicolon:
  "c = CHR '';'' \<or> c = CHR '')'' \<Longrightarrow>
   open_blocks (if \<not> SeenOpenBrace st then pop_block st else st) = brace_step (open_blocks st) c"
  by (cases "stack st") (auto simp: open_blocks_def brace_step.simps SeenOpenBrace_def pop_block_def split: bool.splits)

lemma open_blocks_close: "open_blocks (pop_block st) = brace_step (open_blocks st) CHR ''}''"
  by (cases "stack st") (auto simp: open_blocks_def brace_step.simps pop_block_def)

lemma brace_loop_braces:
  "single_line line \<Longrightarrow> brace_loop f c n st line = Inr (st', es) \<Longrightarrow>
   open_blocks st' = foldl brace_step (open_blocks st) line"
proof (induction f c n st line arbitrary: es rule: brace_loop.induct)
  case (1 f c n st line)
  note run = "1.prems"(2) [unfolded brace_loop.simps [of f c n st line]]
  show ?case
  proof (cases "Match BRACE_PATTERN line")
    case None
    with brace_match [OF "1.prems"(1)] have "\<forall>x \<in> set line. \<not> brace_token x" by blast
    with None run show ?thesis by (simp add: brace_step_other)
  next
    case (Some m)
    from brace_division [OF Some] obtain w t y where
      d: "line = w @ t # grp m 2 @ y" "grp m 1 = [t]" "brace_token t" "\<forall>x \<in> set w. \<not> brace_token x"
      "y = [] \<or> y = [CHR 0x0A]" by blast
    from d(1,5) "1.prems"(1) have y: "y = []" and sl: "single_line (grp m 2)" by auto
    have fold: "foldl brace_step (open_blocks st) line = foldl brace_step (brace_step (open_blocks st) t) (grp m 2)"
      using d(1) y brace_step_other [OF d(4)] by simp
    consider "t = CHR ''{''" | "t = CHR '';'' \<or> t = CHR '')''" | "t = CHR ''}''" using d(3) by auto
    then show ?thesis
    proof cases
      case 1
      with "1.IH"(1) [OF Some _ sl] run Some d(2) show ?thesis by (simp add: fold open_blocks_open)
    next
      case 2
      then have "brace_loop f c n (if \<not> SeenOpenBrace st then pop_block st else st) (grp m 2) = Inr (st', es)"
        using run Some d(2) by auto
      with "1.IH"(2) [OF Some _ _ sl] 2 d(2) show ?thesis
        by (auto simp: fold simp flip: open_blocks_semicolon)
    next
      case 3
      show ?thesis
      proof (cases "stack st")
        case Nil
        with 3 "1.IH"(3) [OF Some _ _ Nil sl] run Some d(2) show ?thesis
          unfolding fold by (simp add: open_blocks_def brace_step_Nil)
      next
        case (Cons b bs)
        with 3 "1.IH"(4) [OF Some _ _ Cons _ sl] run Some d(2) show ?thesis
          by (auto simp: fold open_blocks_close)
      qed
    qed
  qed
qed

text \<open>A line that holds neither a preprocessor directive nor the head of a namespace or class.\<close>

definition plain_line :: "string \<Rightarrow> bool" where
  "plain_line line \<longleftrightarrow> single_line line \<and> Match PP_IF line = None \<and> Match PP_ELSE line = None \<and>
     Match PP_ENDIF line = None \<and> Match NAMESPACE_DECL line = None \<and> Match CLASS_DECL line = None"

lemma open_blocks_updates:
  "open_blocks (st\<lparr>previous_stack_top := p\<rparr>) = open_blocks st"
  "(\<And>b. seen_open_brace (g b) = seen_open_brace b) \<Longrightarrow> open_blocks (map_top g st) = open_blocks st"
  by (cases "stack st"; simp add: open_blocks_def map_top_def)+

lemma seen_count_parentheses: "seen_open_brace (count_parentheses line b) = seen_open_brace b"
  by (simp add: count_parentheses_def Let_def)

lemma check_begin_open: "check_begin c n st = Inr st' \<Longrightarrow> open_blocks st' = open_blocks st"
  by (auto simp: check_begin_def CheckBegin_def open_blocks_def split: list.splits if_splits block_kind.splits)

lemma access_control_open: "open_blocks (fst (access_control f n st line)) = open_blocks st"
  by (simp add: access_control_def open_blocks_def split: list.splits block_kind.splits option.splits)

lemma Update_plain:
  assumes "cl_wf c" "n < NumLines c" "plain_line (cl_elided c ! n)"
  shows "\<exists>st' es. Update f c n st = Inr (st', es) \<and>
    open_blocks st' = foldl brace_step (open_blocks st) (cl_elided c ! n)"
proof -
  let ?l = "cl_elided c ! n"
  from Update_returns [OF assms(1,2)] obtain st' es where r: "Update f c n st = Inr (st', es)" by fastforce
  have l: "py_nth (cl_elided c) (int n) = Inr ?l" using assms(1,2) by (simp add: cl_wf_def NumLines_def)
  let ?st1 = "map_top (count_parentheses ?l)
      (st\<lparr>previous_stack_top := (case stack st of [] \<Rightarrow> None | b # _ \<Rightarrow> Some b)\<rparr>)"
  have ns: "namespace_loop n st0 ?l = (st0, ?l)" for st0
    using assms(3) by (subst namespace_loop.simps) (simp add: plain_line_def)
  from r assms(3) obtain st2 es1 es2 where
    cb: "check_begin c n ?st1 = Inr st2" and
    bl: "brace_loop f c n (fst (access_control f n st2 ?l)) ?l = Inr (st', es2)"
    by (auto simp: Update_def l Let_def plain_line_def UpdatePreprocessor_def class_declaration_def ns
        case_prod_beta)
  from brace_loop_braces [OF _ bl] assms(3)
  have "open_blocks st' = foldl brace_step (open_blocks (fst (access_control f n st2 ?l))) ?l"
    by (simp add: plain_line_def)
  then show ?thesis using r check_begin_open [OF cb]
    by (simp add: access_control_open open_blocks_updates seen_count_parentheses)
qed
text \<open>With every head completed, only the number of open blocks matters.\<close>

fun depth_step :: "nat \<Rightarrow> char \<Rightarrow> nat" where
  "depth_step d c = (if c = CHR ''{'' then d + 1 else if c = CHR ''}'' then d - 1 else d)"

lemma map_replicate_True: "map P xs = replicate d True \<longleftrightarrow> length xs = d \<and> list_all P xs"
proof (induction xs arbitrary: d)
  case (Cons x xs)
  then show ?case by (cases d) auto
qed auto

lemma brace_step_depth:
  "brace_step (replicate d True) c = replicate (depth_step d c) True"
  by (cases d) (auto simp: brace_step.simps)

lemma brace_fold_depth:
  "foldl brace_step (replicate d True) s = replicate (foldl depth_step d s) True"
  by (induction s arbitrary: d) (simp_all add: brace_step_depth del: depth_step.simps)

text \<open>
  C4: \<open>NestingState.Update\<close> refines a machine on the characters of the line. On a line
  without preprocessor directive, namespace or class head it returns, and the blocks it leaves open are
  those of the machine that reads the line character by character: an opening brace completes
  the innermost head that still waits for one or opens a block, a semicolon or closing
  parenthesis drops such a head, a closing brace closes a block, anything else does nothing. Where no
  head waits, the depth of nesting is the count of braces, cut off at zero.
\<close>

theorem update_refines_braces:
  assumes "cl_wf c" "n < NumLines c" "plain_line (cl_elided c ! n)"
  shows "\<exists>st' es. Update f c n st = Inr (st', es) \<and>
    open_blocks st' = foldl brace_step (open_blocks st) (cl_elided c ! n) \<and>
    (list_all seen_open_brace (stack st) \<longrightarrow>
       length (stack st') = foldl depth_step (length (stack st)) (cl_elided c ! n) \<and>
       list_all seen_open_brace (stack st'))"
proof -
  from Update_plain [OF assms] obtain st' es where
    u: "Update f c n st = Inr (st', es)" "open_blocks st' = foldl brace_step (open_blocks st) (cl_elided c ! n)"
    by blast
  have "length (stack st') = foldl depth_step (length (stack st)) (cl_elided c ! n) \<and>
      list_all seen_open_brace (stack st')" if "list_all seen_open_brace (stack st)"
  proof -
    have all: "open_blocks st = replicate (length (stack st)) True"
      using that by (simp only: open_blocks_def map_replicate_True simp_thms)
    have "open_blocks st' = replicate (foldl depth_step (length (stack st)) (cl_elided c ! n)) True"
      using u(2) unfolding all brace_fold_depth .
    then have "map seen_open_brace (stack st') =
      replicate (foldl depth_step (length (stack st)) (cl_elided c ! n)) True"
      by (simp only: open_blocks_def)
    then show ?thesis by (simp only: map_replicate_True)
  qed
  with u show ?thesis by blast
qed

theorem update_refines_braces_witness:
  "\<exists>st' es. Update ''a.cc'' \<lparr>cl_elided = [''int f() { if (x) {''], cl_lines = [[]], cl_raw_lines = [[]],
       cl_num_lines = 1, cl_lines_without_raw_strings = [[]]\<rparr> 0 NestingState_init = Inr (st', es) \<and>
     length (stack st') = 2"
proof -
  let ?c = "\<lparr>cl_elided = [''int f() { if (x) {''], cl_lines = [[]], cl_raw_lines = [[]],
       cl_num_lines = 1, cl_lines_without_raw_strings = [[]]\<rparr>"
  have h: "cl_wf ?c" "0 < NumLines ?c" by (simp_all add: cl_wf_def NumLines_def)
  have p: "plain_line (cl_elided ?c ! 0)" by code_simp
  have d: "foldl depth_step 0 (cl_elided ?c ! 0) = 2" by code_simp
  from update_refines_braces [OF h p, where f = "''a.cc''" and st = NestingState_init] d
  show ?thesis by (auto simp: NestingState_init_def)
qed

section \<open>Objects of the nesting state\<close>

definition all_blocks :: "nesting_state \<Rightarrow> block list" where
  "all_blocks st = stack st @ concat (map (\<lambda>p. stack_before_if p @ stack_before_else p) (pp_stack st))"

definition block_ok :: "block \<Rightarrow> bool" where
  "block_ok b \<longleftrightarrow> (seen_open_brace b \<or> is_class b \<or> is_namespace b) \<and>
     check_namespace_indentation b = (is_class b \<or> is_namespace b)"

text \<open>Objects that were created before the identity \<open>n\<close>, each of them once.\<close>

definition objects :: "nat \<Rightarrow> block list \<Rightarrow> bool" where
  "objects n bs \<longleftrightarrow> distinct (map block_id bs) \<and> set (map block_id bs) \<subseteq> {..<n} \<and> list_all block_ok bs"

definition nest_inv :: "nesting_state \<Rightarrow> bool" where
  "nest_inv st \<longleftrightarrow> objects (next_id st) (all_blocks st)"

inductive nesting_reach :: "nesting_state \<Rightarrow> bool" where
  init: "nesting_reach NestingState_init"
| update: "nesting_reach st \<Longrightarrow> Update f c n st = Inr (st', es) \<Longrightarrow> nesting_reach st'"

lemma block_ok_id [simp]: "block_ok (b\<lparr>block_id := i\<rparr>) = block_ok b"
  by (simp add: block_ok_def is_class_def is_namespace_def)

lemma renumber_ids: "map block_id (renumber n bs) = [n..<n + length bs]"
  by (induction n bs rule: renumber.induct) (simp_all add: upt_conv_Cons del: upt_Suc)

lemma renumber_length [simp]: "length (renumber n bs) = length bs"
  by (induction n bs rule: renumber.induct) simp_all

lemma renumber_ok: "list_all block_ok (renumber n bs) = list_all block_ok bs"
  by (induction n bs rule: renumber.induct) simp_all

lemma objects_perm:
  assumes "mset xs = mset ys"
  shows "objects n xs = objects n ys"
proof -
  have "mset (map block_id xs) = mset (map block_id ys)" using assms by simp
  from mset_eq_imp_distinct_iff [OF this] mset_eq_setD [OF this] mset_eq_setD [OF assms] show ?thesis
    by (simp only: objects_def list_all_iff)
qed

lemma objects_copy: "objects n xs \<Longrightarrow> list_all block_ok bs \<Longrightarrow> objects (n + length bs) (renumber n bs @ xs)"
  unfolding objects_def map_append renumber_ids list_all_append renumber_ok by force

lemma objects_sub: "objects n (xs @ ys) \<Longrightarrow> objects n ys"
  by (simp add: objects_def)

lemma objects_sublist: "objects n (xs @ ys @ zs) \<Longrightarrow> objects n (ys @ zs) \<and> list_all block_ok ys"
  by (auto simp: objects_def)

lemma objects_new: "objects n xs \<Longrightarrow> block_id b = n \<Longrightarrow> block_ok b \<Longrightarrow> objects (Suc n) (b # xs)"
  by (auto simp: objects_def)

lemma objects_change:
  "objects n (b # xs) \<Longrightarrow> block_id b' = block_id b \<Longrightarrow> (block_ok b \<Longrightarrow> block_ok b') \<Longrightarrow> objects n (b' # xs)"
  by (simp add: objects_def)

lemma inv_push:
  "nest_inv st \<Longrightarrow> block_id b = next_id st \<Longrightarrow> block_ok b \<Longrightarrow> nest_inv (push_block b st)"
  by (simp add: nest_inv_def push_block_def all_blocks_def objects_new)

lemma inv_pop: "nest_inv st \<Longrightarrow> nest_inv (pop_block st)"
  by (cases "stack st") (auto simp: nest_inv_def pop_block_def all_blocks_def intro: objects_sub [of _ "[_]", simplified])

lemma inv_replace_top:
  "nest_inv st \<Longrightarrow> stack st = b # bs \<Longrightarrow> block_id b' = block_id b \<Longrightarrow> (block_ok b \<Longrightarrow> block_ok b') \<Longrightarrow>
   nest_inv (st\<lparr>stack := b' # bs\<rparr>)"
  by (auto simp: nest_inv_def all_blocks_def intro: objects_change)

lemma inv_top:
  "nest_inv st \<Longrightarrow> (\<And>b. block_id (g b) = block_id b) \<Longrightarrow> (\<And>b. block_ok b \<Longrightarrow> block_ok (g b)) \<Longrightarrow>
   nest_inv (map_top g st)"
  by (cases "stack st") (auto simp: map_top_def intro: inv_replace_top)

lemma inv_copy:
  assumes "nest_inv st" "mset (all_blocks st') = mset (renumber (next_id st) bs @ all_blocks st)"
    and "list_all block_ok bs" "next_id st' = next_id st + length bs"
  shows "nest_inv st'"
  using objects_copy [of "next_id st" "all_blocks st" bs] assms
  unfolding nest_inv_def objects_perm [OF assms(2)] by simp

lemma inv_less:
  assumes "nest_inv st" "mset (all_blocks st) = mset (bs @ all_blocks st')" "next_id st' = next_id st"
  shows "nest_inv st'"
  using assms objects_perm [OF assms(2)] objects_sub unfolding nest_inv_def by metis

lemma inv_stack_ok: "nest_inv st \<Longrightarrow> list_all block_ok (stack st)"
  by (simp add: nest_inv_def objects_def all_blocks_def)

lemma inv_if_ok: "nest_inv st \<Longrightarrow> pp_stack st = p # ps \<Longrightarrow> list_all block_ok (stack_before_if p)"
  by (simp add: nest_inv_def objects_def all_blocks_def)

lemma inv_restart:
  assumes inv: "nest_inv st" and pp: "pp_stack st = p' # ps" "stack_before_if p' = stack_before_if p"
  shows "nest_inv (st\<lparr>stack := renumber (next_id st) (stack_before_if p),
                     next_id := next_id st + length (stack_before_if p)\<rparr>)"
proof -
  have "nest_inv (st\<lparr>stack := []\<rparr>)" using inv by (rule inv_less [where bs = "stack st"]) (simp_all add: all_blocks_def)
  then show ?thesis
    by (rule inv_copy [where bs = "stack_before_if p"]) (use inv_if_ok [OF inv pp(1)] pp in \<open>simp_all add: all_blocks_def\<close>)
qed

lemma inv_save_else:
  assumes inv: "nest_inv st" and pp: "pp_stack st = p # ps"
  shows "nest_inv (st\<lparr>pp_stack := p\<lparr>seen_else := True, stack_before_else := renumber (next_id st) (stack st)\<rparr> # ps,
                  next_id := next_id st + length (stack st)\<rparr>)"
proof -
  have "nest_inv (st\<lparr>pp_stack := p\<lparr>stack_before_else := []\<rparr> # ps\<rparr>)"
    using inv by (rule inv_less [where bs = "stack_before_else p"]) (simp_all add: all_blocks_def pp)
  then show ?thesis
    by (rule inv_copy [where bs = "stack st"]) (use inv_stack_ok [OF inv] in \<open>simp_all add: all_blocks_def\<close>)
qed

lemma inv_preprocessor:
  assumes inv: "nest_inv st"
  shows "nest_inv (UpdatePreprocessor line st)"
proof -
  have if_: "nest_inv (st\<lparr>pp_stack := \<lparr>stack_before_if = renumber (next_id st) (stack st), stack_before_else = [],
                        seen_else = False\<rparr> # pp_stack st, next_id := next_id st + length (stack st)\<rparr>)"
    using inv by (rule inv_copy [where bs = "stack st"]) (use inv_stack_ok [OF inv] in \<open>simp_all add: all_blocks_def\<close>)
  have endif: "nest_inv (st\<lparr>stack := stack_before_else p, pp_stack := ps\<rparr>)" if "pp_stack st = p # ps" for p ps
    using inv by (rule inv_less [where bs = "stack st @ stack_before_if p"]) (simp_all add: all_blocks_def that)
  have endif': "nest_inv (st\<lparr>pp_stack := ps\<rparr>)" if "pp_stack st = p # ps" for p ps
    using inv by (rule inv_less [where bs = "stack_before_if p @ stack_before_else p"]) (simp_all add: all_blocks_def that)
  note else1 = inv_restart [OF inv _ refl]
  have else2: "nest_inv (st\<lparr>pp_stack := p\<lparr>seen_else := True, stack_before_else := renumber (next_id st) (stack st)\<rparr> # ps,
      stack := renumber (next_id st + length (stack st)) (stack_before_if p),
      next_id := next_id st + length (stack st) + length (stack_before_if p)\<rparr>)"
    if "pp_stack st = p # ps" for p ps
    using inv_restart [OF inv_save_else [OF inv that], of _ _ p] by simp
  show ?thesis
    using inv if_ endif endif' else1 else2
    by (auto simp: UpdatePreprocessor_def Let_def split: list.splits)
qed

lemma inv_previous: "nest_inv (st\<lparr>previous_stack_top := t\<rparr>) = nest_inv st"
  by (simp add: nest_inv_def all_blocks_def)

lemmas new_block_defs = BlockInfo_init_def ExternCInfo_init_def NamespaceInfo_init_def
  block_ok_def is_class_def is_namespace_def

lemma inv_namespaces: "nest_inv st \<Longrightarrow> nest_inv (fst (namespace_loop n st line))"
proof (induction n st line rule: namespace_loop.induct)
  case (1 n st line)
  show ?case
  proof (cases "Match NAMESPACE_DECL line")
    case None
    with 1 show ?thesis by (subst namespace_loop.simps) simp
  next
    case (Some m)
    let ?b = "NamespaceInfo_init (next_id st) (group m 1) n"
    have "nest_inv (push_block ?b st)" "nest_inv (push_block (?b\<lparr>seen_open_brace := True\<rparr>) st)"
      by (rule inv_push [OF "1.prems"]; simp add: new_block_defs)+
    with "1.IH" [OF Some refl] Some show ?thesis
      by (subst namespace_loop.simps) (auto simp: Let_def split: option.splits)
  qed
qed

lemma inv_class:
  assumes "nest_inv st" "class_declaration c n st line = Inr (st', line')"
  shows "nest_inv st'"
  using assms by (auto simp: class_declaration_def ClassInfo_init_def split: option.splits if_splits
      intro!: inv_push simp: new_block_defs)

lemma inv_begin: "nest_inv st \<Longrightarrow> check_begin c n st = Inr st' \<Longrightarrow> nest_inv st'"
  by (auto simp: check_begin_def CheckBegin_def split: list.splits if_splits block_kind.splits
      intro!: inv_replace_top simp: block_ok_def is_class_def is_namespace_def)

lemma inv_access: "nest_inv st \<Longrightarrow> nest_inv (fst (access_control f n st line))"
  by (auto simp: access_control_def split: list.splits block_kind.splits option.splits
      intro!: inv_replace_top simp: block_ok_def is_class_def is_namespace_def)

lemma inv_open: "nest_inv st \<Longrightarrow> nest_inv (open_brace n line st)"
  unfolding open_brace_def
  by (auto intro!: inv_top inv_push simp: new_block_defs)

lemma inv_braces: "nest_inv st \<Longrightarrow> brace_loop f c n st line = Inr (st', es) \<Longrightarrow> nest_inv st'"
proof (induction f c n st line arbitrary: es rule: brace_loop.induct)
  case (1 f c n st line)
  note run = "1.prems"(2) [unfolded brace_loop.simps [of f c n st line]]
  show ?case
  proof (cases "Match BRACE_PATTERN line")
    case (Some m)
    have popped: "nest_inv (if \<not> SeenOpenBrace st then pop_block st else st)" using "1.prems"(1) inv_pop by simp
    show ?thesis
      using "1.IH"(1) [OF Some _ inv_open [OF "1.prems"(1)]] "1.IH"(2) [OF Some _ _ popped]
        "1.IH"(3) [OF Some _ _ _ "1.prems"(1)] "1.IH"(4) [OF Some _ _ _ _ inv_pop [OF "1.prems"(1)]] run Some
      by (auto split: if_splits list.splits)
  qed (use run "1.prems"(1) in simp)
qed

lemma inv_update:
  assumes inv: "nest_inv st" and u: "Update f c n st = Inr (st', es)"
  shows "nest_inv st'"
proof -
  from u obtain l where l: "py_nth (cl_elided c) (int n) = Inr l" by (auto simp: Update_def)
  define st1 where "st1 = map_top (count_parentheses l)
      (UpdatePreprocessor l (st\<lparr>previous_stack_top := (case stack st of [] \<Rightarrow> None | b # _ \<Rightarrow> Some b)\<rparr>))"
  have "nest_inv st1" unfolding st1_def
    using inv by (intro inv_top inv_preprocessor)
      (auto simp: inv_previous count_parentheses_def Let_def block_ok_def is_class_def is_namespace_def)
  then have ns: "nest_inv (fst (namespace_loop n st1 l))" by (rule inv_namespaces)
  from u obtain st2 l2 st3 es2 where
    cd: "class_declaration c n (fst (namespace_loop n st1 l)) (snd (namespace_loop n st1 l)) = Inr (st2, l2)"
    and cb: "check_begin c n st2 = Inr st3"
    and bl: "brace_loop f c n (fst (access_control f n st3 l2)) l2 = Inr (st', es2)"
    by (auto simp: Update_def l Let_def case_prod_beta st1_def)
  from inv_braces [OF inv_access [OF inv_begin [OF inv_class [OF ns cd] cb]] bl] show ?thesis .
qed

text \<open>
  C5: in every state that \<open>NestingState.Update\<close> reaches from the initial one, over any
  lines of any files, no block object occurs twice, neither in the stack nor in the copies
  that the preprocessor stack keeps, so that changing a block changes it nowhere else; only a class
  or a namespace can be waiting for its opening brace; and these two are exactly the blocks
  whose indentation is checked.
\<close>

theorem nesting_objects_distinct:
  assumes "nesting_reach st"
  shows "distinct (map block_id (all_blocks st)) \<and>
    list_all (\<lambda>b. (seen_open_brace b \<or> is_class b \<or> is_namespace b) \<and>
      check_namespace_indentation b = (is_class b \<or> is_namespace b)) (all_blocks st)"
proof -
  from assms have "nest_inv st"
  proof (induction rule: nesting_reach.induct)
    case init
    show ?case by (simp add: nest_inv_def NestingState_init_def all_blocks_def objects_def)
  qed (rule inv_update)
  then show ?thesis by (simp add: nest_inv_def objects_def list_all_iff block_ok_def)
qed

theorem nesting_objects_distinct_witness:
  "\<exists>st' es. Update ''a.cc'' \<lparr>cl_elided = [''namespace a {''], cl_lines = [[]], cl_raw_lines = [[]],
       cl_num_lines = 1, cl_lines_without_raw_strings = [[]]\<rparr> 0 NestingState_init = Inr (st', es) \<and>
     length (all_blocks st') = 1 \<and> distinct (map block_id (all_blocks st'))"
proof -
  let ?c = "\<lparr>cl_elided = [''namespace a {''], cl_lines = [[]], cl_raw_lines = [[]],
       cl_num_lines = 1, cl_lines_without_raw_strings = [[]]\<rparr>"
  let ?st = "\<lparr>stack = [(NamespaceInfo_init 0 (Some ''a'') 0)\<lparr>seen_open_brace := True\<rparr>],
       previous_stack_top = None, pp_stack = [], next_id = 1\<rparr>"
  have u: "Update ''a.cc'' ?c 0 NestingState_init = Inr (?st, [])" by code_simp
  from nesting_objects_distinct [OF nesting_reach.update [OF nesting_reach.init u]] u show ?thesis
    by (simp add: all_blocks_def)
qed

end
