(* ===== verification/Suppressions.thy ===== *)
theory Suppressions
  imports Regex_Semantics
begin

text \<open>
  The error categories of \<^verbatim>\<open>cpplint.py\<close> and its two suppression stores: line by line
  through \<open>NOLINT\<close> comments, for the whole file through a C or kernel marker.
\<close>

section \<open>Categories\<close>

definition ERROR_CATEGORIES :: "string list" where
  "ERROR_CATEGORIES = [
    ''build/class'', ''build/c++11'', ''build/c++14'', ''build/c++tr1'', ''build/deprecated'',
    ''build/endif_comment'', ''build/explicit_make_pair'', ''build/forward_decl'',
    ''build/header_guard'', ''build/include'', ''build/include_alpha'',
    ''build/include_order'', ''build/include_what_you_use'', ''build/namespaces'',
    ''build/printf_format'', ''build/storage_class'', ''legal/copyright'',
    ''readability/alt_tokens'', ''readability/braces'', ''readability/casting'',
    ''readability/check'', ''readability/constructors'', ''readability/fn_size'',
    ''readability/inheritance'', ''readability/multiline_comment'',
    ''readability/multiline_string'', ''readability/namespace'', ''readability/nolint'',
    ''readability/nul'', ''readability/strings'', ''readability/todo'', ''readability/utf8'',
    ''runtime/arrays'', ''runtime/casting'', ''runtime/explicit'', ''runtime/int'',
    ''runtime/init'', ''runtime/invalid_increment'', ''runtime/member_string_references'',
    ''runtime/memset'', ''runtime/indentation_namespace'', ''runtime/operator'',
    ''runtime/printf'', ''runtime/printf_format'', ''runtime/references'', ''runtime/string'',
    ''runtime/threadsafe_fn'', ''runtime/vlog'', ''whitespace/blank_line'',
    ''whitespace/braces'', ''whitespace/comma'', ''whitespace/comments'',
    ''whitespace/empty_conditional_body'', ''whitespace/empty_if_body'',
    ''whitespace/empty_loop_body'', ''whitespace/end_of_line'', ''whitespace/ending_newline'',
    ''whitespace/forcolon'', ''whitespace/indent'', ''whitespace/line_length'',
    ''whitespace/newline'', ''whitespace/operators'', ''whitespace/parens'',
    ''whitespace/semicolon'', ''whitespace/tab'', ''whitespace/todo'']"

definition LEGACY_ERROR_CATEGORIES :: "string list" where
  "LEGACY_ERROR_CATEGORIES = [''readability/streams'', ''readability/function'']"

definition DEFAULT_C_SUPPRESSED_CATEGORIES :: "string list" where
  "DEFAULT_C_SUPPRESSED_CATEGORIES = [''readability/casting'']"

definition DEFAULT_KERNEL_SUPPRESSED_CATEGORIES :: "string list" where
  "DEFAULT_KERNEL_SUPPRESSED_CATEGORIES = [''whitespace/tab'']"

definition SEARCH_C_FILE :: string where
  "SEARCH_C_FILE = raw (''`b(?:LINT_C_FILE|'' @ ''vim?:`s*.*(`s*|:)filetype=c(`s*|:|$))'')"

definition SEARCH_KERNEL_FILE :: string where
  "SEARCH_KERNEL_FILE = raw ''`b(?:LINT_KERNEL_FILE)''"

section \<open>The stores\<close>

text \<open>
  \<open>_error_suppressions\<close> maps a category, or \<open>None\<close> for all categories, to the lines on
  which it is suppressed; \<open>_global_error_suppressions\<close> maps a category to \<open>True\<close> when it
  is suppressed on every line.
\<close>

record suppressions =
  error_suppressions :: "string option \<rightharpoonup> int set"
  global_error_suppressions :: "string \<rightharpoonup> bool"

definition ResetNolintSuppressions :: "suppressions \<Rightarrow> suppressions" where
  "ResetNolintSuppressions st =
     st\<lparr>error_suppressions := Map.empty, global_error_suppressions := Map.empty\<rparr>"

text \<open>\<open>_error_suppressions.setdefault(category, set()).add(line)\<close>\<close>

definition add_suppression :: "string option \<Rightarrow> int \<Rightarrow> suppressions \<Rightarrow> suppressions" where
  "add_suppression category line st =
     st\<lparr>error_suppressions := (error_suppressions st)(category \<mapsto>
       insert line (case error_suppressions st category of None \<Rightarrow> {} | Some ls \<Rightarrow> ls))\<rparr>"

definition NOLINT_PATTERN :: string where
  "NOLINT_PATTERN = raw ''`bNOLINT(NEXTLINE)?`b(`([^)]+`))?''"

text \<open>
  \<open>ParseNolintSuppressions\<close> returns the new store and the calls of \<open>error\<close> it makes.
\<close>

definition ParseNolintSuppressions ::
  "string \<Rightarrow> string \<Rightarrow> int \<Rightarrow> suppressions \<Rightarrow> suppressions \<times> effect list" where
  "ParseNolintSuppressions filename raw_line linenum st =
     (case Search NOLINT_PATTERN raw_line of
        None \<Rightarrow> (st, [])
      | Some matched \<Rightarrow>
          (let suppressed_line = (case group matched 1 of
                 None \<Rightarrow> linenum
               | Some nextline \<Rightarrow> if nextline = [] then linenum else linenum + 1)
           in case group matched 2 of
                None \<Rightarrow> (add_suppression None suppressed_line st, [])
              | Some category \<Rightarrow>
                  if category = ''(*)'' then (add_suppression None suppressed_line st, [])
                  else if startswith category ''('' \<and> endswith category '')'' then
                    (let category = butlast (tl category)
                     in if category \<in> set ERROR_CATEGORIES
                        then (add_suppression (Some category) suppressed_line st, [])
                        else if category \<notin> set LEGACY_ERROR_CATEGORIES
                        then (st, [ErrorCall filename linenum ''readability/nolint'' 5
                                (''Unknown NOLINT error category: '' @ category)])
                        else (st, []))
                  else (st, [])))"

definition suppress_globally :: "string list \<Rightarrow> suppressions \<Rightarrow> suppressions" where
  "suppress_globally categories st =
     fold (\<lambda>c s. s\<lparr>global_error_suppressions := (global_error_suppressions s)(c \<mapsto> True)\<rparr>)
       categories st"

definition global_line :: "string \<Rightarrow> suppressions \<Rightarrow> suppressions" where
  "global_line line st =
     (let st1 = (if Search SEARCH_C_FILE line \<noteq> None
                 then suppress_globally DEFAULT_C_SUPPRESSED_CATEGORIES st else st)
      in if Search SEARCH_KERNEL_FILE line \<noteq> None
         then suppress_globally DEFAULT_KERNEL_SUPPRESSED_CATEGORIES st1 else st1)"

definition ProcessGlobalSuppresions :: "string list \<Rightarrow> suppressions \<Rightarrow> suppressions" where
  "ProcessGlobalSuppresions lines st = fold global_line lines st"

definition suppressed_lines :: "suppressions \<Rightarrow> string option \<Rightarrow> int set" where
  "suppressed_lines st category =
     (case error_suppressions st category of None \<Rightarrow> {} | Some ls \<Rightarrow> ls)"

definition IsErrorSuppressedByNolint :: "suppressions \<Rightarrow> string \<Rightarrow> int \<Rightarrow> bool" where
  "IsErrorSuppressedByNolint st category linenum \<longleftrightarrow>
     (case global_error_suppressions st category of None \<Rightarrow> False | Some b \<Rightarrow> b) \<or>
     linenum \<in> suppressed_lines st (Some category) \<or>
     linenum \<in> suppressed_lines st None"

section \<open>What a NOLINT comment says\<close>

text \<open>
  The directive of a line: whether it is for the next line, and its category, \<open>None\<close>
  for a comment that names none or \<open>*\<close>.
\<close>

definition nolint_directive :: "string \<Rightarrow> (bool \<times> string option) option" where
  "nolint_directive line =
     (case Search NOLINT_PATTERN line of None \<Rightarrow> None
      | Some m \<Rightarrow> Some (group m 1 \<noteq> None,
          (case group m 2 of None \<Rightarrow> None
           | Some c \<Rightarrow> if c = ''(*)'' then None else Some (butlast (tl c)))))"

definition directive_line :: "bool \<Rightarrow> int \<Rightarrow> int" where
  "directive_line next linenum = (if next then linenum + 1 else linenum)"

lemma nolint_groups:
  "groups_of (rx NOLINT_PATTERN) =
     [(1, cat_all (map (\<lambda>c. Class False [Lit c]) ''NEXTLINE'')),
      (2, Cat (Class False [Lit CHR ''('']) (Cat (Cat (Class True [Lit CHR '')''])
            (Star True (Class True [Lit CHR '')'']))) (Class False [Lit CHR '')''])))]"
  by code_simp

lemma group_of_search:
  assumes "Search p s = Some m" and "group m n = Some t" and "n \<noteq> 0"
    and "\<And>r'. (n, r') \<in> set (groups_of (rx p)) \<Longrightarrow> r' = r" and "no_backref r"
  obtains k1 k2 where "(k1, k2) \<in> rx_rel r" "rest k1 = t @ rest k2"
proof -
  from match_at_group [OF Search_SomeD(2) [OF assms(1)] assms(2,3)]
  obtain k1 k2 c1 c2 where *: "(k2, c2) \<in> set (matches r k1 c1)" "rest k1 = t @ rest k2"
    using assms(4) by blast
  from matches_rx_rel [OF assms(5), of k1 c1] *(1) have "(k1, k2) \<in> rx_rel r" by force
  with *(2) that show ?thesis by blast
qed

text \<open>A category that the pattern captures is a bracketed, non-empty text.\<close>

lemma nolint_category_parens:
  assumes "Search NOLINT_PATTERN line = Some m" and "group m 2 = Some t"
  shows "\<exists>u. t = CHR ''('' # u @ '')'' \<and> u \<noteq> [] \<and> CHR '')'' \<notin> set u"
proof -
  let ?C = "Class True [Lit CHR '')'']"
  let ?r = "Cat (Class False [Lit CHR ''('']) (Cat (Cat ?C (Star True ?C)) (Class False [Lit CHR '')'']))"
  obtain k1 k2 where k: "(k1, k2) \<in> rx_rel ?r" "rest k1 = t @ rest k2"
    by (rule group_of_search [OF assms, of ?r]) (auto simp: nolint_groups)
  from k(1) obtain a b c where
    "(k1, a) \<in> char_rel (class_has False [Lit CHR ''(''])"
    "(a, b) \<in> char_rel (class_has True [Lit CHR '')''])"
    "(b, c) \<in> (char_rel (class_has True [Lit CHR '')'']))\<^sup>*"
    "(c, k2) \<in> char_rel (class_has False [Lit CHR '')''])" by auto
  then obtain y w where "rest k1 = CHR ''('' # y # w @ CHR '')'' # rest k2"
    "y \<noteq> CHR '')''" "CHR '')'' \<notin> set w"
    by (auto dest!: char_rel_rest char_star_rest simp: class_has_def)
  with k(2) have "t = CHR ''('' # (y # w) @ '')''" "CHR '')'' \<notin> set (y # w)"
    by simp_all
  then show ?thesis by blast
qed

lemma nolint_next_nonempty:
  assumes "Search NOLINT_PATTERN line = Some m" and "group m 1 = Some t"
  shows "t \<noteq> []"
proof -
  let ?r = "cat_all (map (\<lambda>c. Class False [Lit c]) ''NEXTLINE'')"
  obtain k1 k2 where k: "(k1, k2) \<in> rx_rel ?r" "rest k1 = t @ rest k2"
    by (rule group_of_search [OF assms, of ?r]) (auto simp: nolint_groups)
  then have "length (rest k2) < length (rest k1)"
    by (auto dest!: char_rel_rest)
  with k(2) show ?thesis by auto
qed

section \<open>Laws of the stores\<close>

lemma add_suppression_lines:
  "suppressed_lines (add_suppression cat l st) cat' =
     (if cat' = cat then insert l (suppressed_lines st cat) else suppressed_lines st cat')"
  by (simp add: suppressed_lines_def add_suppression_def)

lemma add_suppression_global [simp]:
  "global_error_suppressions (add_suppression cat l st) = global_error_suppressions st"
  by (simp add: add_suppression_def)

lemma IsErrorSuppressed_add:
  "IsErrorSuppressedByNolint (add_suppression cat l st) c j \<longleftrightarrow>
     IsErrorSuppressedByNolint st c j \<or> j = l \<and> (cat = None \<or> cat = Some c)"
  by (auto simp: IsErrorSuppressedByNolint_def add_suppression_lines)

lemma ParseNolint_by_directive:
  "ParseNolintSuppressions filename line linenum st =
     (case nolint_directive line of
        None \<Rightarrow> (st, [])
      | Some (next, None) \<Rightarrow> (add_suppression None (directive_line next linenum) st, [])
      | Some (next, Some category) \<Rightarrow>
          if category \<in> set ERROR_CATEGORIES
          then (add_suppression (Some category) (directive_line next linenum) st, [])
          else if category \<in> set LEGACY_ERROR_CATEGORIES then (st, [])
          else (st, [ErrorCall filename linenum ''readability/nolint'' 5
                 (''Unknown NOLINT error category: '' @ category)]))"
proof (cases "Search NOLINT_PATTERN line")
  case (Some m)
  have next_line: "(case group m 1 of None \<Rightarrow> linenum
      | Some nextline \<Rightarrow> if nextline = [] then linenum else linenum + 1) =
      directive_line (group m 1 \<noteq> None) linenum"
    using nolint_next_nonempty [OF Some] by (auto simp: directive_line_def split: option.splits)
  show ?thesis
  proof (cases "group m 2")
    case None
    with Some next_line show ?thesis
      by (simp add: ParseNolintSuppressions_def nolint_directive_def)
  next
    case (Some t)
    then have "startswith t ''(''" "endswith t '')''"
      using nolint_category_parens [OF \<open>Search NOLINT_PATTERN line = Some m\<close> Some]
      by (auto simp: startswith_iff endswith_iff)
    with Some next_line \<open>Search NOLINT_PATTERN line = Some m\<close> show ?thesis
      by (simp add: ParseNolintSuppressions_def nolint_directive_def Let_def)
  qed
qed (simp add: ParseNolintSuppressions_def nolint_directive_def)

lemma suppress_globally_lines [simp]:
  "error_suppressions (suppress_globally cs st) = error_suppressions st"
  unfolding suppress_globally_def by (induction cs arbitrary: st) auto

lemma suppress_globally_map:
  "global_error_suppressions (suppress_globally cs st) c =
     (if c \<in> set cs then Some True else global_error_suppressions st c)"
  unfolding suppress_globally_def by (induction cs arbitrary: st) auto

lemma global_line_lines [simp]: "error_suppressions (global_line l st) = error_suppressions st"
  by (simp add: global_line_def Let_def)

lemma global_line_map:
  "global_error_suppressions (global_line l st) c =
     (if Search SEARCH_C_FILE l \<noteq> None \<and> c \<in> set DEFAULT_C_SUPPRESSED_CATEGORIES \<or>
         Search SEARCH_KERNEL_FILE l \<noteq> None \<and> c \<in> set DEFAULT_KERNEL_SUPPRESSED_CATEGORIES
      then Some True else global_error_suppressions st c)"
  by (cases "Search SEARCH_C_FILE l"; cases "Search SEARCH_KERNEL_FILE l")
     (simp_all add: global_line_def Let_def suppress_globally_map)

lemma ProcessGlobalSuppresions_lines:
  "error_suppressions (ProcessGlobalSuppresions ls st) = error_suppressions st"
  unfolding ProcessGlobalSuppresions_def by (induction ls arbitrary: st) auto

lemma ProcessGlobalSuppresions_map:
  "global_error_suppressions (ProcessGlobalSuppresions ls st) c =
     (if (\<exists>l \<in> set ls. Search SEARCH_C_FILE l \<noteq> None) \<and> c \<in> set DEFAULT_C_SUPPRESSED_CATEGORIES \<or>
         (\<exists>l \<in> set ls. Search SEARCH_KERNEL_FILE l \<noteq> None) \<and>
           c \<in> set DEFAULT_KERNEL_SUPPRESSED_CATEGORIES
      then Some True else global_error_suppressions st c)"
  unfolding ProcessGlobalSuppresions_def
proof (induction ls arbitrary: st)
  case (Cons l ls)
  show ?case
    by (simp only: fold_simps Cons.IH global_line_map) auto
qed simp

section \<open>What a comment suppresses\<close>

text \<open>
  C9: the effect of a \<open>NOLINT\<close> comment. After \<open>ParseNolintSuppressions\<close> on a line, an error
  of a category at a line is suppressed exactly when it was before, or the line holds a
  directive for that line (the next one for \<open>NOLINTNEXTLINE\<close>) that names no category, \<open>*\<close>,
  or this category, a known one. One error is reported exactly for a category that is neither
  known nor a legacy one, at the line of the comment itself.
\<close>

theorem nolint_suppression:
  "let (st', errors) = ParseNolintSuppressions filename line linenum st in
     (IsErrorSuppressedByNolint st' category j \<longleftrightarrow>
        IsErrorSuppressedByNolint st category j \<or>
        (\<exists>next. j = directive_line next linenum \<and>
           (nolint_directive line = Some (next, None) \<or>
            nolint_directive line = Some (next, Some category) \<and> category \<in> set ERROR_CATEGORIES))) \<and>
     errors = (case nolint_directive line of
         Some (next, Some c) \<Rightarrow>
           if c \<in> set ERROR_CATEGORIES \<union> set LEGACY_ERROR_CATEGORIES then []
           else [ErrorCall filename linenum ''readability/nolint'' 5
                   (''Unknown NOLINT error category: '' @ c)]
       | _ \<Rightarrow> [])"
proof (cases "nolint_directive line")
  case (Some d)
  obtain nxt c where "d = (nxt, c)" by (cases d)
  with Some show ?thesis
    by (cases c) (auto simp: ParseNolint_by_directive IsErrorSuppressed_add)
qed (simp add: ParseNolint_by_directive)

text \<open>
  C23: after \<open>ResetNolintSuppressions\<close>, \<open>ProcessGlobalSuppresions\<close> suppresses exactly casts
  in files with a C marker and tabs in files with a kernel marker, on every line.
\<close>

theorem global_suppression:
  "IsErrorSuppressedByNolint (ProcessGlobalSuppresions lines (ResetNolintSuppressions st)) category j \<longleftrightarrow>
     category = ''readability/casting'' \<and> (\<exists>l \<in> set lines. Search SEARCH_C_FILE l \<noteq> None) \<or>
     category = ''whitespace/tab'' \<and> (\<exists>l \<in> set lines. Search SEARCH_KERNEL_FILE l \<noteq> None)"
  by (auto simp: IsErrorSuppressedByNolint_def ProcessGlobalSuppresions_map suppressed_lines_def
      ProcessGlobalSuppresions_lines ResetNolintSuppressions_def DEFAULT_C_SUPPRESSED_CATEGORIES_def
      DEFAULT_KERNEL_SUPPRESSED_CATEGORIES_def)

section \<open>Which lines mark a C file\<close>

text \<open>The strings that a sequence of literals matches.\<close>

definition lits :: "string \<Rightarrow> (cursor \<times> cursor) set" where
  "lits s = foldr (\<lambda>c R. char_rel (class_has False [Lit c]) O R) s Id"

lemma lits_D: "(k, k') \<in> lits s \<Longrightarrow> rest k = s @ rest k'"
proof (induction s arbitrary: k)
  case (Cons c s)
  then obtain k1 where "(k, k1) \<in> char_rel (class_has False [Lit c])" "(k1, k') \<in> lits s"
    by (auto simp: lits_def)
  with Cons.IH [of k1] char_rel_rest [OF this(1)] show ?case by (auto simp: class_has_def)
qed (simp add: lits_def)

lemma lits_I: "rest k = s @ t \<Longrightarrow> \<exists>k'. (k, k') \<in> lits s \<and> rest k' = t"
proof (induction s arbitrary: k)
  case (Cons c s)
  have "(k, advance k) \<in> char_rel (class_has False [Lit c])"
    by (rule char_relI [where x = c and xs = "s @ t"]) (use Cons.prems in \<open>simp_all add: class_has_def\<close>)
  moreover from Cons.prems have "rest (advance k) = s @ t" by (simp add: advance_def)
  from Cons.IH [OF this] obtain k' where "(advance k, k') \<in> lits s" "rest k' = t" by blast
  ultimately show ?case by (auto simp: lits_def)
qed (simp add: lits_def)

lemma c_file_rel:
  "rx_rel (rx SEARCH_C_FILE) = rx_rel WordB O (lits ''LINT_C_FILE'' \<union>
     lits ''vi'' O (lits ''m'' \<union> Id) O lits '':'' O (char_rel (class_has False [Space]))\<^sup>* O
     (char_rel not_newline)\<^sup>* O ((char_rel (class_has False [Space]))\<^sup>* \<union> lits '':'') O
     lits ''filetype=c'' O ((char_rel (class_has False [Space]))\<^sup>* \<union> (lits '':'' \<union> rx_rel Eol)))"
proof -
  have "rx SEARCH_C_FILE = Cat WordB (Alt (cat_all (map (\<lambda>c. Class False [Lit c]) ''LINT_C_FILE''))
    (Cat (Class False [Lit CHR ''v'']) (Cat (Class False [Lit CHR ''i''])
    (Cat (Alt (Class False [Lit CHR ''m'']) Empty) (Cat (Class False [Lit CHR '':''])
    (Cat (Star True (Class False [Space])) (Cat (Star True Dot)
    (Cat (Group 1 (Alt (Star True (Class False [Space])) (Class False [Lit CHR '':''])))
    (Cat (Class False [Lit CHR ''f'']) (Cat (Class False [Lit CHR ''i''])
    (Cat (Class False [Lit CHR ''l'']) (Cat (Class False [Lit CHR ''e''])
    (Cat (Class False [Lit CHR ''t'']) (Cat (Class False [Lit CHR ''y''])
    (Cat (Class False [Lit CHR ''p'']) (Cat (Class False [Lit CHR ''e''])
    (Cat (Class False [Lit CHR ''='']) (Cat (Class False [Lit CHR ''c''])
    (Group 2 (Alt (Star True (Class False [Space])) (Alt (Class False [Lit CHR '':'']) Eol)))))))))))))))))))))"
    by code_simp
  then show ?thesis by (simp add: lits_def O_assoc)
qed

text \<open>
  The lines that mark a C file: after the start of a word, \<open>LINT_C_FILE\<close>, or \<open>vi:\<close> or \<open>vim:\<close>
  and anywhere after it \<open>filetype=c\<close>. What follows the \<open>c\<close> does not matter.
\<close>

definition c_marker :: "string \<Rightarrow> bool" where
  "c_marker l \<longleftrightarrow> (\<exists>a c. (a = [] \<or> \<not> is_word (last a)) \<and>
     (l = a @ ''LINT_C_FILE'' @ c \<or>
      (\<exists>v b. (v = ''vi:'' \<or> v = ''vim:'') \<and> l = a @ v @ b @ ''filetype=c'' @ c)))"

lemma word_start:
  assumes "i \<le> length l" "rest (cursor_at l i) = c # t" "is_word c"
  shows "(cursor_at l i, k) \<in> rx_rel WordB \<longleftrightarrow>
    k = cursor_at l i \<and> (take i l = [] \<or> \<not> is_word (last (take i l)))"
proof -
  have "prev (cursor_at l i) = (if take i l = [] then None else Some (last (take i l)))"
    using assms(1) by (cases i) (auto simp: cursor_at_def take_Suc_conv_app_nth last_conv_nth)
  moreover have "next_char (cursor_at l i) = Some c" using assms(2) by (simp add: next_char_def)
  ultimately show ?thesis using assms(3) by (auto simp: test_rel_def at_word_def)
qed

lemma c_file_search:
  assumes "CHR 0x0A \<notin> set l"
  shows "Search SEARCH_C_FILE l \<noteq> None \<longleftrightarrow> c_marker l"
proof -
  have nb: "no_backref (rx SEARCH_C_FILE)" by code_simp
  have w: "is_word CHR ''L''" "is_word CHR ''v''" by code_simp+
  have "Search SEARCH_C_FILE l \<noteq> None \<longleftrightarrow>
      (\<exists>i \<le> length l. cursor_at l i \<in> Domain (rx_rel (rx SEARCH_C_FILE)))"
    using Search_None_iff [of SEARCH_C_FILE l] match_at_None_iff [OF nb] by auto
  also have "\<dots> \<longleftrightarrow> c_marker l"
  proof
    assume "\<exists>i \<le> length l. cursor_at l i \<in> Domain (rx_rel (rx SEARCH_C_FILE))"
    then obtain i k0 k where i: "i \<le> length l" "(cursor_at l i, k0) \<in> rx_rel WordB" and
      k: "(k0, k) \<in> lits ''LINT_C_FILE'' \<or> (k0, k) \<in>
        lits ''vi'' O (lits ''m'' \<union> Id) O lits '':'' O (char_rel (class_has False [Space]))\<^sup>* O
        (char_rel not_newline)\<^sup>* O ((char_rel (class_has False [Space]))\<^sup>* \<union> lits '':'') O
        lits ''filetype=c'' O ((char_rel (class_has False [Space]))\<^sup>* \<union> (lits '':'' \<union> rx_rel Eol))"
      unfolding c_file_rel by blast
    from i(2) have k0: "k0 = cursor_at l i" by (simp add: test_rel_def)
    have l: "l = take i l @ rest (cursor_at l i)" by (simp add: cursor_at_def)
    from k show "c_marker l"
    proof
      assume "(k0, k) \<in> lits ''LINT_C_FILE''"
      from lits_D [OF this] k0 have r: "rest (cursor_at l i) = ''LINT_C_FILE'' @ rest k" by simp
      with word_start [OF i(1), of "CHR ''L''"] i(2) w(1)
      have "take i l = [] \<or> \<not> is_word (last (take i l))" by simp
      with l r show ?thesis unfolding c_marker_def by metis
    next
      assume "(k0, k) \<in> lits ''vi'' O (lits ''m'' \<union> Id) O lits '':'' O (char_rel (class_has False [Space]))\<^sup>* O
        (char_rel not_newline)\<^sup>* O ((char_rel (class_has False [Space]))\<^sup>* \<union> lits '':'') O
        lits ''filetype=c'' O ((char_rel (class_has False [Space]))\<^sup>* \<union> (lits '':'' \<union> rx_rel Eol))"
      then obtain k1 k2 k3 k4 k5 k6 k7 where
        s: "(k0, k1) \<in> lits ''vi''" "(k1, k2) \<in> lits ''m'' \<or> k1 = k2" "(k2, k3) \<in> lits '':''"
        "(k3, k4) \<in> (char_rel (class_has False [Space]))\<^sup>*" "(k4, k5) \<in> (char_rel not_newline)\<^sup>*"
        "(k5, k6) \<in> (char_rel (class_has False [Space]))\<^sup>* \<or> (k5, k6) \<in> lits '':''"
        "(k6, k7) \<in> lits ''filetype=c''" by blast
      from s(6) have "\<exists>u. rest k5 = u @ rest k6" by (auto dest: char_star_rest lits_D)
      with char_star_rest [OF s(4)] char_star_rest [OF s(5)] lits_D [OF s(7)] obtain b where
        b: "rest k3 = b @ ''filetype=c'' @ rest k7" by (metis append.assoc)
      from s(2) lits_D [OF s(1)] lits_D [OF s(3)] k0 have
        "rest (cursor_at l i) = ''vi:'' @ rest k3 \<or> rest (cursor_at l i) = ''vim:'' @ rest k3"
        by (auto dest: lits_D)
      then obtain v where v: "v = ''vi:'' \<or> v = ''vim:''" "rest (cursor_at l i) = v @ rest k3" by blast
      with word_start [OF i(1), of "CHR ''v''"] i(2) w(2)
      have "take i l = [] \<or> \<not> is_word (last (take i l))" by auto
      moreover have "l = take i l @ v @ b @ ''filetype=c'' @ rest k7" using l v(2) b by simp
      ultimately show ?thesis using v(1) unfolding c_marker_def by blast
    qed
  next
    assume "c_marker l"
    then obtain a c where a: "a = [] \<or> \<not> is_word (last a)" and
      alt: "l = a @ ''LINT_C_FILE'' @ c \<or>
        (\<exists>v b. (v = ''vi:'' \<or> v = ''vim:'') \<and> l = a @ v @ b @ ''filetype=c'' @ c)"
      unfolding c_marker_def by blast
    let ?k = "cursor_at l (length a)"
    show "\<exists>i \<le> length l. cursor_at l i \<in> Domain (rx_rel (rx SEARCH_C_FILE))"
      using alt
    proof
      assume l: "l = a @ ''LINT_C_FILE'' @ c"
      then have r: "rest ?k = ''LINT_C_FILE'' @ c" "length a \<le> length l" "take (length a) l = a"
        by (simp_all add: cursor_at_def)
      from lits_I [OF r(1)] obtain k' where "(?k, k') \<in> lits ''LINT_C_FILE''" by blast
      moreover have "(?k, ?k) \<in> rx_rel WordB"
        using word_start [OF r(2), of "CHR ''L''"] r a w(1) by simp
      ultimately show ?thesis using r(2) unfolding c_file_rel by blast
    next
      assume "\<exists>v b. (v = ''vi:'' \<or> v = ''vim:'') \<and> l = a @ v @ b @ ''filetype=c'' @ c"
      then obtain v b where v: "v = ''vi:'' \<or> v = ''vim:''" and l: "l = a @ v @ b @ ''filetype=c'' @ c"
        by blast
      from l have r: "rest ?k = v @ b @ ''filetype=c'' @ c" "length a \<le> length l" "take (length a) l = a"
        by (simp_all add: cursor_at_def)
      have wb: "(?k, ?k) \<in> rx_rel WordB"
        using word_start [OF r(2), of "CHR ''v''"] r a w(2) v by auto
      from v r(1) obtain m where m: "m = [] \<or> m = ''m''"
        "rest ?k = ''vi'' @ m @ '':'' @ b @ ''filetype=c'' @ c" by auto
      from lits_I [OF m(2)] obtain k1 where
        k1: "(?k, k1) \<in> lits ''vi''" "rest k1 = m @ '':'' @ b @ ''filetype=c'' @ c" by blast
      have "\<exists>k2. (k1, k2) \<in> lits ''m'' \<union> Id \<and> rest k2 = '':'' @ b @ ''filetype=c'' @ c"
        using m(1) k1(2) lits_I [of k1 "''m''"] by auto
      then obtain k2 where k2: "(k1, k2) \<in> lits ''m'' \<union> Id" "rest k2 = '':'' @ b @ ''filetype=c'' @ c" by blast
      from lits_I [OF k2(2)] obtain k3 where
        k3: "(k2, k3) \<in> lits '':''" "rest k3 = b @ ''filetype=c'' @ c" by blast
      have "\<forall>x \<in> set b. not_newline x" using assms l by (auto simp: not_newline_def)
      from char_starI [OF k3(2) this] obtain k4 where
        k4: "(k3, k4) \<in> (char_rel not_newline)\<^sup>*" "rest k4 = ''filetype=c'' @ c" by blast
      from lits_I [OF k4(2)] obtain k5 where k5: "(k4, k5) \<in> lits ''filetype=c''" by blast
      have refl: "(q, q) \<in> (char_rel (class_has False [Space]))\<^sup>*" for q by simp
      have "(?k, k5) \<in> lits ''vi'' O (lits ''m'' \<union> Id) O lits '':'' O
          (char_rel (class_has False [Space]))\<^sup>* O (char_rel not_newline)\<^sup>* O
          ((char_rel (class_has False [Space]))\<^sup>* \<union> lits '':'') O lits ''filetype=c'' O
          ((char_rel (class_has False [Space]))\<^sup>* \<union> (lits '':'' \<union> rx_rel Eol))"
        by (rule relcompI [OF k1(1) relcompI [OF k2(1) relcompI [OF k3(1) relcompI [OF refl relcompI
          [OF k4(1) relcompI [OF UnI1 [OF refl] relcompI [OF k5 UnI1 [OF refl]]]]]]]])
      with wb r(2) show ?thesis unfolding c_file_rel by blast
    qed
  qed
  finally show ?thesis .
qed

text \<open>
  C36: casts are suppressed on every line of a file exactly when one of its lines is a C
  marker. The decision which of the files are C is made by text alone: \<open>LINT_C_FILE\<close>, or an
  editor's mode line with \<open>filetype=c\<close>, whatever follows the \<open>c\<close>; so a mode line with
  \<open>filetype=cpp\<close> suppresses the errors about casts in a C++ file.
\<close>

theorem cpp_modeline_suppresses_casts:
  assumes "\<forall>l \<in> set lines. CHR 0x0A \<notin> set l"
  shows "(IsErrorSuppressedByNolint (ProcessGlobalSuppresions lines (ResetNolintSuppressions st))
      ''readability/casting'' j \<longleftrightarrow> (\<exists>l \<in> set lines. c_marker l)) \<and>
    c_marker (''// vim: '' @ b @ ''filetype=cpp'' @ c)"
proof
  show "IsErrorSuppressedByNolint (ProcessGlobalSuppresions lines (ResetNolintSuppressions st))
      ''readability/casting'' j \<longleftrightarrow> (\<exists>l \<in> set lines. c_marker l)"
    using assms c_file_search
    by (auto simp: IsErrorSuppressedByNolint_def ProcessGlobalSuppresions_map suppressed_lines_def
        ProcessGlobalSuppresions_lines ResetNolintSuppressions_def DEFAULT_C_SUPPRESSED_CATEGORIES_def
        DEFAULT_KERNEL_SUPPRESSED_CATEGORIES_def)
  have "\<not> is_word (last ''// '')" by code_simp
  moreover have "''// vim: '' @ b @ ''filetype=cpp'' @ c =
      ''// '' @ ''vim:'' @ (CHR '' '' # b) @ ''filetype=c'' @ (''pp'' @ c)" by simp
  ultimately show "c_marker (''// vim: '' @ b @ ''filetype=cpp'' @ c)"
    unfolding c_marker_def by blast
qed

theorem cpp_modeline_suppresses_casts_witness:
  "\<forall>st. IsErrorSuppressedByNolint (ProcessGlobalSuppresions
     [''int i = (int)x;'', ''// vim: ts=2 filetype=cpp''] (ResetNolintSuppressions st)) ''readability/casting'' 1"
  using cpp_modeline_suppresses_casts [of "[''int i = (int)x;'', ''// vim: ts=2 filetype=cpp'']" _ 1 "''ts=2 ''" "[]"]
  by simp

end
