(* ===== verification/Lint_State.thy ===== *)
theory Lint_State
  imports Suppressions
begin

text \<open>
  The module-wide state of \<^verbatim>\<open>cpplint.py\<close>: class \<open>_CppLintState\<close> (verbosity, filters,
  counters, output format), the decision \<open>_ShouldPrintError\<close> and the default callback
  \<open>Error\<close>, which counts and prints. The effect lists that the checks return are
  performed here.
\<close>

section \<open>Class _CppLintState\<close>

record cpplint_state =
  verbose_level :: int
  error_count :: nat
  filters :: "string list"
  filters_backup :: "string list"
  counting :: string
  errors_by_category :: "string \<rightharpoonup> nat"
  quiet :: bool
  output_format :: string

definition DEFAULT_FILTERS :: "string list" where
  "DEFAULT_FILTERS = [''-build/include_alpha'']"

definition CppLintState_init :: cpplint_state where
  "CppLintState_init = \<lparr>verbose_level = 1, error_count = 0, filters = DEFAULT_FILTERS,
     filters_backup = DEFAULT_FILTERS, counting = ''total'',
     errors_by_category = Map.empty, quiet = False, output_format = ''emacs''\<rparr>"

definition SetOutputFormat :: "string \<Rightarrow> cpplint_state \<Rightarrow> cpplint_state" where
  "SetOutputFormat fmt st = st\<lparr>output_format := fmt\<rparr>"

text \<open>The setters that return the previous value pair it with the new state.\<close>

definition SetQuiet :: "bool \<Rightarrow> cpplint_state \<Rightarrow> bool \<times> cpplint_state" where
  "SetQuiet q st = (quiet st, st\<lparr>quiet := q\<rparr>)"

definition SetVerboseLevel :: "int \<Rightarrow> cpplint_state \<Rightarrow> int \<times> cpplint_state" where
  "SetVerboseLevel level st = (verbose_level st, st\<lparr>verbose_level := level\<rparr>)"

definition SetCountingStyle :: "string \<Rightarrow> cpplint_state \<Rightarrow> cpplint_state" where
  "SetCountingStyle style st = st\<lparr>counting := style\<rparr>"

definition filter_ok :: "string \<Rightarrow> bool" where
  "filter_ok filt \<longleftrightarrow> startswith filt ''+'' \<or> startswith filt ''-''"

definition clean_filters :: "string \<Rightarrow> string list" where
  "clean_filters fs = [f \<leftarrow> map strip_bytes (split_on CHR '','' fs). f \<noteq> []]"

definition AddFilters :: "string \<Rightarrow> cpplint_state \<Rightarrow> cpplint_state res" where
  "AddFilters fs st =
     (let st' = st\<lparr>filters := filters st @ clean_filters fs\<rparr>
      in case find (\<lambda>f. \<not> filter_ok f) (filters st') of
           None \<Rightarrow> Inr st'
         | Some bad \<Rightarrow> Inl (ValueError
             (''Every filter in --filters must start with + or - ('' @ bad @ '' does not)'')))"

definition SetFilters :: "string \<Rightarrow> cpplint_state \<Rightarrow> cpplint_state res" where
  "SetFilters fs st = AddFilters fs (st\<lparr>filters := DEFAULT_FILTERS\<rparr>)"

definition BackupFilters :: "cpplint_state \<Rightarrow> cpplint_state" where
  "BackupFilters st = st\<lparr>filters_backup := filters st\<rparr>"

definition RestoreFilters :: "cpplint_state \<Rightarrow> cpplint_state" where
  "RestoreFilters st = st\<lparr>filters := filters_backup st\<rparr>"

definition ResetErrorCounts :: "cpplint_state \<Rightarrow> cpplint_state" where
  "ResetErrorCounts st = st\<lparr>error_count := 0, errors_by_category := Map.empty\<rparr>"

definition category_key :: "string \<Rightarrow> string \<Rightarrow> string" where
  "category_key style category =
     (if style \<noteq> ''detailed'' then hd (split_on CHR ''/'' category) else category)"

definition IncrementErrorCount :: "string \<Rightarrow> cpplint_state \<Rightarrow> cpplint_state" where
  "IncrementErrorCount category st =
     (let st1 = st\<lparr>error_count := error_count st + 1\<rparr>
      in if counting st1 \<in> {''toplevel'', ''detailed''} then
           (let category = category_key (counting st1) category;
                st2 = (if errors_by_category st1 category = None
                  then st1\<lparr>errors_by_category := (errors_by_category st1)(category \<mapsto> 0)\<rparr>
                  else st1)
            in st2\<lparr>errors_by_category := (errors_by_category st2)(category \<mapsto>
                 (case errors_by_category st2 category of None \<Rightarrow> 0 | Some n \<Rightarrow> n) + 1)\<rparr>)
         else st1)"

text \<open>
  \<open>PrintErrorCounts\<close> writes one line for each category to \<open>stderr\<close>, in the order in
  which the dictionary enumerates its keys (\<open>ks\<close>, any order), and the total to
  \<open>stdout\<close>.
\<close>

definition PrintErrorCounts :: "string list \<Rightarrow> cpplint_state \<Rightarrow> string list \<times> string" where
  "PrintErrorCounts ks st =
     (map (\<lambda>c. ''Category '' @ [CHR 0x27] @ c @ [CHR 0x27] @ '' errors found: '' @
            show_nat (case errors_by_category st c of None \<Rightarrow> 0 | Some n \<Rightarrow> n) @ ''\<newline>'') ks,
      ''Total errors found: '' @ show_nat (error_count st) @ ''\<newline>'')"

section \<open>The decision to print\<close>

text \<open>
  The loop over the filters of \<open>_ShouldPrintError\<close>; a filter with another first character
  fails the assertion.
\<close>

fun filter_loop :: "string list \<Rightarrow> string \<Rightarrow> bool \<Rightarrow> bool res" where
  "filter_loop [] category is_filtered = Inr is_filtered"
| "filter_loop (f # fs) category is_filtered =
     (if startswith f ''-'' then
        filter_loop fs category (if startswith category (tl f) then True else is_filtered)
      else if startswith f ''+'' then
        filter_loop fs category (if startswith category (tl f) then False else is_filtered)
      else Inl AssertionError)"

definition ShouldPrintError ::
  "suppressions \<Rightarrow> cpplint_state \<Rightarrow> string \<Rightarrow> int \<Rightarrow> int \<Rightarrow> bool res" where
  "ShouldPrintError sp st category confidence linenum =
     (if IsErrorSuppressedByNolint sp category linenum then Inr False
      else if confidence < verbose_level st then Inr False
      else bind_res (filter_loop (filters st) category False) (\<lambda>filtered. Inr (\<not> filtered)))"

section \<open>The default error callback\<close>

text \<open>The state that \<open>Error\<close> reads and writes, with what was written to \<open>stderr\<close>.\<close>

record lint =
  suppr :: suppressions
  cstate :: cpplint_state
  stderr :: "string list"

definition format_error :: "string \<Rightarrow> string \<Rightarrow> int \<Rightarrow> string \<Rightarrow> int \<Rightarrow> string \<Rightarrow> string" where
  "format_error fmt filename linenum category confidence message =
     (if fmt = ''vs7'' then
        filename @ ''('' @ show_int linenum @ ''): error cpplint: ['' @ category @ ''] '' @
        message @ '' ['' @ show_int confidence @ '']\<newline>''
      else if fmt = ''eclipse'' then
        filename @ '':'' @ show_int linenum @ '': warning: '' @ message @ ''  ['' @ category @
        ''] ['' @ show_int confidence @ '']\<newline>''
      else
        filename @ '':'' @ show_int linenum @ '':  '' @ message @ ''  ['' @ category @
        ''] ['' @ show_int confidence @ '']\<newline>'')"

definition Error :: "string \<Rightarrow> int \<Rightarrow> string \<Rightarrow> int \<Rightarrow> string \<Rightarrow> lint \<Rightarrow> lint res" where
  "Error filename linenum category confidence message g =
     bind_res (ShouldPrintError (suppr g) (cstate g) category confidence linenum)
       (\<lambda>yes. if yes
          then Inr (g\<lparr>cstate := IncrementErrorCount category (cstate g),
                 stderr := stderr g @ [format_error (output_format (cstate g))
                   filename linenum category confidence message]\<rparr>)
          else Inr g)"

text \<open>
  Performing the calls of a check with \<open>Error\<close> as its callback. A \<open>NOLINT\<close> call first
  updates the suppressions, then reports.
\<close>

fun perform_call :: "effect \<Rightarrow> lint \<Rightarrow> lint res" where
  "perform_call (ErrorCall f l c n m) g = Error f l c n m g"
| "perform_call (NolintCall f raw_line l) g =
     (case ParseNolintSuppressions f raw_line l (suppr g) of
        (sp, calls) \<Rightarrow>
          fold_res (\<lambda>e g. case e of ErrorCall f l c n m \<Rightarrow> Error f l c n m g
                                  | NolintCall _ _ _ \<Rightarrow> Inr g) calls (g\<lparr>suppr := sp\<rparr>))"

definition perform :: "effect list \<Rightarrow> lint \<Rightarrow> lint res" where
  "perform es g = fold_res perform_call es g"

section \<open>Filters: the last one that applies decides\<close>

text \<open>
  The specification of a filter list: among the filters whose text after the sign is a
  prefix of the category, the last one decides, and without one nothing is filtered.
\<close>

definition filter_applies :: "string \<Rightarrow> string \<Rightarrow> bool" where
  "filter_applies category f \<longleftrightarrow> startswith category (tl f)"

definition filtered_out :: "string list \<Rightarrow> string \<Rightarrow> bool" where
  "filtered_out fs category =
     (case find (filter_applies category) (rev fs) of
        None \<Rightarrow> False
      | Some f \<Rightarrow> startswith f ''-'')"

definition wf_filters :: "string list \<Rightarrow> bool" where
  "wf_filters fs \<longleftrightarrow> (\<forall>f \<in> set fs. filter_ok f)"

lemma startswith_sign_excl: "startswith f ''-'' \<Longrightarrow> \<not> startswith f ''+''"
  by (auto simp: startswith_iff)

lemma find_append: "find P (xs @ ys) = (case find P xs of None \<Rightarrow> find P ys | Some x \<Rightarrow> Some x)"
  by (induction xs) auto

lemma filter_loop_spec:
  "wf_filters fs \<Longrightarrow> filter_loop fs category b =
     Inr (case find (filter_applies category) (rev fs) of
        None \<Rightarrow> b | Some f \<Rightarrow> startswith f ''-'')"
proof (induction fs arbitrary: b)
  case (Cons f fs)
  then have "filter_ok f" and IH: "\<And>b. filter_loop fs category b =
     Inr (case find (filter_applies category) (rev fs) of
        None \<Rightarrow> b | Some f \<Rightarrow> startswith f ''-'')"
    by (auto simp: wf_filters_def)
  then show ?case
    by (auto simp: filter_ok_def find_append filter_applies_def [symmetric]
        dest: startswith_sign_excl split: option.splits)
qed simp

lemma ShouldPrintError_wf:
  assumes "wf_filters (filters st)"
  shows "ShouldPrintError sp st category confidence linenum =
     Inr (\<not> IsErrorSuppressedByNolint sp category linenum \<and>
          verbose_level st \<le> confidence \<and> \<not> filtered_out (filters st) category)"
  using filter_loop_spec [OF assms, of category False]
  by (auto simp: ShouldPrintError_def filtered_out_def)

lemma AddFilters_Inr_iff:
  "AddFilters fs st = Inr st' \<longleftrightarrow>
     st' = st\<lparr>filters := filters st @ clean_filters fs\<rparr> \<and> wf_filters (filters st @ clean_filters fs)"
proof -
  have "find (\<lambda>f. \<not> filter_ok f) xs = None \<longleftrightarrow> wf_filters xs" for xs
    by (auto simp: wf_filters_def find_None_iff)
  then show ?thesis
    by (auto simp: AddFilters_def Let_def split: option.splits) (metis option.distinct(1))
qed

lemma AddFilters_Inl:
  assumes "\<not> wf_filters (filters st @ clean_filters fs)"
  shows "\<exists>bad \<in> set (filters st @ clean_filters fs). \<not> filter_ok bad \<and>
    AddFilters fs st = Inl (ValueError
      (''Every filter in --filters must start with + or - ('' @ bad @ '' does not)''))"
proof -
  from assms obtain bad where b: "find (\<lambda>f. \<not> filter_ok f) (filters st @ clean_filters fs) = Some bad"
    by (metis (mono_tags, lifting) find_None_iff not_None_eq wf_filters_def)
  then have "bad \<in> set (filters st @ clean_filters fs)" "\<not> filter_ok bad"
    by (auto simp: find_Some_iff simp del: set_append)
  with b show ?thesis by (auto simp: AddFilters_def Let_def)
qed

lemma wf_DEFAULT_FILTERS: "wf_filters DEFAULT_FILTERS"
  by code_simp

section \<open>Counters\<close>

definition category_total :: "(string \<rightharpoonup> nat) \<Rightarrow> nat" where
  "category_total m = (\<Sum>c \<in> dom m. the (m c))"

definition counts_agree :: "cpplint_state \<Rightarrow> bool" where
  "counts_agree st \<longleftrightarrow> finite (dom (errors_by_category st)) \<and>
     (counting st \<in> {''toplevel'', ''detailed''} \<longrightarrow>
        category_total (errors_by_category st) = error_count st)"

lemma category_total_upd:
  assumes "finite (dom m)"
  shows "category_total (m(c \<mapsto> n)) + (case m c of None \<Rightarrow> 0 | Some k \<Rightarrow> k) =
         category_total m + n"
proof -
  have "(\<Sum>x \<in> dom m - {c}. the ((m(c \<mapsto> n)) x)) = (\<Sum>x \<in> dom m - {c}. the (m x))"
    by (rule sum.cong) auto
  then have "category_total (m(c \<mapsto> n)) = n + (\<Sum>x \<in> dom m - {c}. the (m x))"
    using assms unfolding category_total_def by (simp add: sum.insert_remove)
  moreover have "category_total m =
      (case m c of None \<Rightarrow> 0 | Some k \<Rightarrow> k) + (\<Sum>x \<in> dom m - {c}. the (m x))"
    using assms unfolding category_total_def
    by (cases "m c") (auto simp: sum.remove [of _ c] domIff)
  ultimately show ?thesis by simp
qed

lemma IncrementErrorCount_simps:
  "error_count (IncrementErrorCount c st) = error_count st + 1"
  "counting (IncrementErrorCount c st) = counting st"
  "filters (IncrementErrorCount c st) = filters st"
  "filters_backup (IncrementErrorCount c st) = filters_backup st"
  "verbose_level (IncrementErrorCount c st) = verbose_level st"
  "output_format (IncrementErrorCount c st) = output_format st"
  by (simp_all add: IncrementErrorCount_def Let_def)

lemma IncrementErrorCount_map:
  "errors_by_category (IncrementErrorCount c st) =
     (if counting st \<in> {''toplevel'', ''detailed''}
      then (errors_by_category st)(category_key (counting st) c \<mapsto>
        Suc (case errors_by_category st (category_key (counting st) c) of None \<Rightarrow> 0 | Some n \<Rightarrow> n))
      else errors_by_category st)"
  by (auto simp: IncrementErrorCount_def Let_def split: option.splits)

lemma IncrementErrorCount_agree:
  assumes "counts_agree st"
  shows "counts_agree (IncrementErrorCount c st)"
proof (cases "counting st \<in> {''toplevel'', ''detailed''}")
  case True
  let ?m = "errors_by_category st" and ?k = "category_key (counting st) c"
  let ?n = "case ?m ?k of None \<Rightarrow> 0 | Some n \<Rightarrow> n"
  have "category_total (?m(?k \<mapsto> Suc ?n)) + ?n = category_total ?m + Suc ?n"
    using assms by (intro category_total_upd) (simp add: counts_agree_def)
  with assms True show ?thesis
    by (auto simp: counts_agree_def IncrementErrorCount_simps IncrementErrorCount_map)
next
  case False
  with assms show ?thesis
    by (simp add: counts_agree_def IncrementErrorCount_simps IncrementErrorCount_map)
qed

section \<open>The interface that the checks rely on\<close>

text \<open>
  A check hands its findings to a sink and relies on little: a call does not fail on a
  well-formed state, keeps it well-formed, does not change what would be accepted later,
  and adds one to a total exactly when the call is accepted.
\<close>

locale report_sink =
  fixes emit :: "effect \<Rightarrow> 'g \<Rightarrow> 'g res"
    and accepted :: "'g \<Rightarrow> effect \<Rightarrow> bool"
    and total :: "'g \<Rightarrow> nat"
    and wf :: "'g \<Rightarrow> bool"
  assumes emit_ok: "wf g \<Longrightarrow> is_error_call e \<Longrightarrow> \<exists>g'. emit e g = Inr g' \<and> wf g' \<and>
      accepted g' = accepted g \<and> total g' = total g + (if accepted g e then 1 else 0)"
begin

lemma run_total:
  assumes "wf g" and "\<forall>e \<in> set es. is_error_call e"
  shows "\<exists>g'. fold_res emit es g = Inr g' \<and> wf g' \<and> accepted g' = accepted g \<and>
    total g' = total g + length (filter (accepted g) es)"
  using assms
proof (induction es arbitrary: g)
  case (Cons e es)
  from emit_ok [of g e] Cons.prems obtain g1 where g1: "emit e g = Inr g1" "wf g1"
    "accepted g1 = accepted g" "total g1 = total g + (if accepted g e then 1 else 0)" by auto
  from Cons.IH [of g1] Cons.prems g1(2) obtain g' where
    "fold_res emit es g1 = Inr g'" "wf g'" "accepted g' = accepted g1"
    "total g' = total g1 + length (filter (accepted g1) es)" by auto
  with g1 show ?case by auto
qed simp

end

definition lint_wf :: "lint \<Rightarrow> bool" where
  "lint_wf g \<longleftrightarrow> wf_filters (filters (cstate g)) \<and> wf_filters (filters_backup (cstate g))"

definition printable :: "lint \<Rightarrow> effect \<Rightarrow> bool" where
  "printable g e = (case e of
     ErrorCall f l c n m \<Rightarrow>
       \<not> IsErrorSuppressedByNolint (suppr g) c l \<and> verbose_level (cstate g) \<le> n \<and>
       \<not> filtered_out (filters (cstate g)) c
   | NolintCall _ _ _ \<Rightarrow> False)"

lemma Error_wf:
  assumes "lint_wf g"
  shows "Error f l c n m g =
    Inr (if printable g (ErrorCall f l c n m)
         then g\<lparr>cstate := IncrementErrorCount c (cstate g),
                stderr := stderr g @ [format_error (output_format (cstate g)) f l c n m]\<rparr>
         else g)"
  using assms by (simp add: Error_def lint_wf_def ShouldPrintError_wf printable_def)

lemma lint_wf_Error: "lint_wf g \<Longrightarrow> Error f l c n m g = Inr g' \<Longrightarrow> lint_wf g'"
  by (auto simp: Error_wf lint_wf_def IncrementErrorCount_simps split: if_splits)

interpretation sink: report_sink perform_call printable "\<lambda>g. error_count (cstate g)" lint_wf
proof
  fix g e
  assume wf: "lint_wf g" and "is_error_call e"
  then obtain f l c n m where e: "e = ErrorCall f l c n m" by (cases e) auto
  show "\<exists>g'. perform_call e g = Inr g' \<and> lint_wf g' \<and> printable g' = printable g \<and>
      error_count (cstate g') = error_count (cstate g) + (if printable g e then 1 else 0)"
    using wf
    by (auto simp: e Error_wf lint_wf_def printable_def fun_eq_iff IncrementErrorCount_simps
        split: effect.splits)
qed

section \<open>Every reachable state\<close>

text \<open>
  The operations of the module on its state, in any order: the command line and the
  configuration files call the setters, the checks call \<open>Error\<close> and the suppression
  functions. An operation that raises ends the run, so it makes no step.
\<close>

definition lint_init :: lint where
  "lint_init = \<lparr>suppr = \<lparr>error_suppressions = Map.empty, global_error_suppressions = Map.empty\<rparr>,
     cstate = CppLintState_init, stderr = []\<rparr>"

inductive lint_step :: "lint \<Rightarrow> lint \<Rightarrow> bool" where
  set_filters: "SetFilters fs (cstate g) = Inr st \<Longrightarrow> lint_step g (g\<lparr>cstate := st\<rparr>)"
| add_filters: "AddFilters fs (cstate g) = Inr st \<Longrightarrow> lint_step g (g\<lparr>cstate := st\<rparr>)"
| backup: "lint_step g (g\<lparr>cstate := BackupFilters (cstate g)\<rparr>)"
| restore: "lint_step g (g\<lparr>cstate := RestoreFilters (cstate g)\<rparr>)"
| verbose: "lint_step g (g\<lparr>cstate := snd (SetVerboseLevel v (cstate g))\<rparr>)"
| set_quiet: "lint_step g (g\<lparr>cstate := snd (SetQuiet q (cstate g))\<rparr>)"
| set_format: "lint_step g (g\<lparr>cstate := SetOutputFormat fmt (cstate g)\<rparr>)"
| counting_style: "lint_step g (g\<lparr>cstate := SetCountingStyle style (cstate g)\<rparr>)"
| reset_counts: "lint_step g (g\<lparr>cstate := ResetErrorCounts (cstate g)\<rparr>)"
| reset_nolint: "lint_step g (g\<lparr>suppr := ResetNolintSuppressions (suppr g)\<rparr>)"
| global_suppressions:
    "lint_step g (g\<lparr>suppr := ProcessGlobalSuppresions lines (suppr g)\<rparr>)"
| call: "perform_call e g = Inr g' \<Longrightarrow> lint_step g g'"

inductive lint_reachable :: "lint \<Rightarrow> bool" where
  start: "lint_reachable lint_init"
| step: "lint_reachable g \<Longrightarrow> lint_step g g' \<Longrightarrow> lint_reachable g'"

lemma perform_call_wf: "lint_wf g \<Longrightarrow> perform_call e g = Inr g' \<Longrightarrow> lint_wf g'"
proof (cases e)
  case (ErrorCall f l c n m)
  assume "lint_wf g" "perform_call e g = Inr g'"
  with ErrorCall show ?thesis by (auto intro: lint_wf_Error)
next
  case (NolintCall f line l)
  assume wf: "lint_wf g" and p: "perform_call e g = Inr g'"
  obtain sp calls where "ParseNolintSuppressions f line l (suppr g) = (sp, calls)" by fastforce
  moreover have "lint_wf (g\<lparr>suppr := sp\<rparr>)" using wf by (simp add: lint_wf_def)
  ultimately show ?thesis
    using p NolintCall
    by (auto elim!: fold_res_invariant [where P = lint_wf] split: effect.splits
        intro: lint_wf_Error)
qed

lemma lint_step_wf: "lint_step g g' \<Longrightarrow> lint_wf g \<Longrightarrow> lint_wf g'"
proof (induction rule: lint_step.induct)
  case (call e g g')
  then show ?case by (simp add: perform_call_wf)
qed (auto simp: lint_wf_def SetFilters_def AddFilters_Inr_iff BackupFilters_def
      RestoreFilters_def SetVerboseLevel_def SetQuiet_def SetOutputFormat_def
      SetCountingStyle_def ResetErrorCounts_def)

lemma lint_reachable_wf: "lint_reachable g \<Longrightarrow> lint_wf g"
proof (induction rule: lint_reachable.induct)
  case start
  show ?case using wf_DEFAULT_FILTERS by (simp add: lint_wf_def lint_init_def CppLintState_init_def)
next
  case (step g g')
  then show ?case by (blast intro: lint_step_wf)
qed

section \<open>The error callback\<close>

text \<open>
  C8: in every state that the operations of the module can reach, \<open>Error\<close> never raises (the
  assertion on the filters holds), and it counts and prints the error exactly when no
  \<open>NOLINT\<close> or file marker suppresses it, its confidence reaches the verbosity level, and the
  last filter that applies to its category, if any, is not a \<open>-\<close> filter.
\<close>

theorem error_reports:
  assumes "lint_reachable g"
  shows "Error filename linenum category confidence message g =
    Inr (if \<not> IsErrorSuppressedByNolint (suppr g) category linenum \<and>
            verbose_level (cstate g) \<le> confidence \<and> \<not> filtered_out (filters (cstate g)) category
         then g\<lparr>cstate := IncrementErrorCount category (cstate g),
                stderr := stderr g @ [format_error (output_format (cstate g))
                  filename linenum category confidence message]\<rparr>
         else g)"
  using lint_reachable_wf [OF assms] by (simp add: Error_wf printable_def)

theorem error_reports_witness:
  "Error ''f.h'' 3 ''build/include_alpha'' 4 ''m'' lint_init = Inr lint_init"
proof -
  have "filtered_out (filters (cstate lint_init)) ''build/include_alpha''" by code_simp
  then show ?thesis using error_reports [OF lint_reachable.start] by simp
qed

text \<open>
  C28: \<open>_SetFilters\<close> accepts a list exactly when every filter in it, stripped of spaces,
  starts with a sign; then the default filters come first and the new ones follow in order.
  Otherwise it raises a \<open>ValueError\<close> that names a filter without a sign. In particular a filter
  written without a sign is never taken to mean ``do not print'': the usage message says it
  is (``-FOO'' and ``FOO''), and gives \<open>--filter=whitespace,runtime/printf,+runtime/printf_format\<close>
  as an example, which raises.
\<close>

theorem set_filters_result:
  "if wf_filters (clean_filters fs)
   then SetFilters fs st = Inr (st\<lparr>filters := DEFAULT_FILTERS @ clean_filters fs\<rparr>)
   else \<exists>bad. bad \<in> set (clean_filters fs) \<and> \<not> filter_ok bad \<and>
     SetFilters fs st = Inl (ValueError
       (''Every filter in --filters must start with + or - ('' @ bad @ '' does not)''))"
proof (cases "wf_filters (clean_filters fs)")
  case True
  with wf_DEFAULT_FILTERS have "wf_filters (DEFAULT_FILTERS @ clean_filters fs)"
    by (auto simp: wf_filters_def)
  then have "AddFilters fs (st\<lparr>filters := DEFAULT_FILTERS\<rparr>) =
      Inr (st\<lparr>filters := DEFAULT_FILTERS @ clean_filters fs\<rparr>)" by (simp add: AddFilters_Inr_iff)
  with True show ?thesis by (simp add: SetFilters_def)
next
  case False
  then have "\<not> wf_filters (filters (st\<lparr>filters := DEFAULT_FILTERS\<rparr>) @ clean_filters fs)"
    by (auto simp: wf_filters_def)
  from AddFilters_Inl [OF this] wf_DEFAULT_FILTERS False show ?thesis
    by (auto simp: SetFilters_def wf_filters_def)
qed

lemma perform_counts:
  "lint_wf g \<Longrightarrow> counts_agree (cstate g) \<Longrightarrow> perform_call (ErrorCall f l c n m) g = Inr g' \<Longrightarrow>
     counts_agree (cstate g')"
  by (auto simp: Error_wf IncrementErrorCount_agree split: if_splits)

text \<open>
  C20: a check that makes any sequence of calls of \<open>Error\<close> runs to its end, the error count
  grows by the number of calls that pass the decision, and the counters by category keep
  adding up to the error count when counting by category is on.
\<close>

theorem report_count:
  assumes "lint_wf g" and "counts_agree (cstate g)" and "\<forall>e \<in> set calls. is_error_call e"
  shows "\<exists>g'. perform calls g = Inr g' \<and> counts_agree (cstate g') \<and>
    error_count (cstate g') = error_count (cstate g) + length (filter (printable g) calls)"
proof -
  from sink.run_total [OF assms(1,3)] obtain g' where
    g': "perform calls g = Inr g'"
      "error_count (cstate g') = error_count (cstate g) + length (filter (printable g) calls)"
    by (auto simp: perform_def)
  have "lint_wf g' \<and> counts_agree (cstate g')"
    using g'(1) [unfolded perform_def]
  proof (rule fold_res_invariant)
    fix e t t'
    assume e: "e \<in> set calls" "lint_wf t \<and> counts_agree (cstate t)" "perform_call e t = Inr t'"
    from e(1) assms(3) have "is_error_call e" by blast
    then obtain f l c n m where "e = ErrorCall f l c n m" by (cases e) auto
    with e(2,3) perform_call_wf [of t e t'] perform_counts show "lint_wf t' \<and> counts_agree (cstate t')"
      by blast
  qed (use assms in simp)
  with g' show ?thesis by blast
qed

theorem report_count_witness:
  "\<exists>g'. perform [ErrorCall ''f.h'' 1 ''build/include'' 4 ''m'', ErrorCall ''f.h'' 2 ''build/include_alpha'' 4 ''m'']
      lint_init = Inr g' \<and> error_count (cstate g') = 1"
proof -
  let ?es = "[ErrorCall ''f.h'' 1 ''build/include'' 4 ''m'', ErrorCall ''f.h'' 2 ''build/include_alpha'' 4 ''m'']"
  have "lint_wf lint_init" by (rule lint_reachable_wf [OF lint_reachable.start])
  moreover have "counts_agree (cstate lint_init)"
    by (simp add: counts_agree_def lint_init_def CppLintState_init_def)
  moreover have "\<forall>e \<in> set ?es. is_error_call e" by simp
  moreover have "length (filter (printable lint_init) ?es) = 1" by code_simp
  moreover have "error_count (cstate lint_init) = 0" by code_simp
  ultimately show ?thesis using report_count [of lint_init ?es] by auto
qed

end
