(* ===== verification/Check_Tools.thy ===== *)
theory Check_Tools
  imports Nesting Lint_State
begin

text \<open>
  What the line checks share: slices and searches of strings, sequences of checks, and the
  contract of a check, namely that it returns and that every call it makes to the error callback
  names the file, a category of the table \<open>_ERROR_CATEGORIES\<close> and a confidence from 0 to 5.
\<close>

section \<open>Strings\<close>

text \<open>\<open>s[i:]\<close>: a negative start counts from the end of the string.\<close>

definition slice_from :: "string \<Rightarrow> int \<Rightarrow> string" where
  "slice_from s i = drop (nat (if i < 0 then int (length s) + i else i)) s"

text \<open>\<open>s.rfind(c)\<close> of one character.\<close>

definition rfind_char :: "char \<Rightarrow> string \<Rightarrow> nat option" where
  "rfind_char c s = map_option (\<lambda>j. length s - 1 - j) (first_index ((=) c) (rev s))"

text \<open>\<open>isdigit\<close> and \<open>isspace\<close> of a Unicode string below code point 256.\<close>

definition str_isdigit :: "string \<Rightarrow> bool" where
  "str_isdigit s \<longleftrightarrow> s \<noteq> [] \<and> list_all (\<lambda>c. is_digit c \<or> c \<in> {CHR 0xB2, CHR 0xB3, CHR 0xB9}) s"

definition str_isspace :: "string \<Rightarrow> bool" where
  "str_isspace s \<longleftrightarrow> s \<noteq> [] \<and> list_all is_uspace s"

definition lstrip :: "string \<Rightarrow> string" where
  "lstrip s = lstrip_by is_uspace s"

text \<open>\<open>s.split(sep)\<close> for a separator of several characters.\<close>

function str_split :: "string \<Rightarrow> string \<Rightarrow> string list" where
  "str_split s sep =
     (case str_find s sep of
        None \<Rightarrow> [s]
      | Some i \<Rightarrow> if sep = [] then [s] else take i s # str_split (drop (i + length sep) s) sep)"
  by pat_completeness auto
termination
  by (relation "measure (\<lambda>(s, sep). length s)") (auto dest!: str_find_bound simp flip: length_greater_0_conv)

declare str_split.simps [simp del]

abbreviation found :: "mobj option \<Rightarrow> bool" where
  "found m \<equiv> m \<noteq> None"

text \<open>A group around a pattern without groups records exactly what the pattern reads.\<close>

lemma matches_group_plainD:
  assumes "groups_of r = []" "(k1, c1) \<in> set (matches (Group n r) k c)"
  shows "\<exists>w. c1 = (n, pos k, w) # c \<and> rest k = w @ rest k1 \<and> (k1, c) \<in> set (matches r k c)"
proof -
  from matches_GroupD [OF assms(2)] obtain w c0 where
    w: "c1 = (n, pos k, w) # c0" "rest k = w @ rest k1" "(k1, c0) \<in> set (matches r k c)" by blast
  from matches_plainD [OF assms(1) w(3)] w show ?thesis by blast
qed

text \<open>\<open>pattern.finditer(s)\<close>: the matches from left to right, without overlap.\<close>

function finditer_from :: "regex \<Rightarrow> cursor \<Rightarrow> mobj list" where
  "finditer_from r k =
     (case matches r k [] of
        [] \<Rightarrow> if rest k = [] then [] else finditer_from r (advance k)
      | kc # _ \<Rightarrow>
          mk_match k kc #
          (if length (rest (fst kc)) < length (rest k) then finditer_from r (fst kc)
           else if rest k = [] then [] else finditer_from r (advance k)))"
  by pat_completeness auto
termination
  by (relation "measure (\<lambda>(r, k). length (rest k))") (auto simp: advance_def split: list.splits)

declare finditer_from.simps [simp del]

lemma finditer_word:
  "m \<in> set (finditer_from r k) \<Longrightarrow> \<exists>k'. match_at r k' = Some m"
proof (induction r k rule: finditer_from.induct)
  case (1 r k)
  show ?case
  proof (cases "matches r k []")
    case Nil
    with 1 show ?thesis by (subst (asm) (3) finditer_from.simps) (auto split: if_splits)
  next
    case (Cons kc kcs)
    then have "match_at r k = Some (mk_match k kc)" by (simp add: match_at_def)
    with 1 Cons show ?thesis by (subst (asm) (4) finditer_from.simps) (auto split: if_splits)
  qed
qed

section \<open>Sequences of checks\<close>

definition report :: "bool \<Rightarrow> effect \<Rightarrow> effect list" where
  "report b e = (if b then [e] else [])"

fun effects :: "effect list res list \<Rightarrow> effect list res" where
  "effects [] = Inr []"
| "effects (r # rs) = bind_res r (\<lambda>es. bind_res (effects rs) (\<lambda>es'. Inr (es @ es')))"

text \<open>The lines at some indices, one after the other.\<close>

fun py_lines :: "string list \<Rightarrow> nat list \<Rightarrow> string list res" where
  "py_lines ls [] = Inr []"
| "py_lines ls (i # is) =
     bind_res (py_nth ls (int i)) (\<lambda>l. bind_res (py_lines ls is) (\<lambda>rest. Inr (l # rest)))"

lemma py_lines_nth: "\<forall>i \<in> set is. i < length ls \<Longrightarrow> py_lines ls is = Inr (map ((!) ls) is)"
  by (induction "is") simp_all

section \<open>Options and the file system\<close>

text \<open>The options of the command line that the checks read, and the file system.\<close>

record lint_config =
  cfg_env :: os_env
  cfg_root :: "string option"
  cfg_root_debug :: bool
  cfg_line_length :: int
  cfg_valid_extensions :: "string list"
  cfg_hpp_headers :: "string list"

definition default_config :: "os_env \<Rightarrow> lint_config" where
  "default_config env = \<lparr>cfg_env = env, cfg_root = None, cfg_root_debug = False, cfg_line_length = 80,
     cfg_valid_extensions = [''cc'', ''h'', ''cpp'', ''cu'', ''cuh''], cfg_hpp_headers = [''h'']\<rparr>"

definition ProcessHppHeadersOption :: "string \<Rightarrow> lint_config \<Rightarrow> lint_config" where
  "ProcessHppHeadersOption val cfg =
     cfg\<lparr>cfg_hpp_headers := split_on CHR '','' val,
         cfg_valid_extensions := cfg_valid_extensions cfg @ split_on CHR '','' val\<rparr>"

definition IsHeaderExtension :: "lint_config \<Rightarrow> string \<Rightarrow> bool" where
  "IsHeaderExtension cfg file_extension \<longleftrightarrow> file_extension \<in> set (cfg_hpp_headers cfg)"

text \<open>
  A computation that can fail to end, because the search for the repository does: \<open>None\<close>.
\<close>

type_synonym 'a run = "'a res option"

definition bind_run :: "'a run \<Rightarrow> ('a \<Rightarrow> 'b run) \<Rightarrow> 'b run" where
  "bind_run m f = (case m of None \<Rightarrow> None | Some (Inl e) \<Rightarrow> Some (Inl e) | Some (Inr x) \<Rightarrow> f x)"

lemma bind_run_simps [simp]:
  "bind_run None f = None"
  "bind_run (Some (Inl e)) f = Some (Inl e)"
  "bind_run (Some (Inr x)) f = f x"
  by (simp_all add: bind_run_def)

section \<open>The contract of a check\<close>

definition known_category :: "string \<Rightarrow> bool" where
  "known_category category \<longleftrightarrow> category \<in> set ERROR_CATEGORIES"

fun call_ok :: "string \<Rightarrow> effect \<Rightarrow> bool" where
  "call_ok filename (ErrorCall f n category confidence message) \<longleftrightarrow>
     f = filename \<and> known_category category \<and> 0 \<le> confidence \<and> confidence \<le> 5"
| "call_ok filename (NolintCall f text n) \<longleftrightarrow> f = filename"

definition calls_ok :: "string \<Rightarrow> effect list \<Rightarrow> bool" where
  "calls_ok filename es \<longleftrightarrow> list_all (call_ok filename) es"

definition check_ok :: "string \<Rightarrow> effect list res \<Rightarrow> bool" where
  "check_ok filename r \<longleftrightarrow> (\<exists>es. r = Inr es \<and> calls_ok filename es)"

lemma calls_ok_simps [simp]:
  "calls_ok f []"
  "calls_ok f (e # es) \<longleftrightarrow> call_ok f e \<and> calls_ok f es"
  "calls_ok f (es @ es') \<longleftrightarrow> calls_ok f es \<and> calls_ok f es'"
  "calls_ok f (report b e) \<longleftrightarrow> (b \<longrightarrow> call_ok f e)"
  by (simp_all add: calls_ok_def report_def)

lemma calls_ok_concat: "calls_ok f (concat ess) \<longleftrightarrow> (\<forall>es \<in> set ess. calls_ok f es)"
  by (induction ess) simp_all

lemma check_ok_Inr [simp]: "check_ok f (Inr es) = calls_ok f es"
  by (simp add: check_ok_def)

lemma check_ok_Inl [simp]: "\<not> check_ok f (Inl e)"
  by (simp add: check_ok_def)

lemma check_ok_effects [simp]: "check_ok f (effects rs) \<longleftrightarrow> (\<forall>r \<in> set rs. check_ok f r)"
proof (induction rs)
  case (Cons r rs)
  then show ?case by (cases r; cases "effects rs") (auto simp: check_ok_def)
qed simp

declare effects.simps [simp del]

lemma check_ok_bind:
  "m = Inr x \<Longrightarrow> check_ok f (k x) \<Longrightarrow> check_ok f (bind_res m k)"
  by simp

lemma category_known [simp]:
  "known_category ''build/class''" "known_category ''build/c++11''" "known_category ''build/c++14''"
  "known_category ''build/c++tr1''" "known_category ''build/deprecated''"
  "known_category ''build/endif_comment''" "known_category ''build/explicit_make_pair''"
  "known_category ''build/forward_decl''" "known_category ''build/header_guard''"
  "known_category ''build/include''" "known_category ''build/include_alpha''"
  "known_category ''build/include_order''" "known_category ''build/include_what_you_use''"
  "known_category ''build/namespaces''" "known_category ''build/printf_format''"
  "known_category ''build/storage_class''" "known_category ''legal/copyright''"
  "known_category ''readability/alt_tokens''" "known_category ''readability/braces''"
  "known_category ''readability/casting''" "known_category ''readability/check''"
  "known_category ''readability/constructors''" "known_category ''readability/fn_size''"
  "known_category ''readability/inheritance''" "known_category ''readability/multiline_comment''"
  "known_category ''readability/multiline_string''" "known_category ''readability/namespace''"
  "known_category ''readability/nolint''" "known_category ''readability/nul''"
  "known_category ''readability/todo''" "known_category ''readability/utf8''"
  "known_category ''runtime/arrays''" "known_category ''runtime/casting''"
  "known_category ''runtime/explicit''" "known_category ''runtime/int''"
  "known_category ''runtime/init''" "known_category ''runtime/invalid_increment''"
  "known_category ''runtime/member_string_references''" "known_category ''runtime/memset''"
  "known_category ''runtime/indentation_namespace''" "known_category ''runtime/operator''"
  "known_category ''runtime/printf''" "known_category ''runtime/printf_format''"
  "known_category ''runtime/references''" "known_category ''runtime/string''"
  "known_category ''runtime/threadsafe_fn''" "known_category ''runtime/vlog''"
  "known_category ''whitespace/blank_line''" "known_category ''whitespace/braces''"
  "known_category ''whitespace/comma''" "known_category ''whitespace/comments''"
  "known_category ''whitespace/empty_conditional_body''" "known_category ''whitespace/empty_if_body''"
  "known_category ''whitespace/empty_loop_body''" "known_category ''whitespace/end_of_line''"
  "known_category ''whitespace/ending_newline''" "known_category ''whitespace/forcolon''"
  "known_category ''whitespace/indent''" "known_category ''whitespace/line_length''"
  "known_category ''whitespace/newline''" "known_category ''whitespace/operators''"
  "known_category ''whitespace/parens''" "known_category ''whitespace/semicolon''"
  "known_category ''whitespace/tab''" "known_category ''whitespace/todo''"
  by (simp_all add: known_category_def ERROR_CATEGORIES_def)

text \<open>
  A weaker contract, for checks that index past the end of a list or string on some input:
  they raise no other exception.
\<close>

definition check_safe :: "string \<Rightarrow> effect list res \<Rightarrow> bool" where
  "check_safe filename r \<longleftrightarrow> r = Inl IndexError \<or> check_ok filename r"

lemma check_safe_simps [simp]:
  "check_safe f (Inr es) = calls_ok f es"
  "check_safe f (Inl e) = (e = IndexError)"
  by (simp_all add: check_safe_def)

lemma check_ok_safe: "check_ok f r \<Longrightarrow> check_safe f r"
  by (simp add: check_safe_def)

lemma check_safe_effects: "\<forall>r \<in> set rs. check_safe f r \<Longrightarrow> check_safe f (effects rs)"
proof (induction rs)
  case Nil
  then show ?case by (simp add: effects.simps)
next
  case (Cons r rs)
  then show ?case by (cases r; cases "effects rs") (auto simp: effects.simps)
qed

text \<open>Computations that raise no exception but \<open>IndexError\<close>.\<close>

definition index_only :: "'a res \<Rightarrow> bool" where
  "index_only r \<longleftrightarrow> (case r of Inl e \<Rightarrow> e = IndexError | Inr _ \<Rightarrow> True)"

lemma index_only_simps [simp]: "index_only (Inr x)" "index_only (Inl e) = (e = IndexError)"
  by (simp_all add: index_only_def)

lemma index_only_bind: "index_only m \<Longrightarrow> (\<And>x. index_only (k x)) \<Longrightarrow> index_only (bind_res m k)"
  by (cases m) simp_all

lemma index_only_nth: "index_only (py_nth xs i)"
  by (simp add: py_nth_def Let_def)

lemma index_only_lines: "index_only (py_lines ls is)"
proof (induction "is")
  case (Cons i "is")
  show ?case unfolding py_lines.simps by (intro index_only_bind index_only_nth Cons) simp
qed simp

lemma index_only_close: "index_only (CloseExpression elided n c)"
  unfolding CloseExpression_def by (intro index_only_bind index_only_nth) simp

lemma check_safe_bind:
  "index_only m \<Longrightarrow> (\<And>x. check_safe f (k x)) \<Longrightarrow> check_safe f (bind_res m k)"
  by (cases m) simp_all

lemmas index_only_rules = index_only_bind index_only_nth index_only_lines index_only_close

text \<open>The contract of a check that can fail to end.\<close>

definition run_ok :: "string \<Rightarrow> effect list run \<Rightarrow> bool" where
  "run_ok filename r \<longleftrightarrow> (\<exists>es. r = Some (Inr es) \<and> calls_ok filename es)"

lemma run_ok_Some [simp]: "run_ok f (Some r) = check_ok f r"
  by (simp add: run_ok_def check_ok_def)

text \<open>The lines of a cleansed file, at the index of a line.\<close>

lemma cl_wf_nth:
  assumes "cl_wf c" "n < NumLines c"
  shows "py_nth (cl_elided c) (int n) = Inr (cl_elided c ! n)"
    "py_nth (cl_lines c) (int n) = Inr (cl_lines c ! n)"
    "py_nth (cl_raw_lines c) (int n) = Inr (cl_raw_lines c ! n)"
    "py_nth (cl_lines_without_raw_strings c) (int n) = Inr (cl_lines_without_raw_strings c ! n)"
  using assms by (simp_all add: cl_wf_def NumLines_def)

text \<open>Lemmas on groups, scans and lines that the proofs of the contract share.\<close>

lemma group_then_char:
  assumes "rx p = Cat Bol (Cat (Group 1 r) (Cat (Class neg items) s)) \<or>
      rx p = Cat Bol (Cat (Group 1 r) (Class neg items))"
    and "groups_of r = []" "groups_of s = []" and "Match p line = Some m"
  shows "\<exists>x v. line = grp m 1 @ x # v \<and> class_has neg items x"
proof -
  from Match_SomeD [OF assms(4)] obtain k' where
    k': "(k', m_caps m) \<in> set (matches (rx p) (start_cursor line) [])" by blast
  have "\<exists>k0 c0 k1 c1 k2 c2. (k0, c0) \<in> set (matches Bol (start_cursor line) []) \<and>
      (k1, c1) \<in> set (matches (Group 1 r) k0 c0) \<and> (k2, c2) \<in> set (matches (Class neg items) k1 c1) \<and>
      ((k', m_caps m) = (k2, c2) \<or> (k', m_caps m) \<in> set (matches s k2 c2))"
    using assms(1)
  proof
    assume "rx p = Cat Bol (Cat (Group 1 r) (Cat (Class neg items) s))"
    then show ?thesis using k' by (simp only: matches_Cat_iff) blast
  next
    assume "rx p = Cat Bol (Cat (Group 1 r) (Class neg items))"
    then show ?thesis using k' by (simp only: matches_Cat_iff) blast
  qed
  then obtain k0 c0 k1 c1 k2 c2 where
    k0: "(k0, c0) \<in> set (matches Bol (start_cursor line) [])"
    and g: "(k1, c1) \<in> set (matches (Group 1 r) k0 c0)"
    and x: "(k2, c2) \<in> set (matches (Class neg items) k1 c1)"
    and s: "(k', m_caps m) = (k2, c2) \<or> (k', m_caps m) \<in> set (matches s k2 c2)" by blast
  from k0 have start: "k0 = start_cursor line" "c0 = []" by (auto split: if_splits)
  from matches_group_plainD [OF assms(2) g] start obtain w where
    w: "c1 = [(1, 0, w)]" "line = w @ rest k1" by auto
  from matches_ClassD [OF x] obtain y where y: "c2 = c1" "rest k1 = y # rest k2" "class_has neg items y" by blast
  from s matches_plainD [OF assms(3)] y(1) have "m_caps m = c1" by auto
  then have "grp m 1 = w" by (simp add: grp_caps w(1))
  with w(2) y(2,3) show ?thesis by auto
qed

lemma reverse_loop_line: "fst (snd (reverse_loop elided line n r)) \<le> n"
proof (induction elided line n r rule: reverse_loop.induct)
  case (1 elided line n r)
  then show ?case by (subst reverse_loop.simps) (fastforce split: scan.splits)
qed

lemma ReverseCloseExpression_returns:
  assumes "n < length elided" "col < length (elided ! n)"
  shows "\<exists>line n' p. ReverseCloseExpression elided n col = Inr (line, n', p) \<and> n' \<le> n"
proof -
  let ?r = "reverse_loop elided (elided ! n) n (FindStartOfExpressionInLine (elided ! n) col [])"
  have "fst (snd ?r) \<le> n" by (rule reverse_loop_line)
  with assms show ?thesis
    by (cases ?r) (auto simp: ReverseCloseExpression_def)
qed

definition stack_in :: "cleansed_lines \<Rightarrow> nesting_state \<Rightarrow> bool" where
  "stack_in c st \<longleftrightarrow> list_all (\<lambda>b. starting_linenum b < NumLines c) (stack st)"

lemma check_ok_nth [intro]:
  "n < length ls \<Longrightarrow> check_ok f (k (ls ! n)) \<Longrightarrow> check_ok f (bind_res (py_nth ls (int n)) k)"
  by simp

lemma py_nth_pred: "n < length ls \<Longrightarrow> \<exists>l. py_nth ls (int n - 1) = Inr l"
  by (cases n) (simp_all add: py_nth_def)

lemma cl_wf_lengths:
  assumes "cl_wf c" "n < NumLines c"
  shows "n < length (cl_elided c)" "n < length (cl_lines c)" "n < length (cl_raw_lines c)"
    "n < length (cl_lines_without_raw_strings c)"
  using assms by (simp_all add: cl_wf_def NumLines_def)

text \<open>Patterns that read at least one character.\<close>

fun consumes :: "regex \<Rightarrow> bool" where
  "consumes Dot = True"
| "consumes (Class neg items) = True"
| "consumes (Cat r s) = (consumes r \<or> consumes s)"
| "consumes (Alt r s) = (consumes r \<and> consumes s)"
| "consumes (Group n r) = consumes r"
| "consumes r = False"

lemma consumes_shorter:
  "consumes r \<Longrightarrow> (k', c') \<in> set (matches r k c) \<Longrightarrow> length (rest k') < length (rest k)"
proof (induction r arbitrary: k c k' c' rule: consumes.induct)
  case (3 r s)
  from "3.prems"(2) obtain k1 c1 where
    m: "(k1, c1) \<in> set (matches r k c)" "(k', c') \<in> set (matches s k1 c1)" unfolding matches_Cat_iff by blast
  from "3.prems"(1) consider "consumes r" | "consumes s" by auto
  then show ?case
    using "3.IH"(1) [OF _ m(1)] "3.IH"(2) [OF _ m(2)] reach_length [OF matches_reach [OF m(1)]]
      reach_length [OF matches_reach [OF m(2)]] by cases auto
qed (auto simp: one_char_def advance_def split: list.splits if_splits)

lemma matches_Cat_assoc:
  "kc \<in> set (matches (Cat a (Cat b r)) k c) \<Longrightarrow> kc \<in> set (matches (Cat (Cat a b) r) k c)"
  "kc \<in> set (matches (Cat a (Cat b (Cat d r))) k c) \<Longrightarrow> kc \<in> set (matches (Cat (Cat a (Cat b d)) r) k c)"
  by (cases kc, simp only: matches_Cat_iff, blast)+

text \<open>What a later group captures is shorter than the text, if something is read before.\<close>

lemma later_group_shorter:
  assumes m: "Match p s = Some m"
    and p: "\<And>kc k c. kc \<in> set (matches (rx p) k c) \<Longrightarrow> kc \<in> set (matches (Cat a r) k c)"
    and a: "consumes a" "n \<notin> fst ` set (groups_of a)" and n: "n \<noteq> 0"
  shows "length (grp m n) < length s"
proof -
  from Match_SomeD [OF m] p obtain k' where
    "(k', m_caps m) \<in> set (matches (Cat a r) (start_cursor s) [])" by blast
  then obtain k1 c1 where
    k1: "(k1, c1) \<in> set (matches a (start_cursor s) [])" "(k', m_caps m) \<in> set (matches r k1 c1)"
    unfolding matches_Cat_iff by blast
  from consumes_shorter [OF a(1) k1(1)] have less: "length (rest k1) < length s" by simp
  from matches_captures [OF k1(1)] a(2) have none: "map_of c1 n = None"
    by (force simp: captures_ok_def capture_ok_def map_of_eq_None_iff)
  show ?thesis
  proof (cases "map_of (m_caps m) n")
    case None
    with less n show ?thesis by (auto simp: grp_caps)
  next
    case (Some it)
    with capture_length [OF k1(2), of n] none less n show ?thesis
      by (cases it) (fastforce simp: grp_caps)
  qed
qed

text \<open>A group around an alternative of words captures one of the words.\<close>

definition word_rx :: "string \<Rightarrow> regex" where
  "word_rx w = cat_all (map (\<lambda>c. Class False [Lit c]) w)"

lemma word_matches: "(k', c') \<in> set (matches (word_rx w) k c) \<Longrightarrow> rest k = w @ rest k'"
  unfolding word_rx_def
proof (induction w arbitrary: k c)
  case (Cons x w)
  show ?case
  proof (cases w)
    case Nil
    with matches_ClassD [of k' c' False "[Lit x]" k c] Cons.prems show ?thesis
      by (auto simp: class_has_def)
  next
    case (Cons y v)
    with Cons.prems obtain k1 c1 where
      k1: "(k1, c1) \<in> set (matches (Class False [Lit x]) k c)"
      "(k', c') \<in> set (matches (cat_all (map (\<lambda>c. Class False [Lit c]) w)) k1 c1)"
      unfolding list.map cat_all.simps matches_Cat_iff by auto
    from matches_ClassD [OF k1(1)] Cons.IH [OF k1(2)] show ?thesis by (auto simp: class_has_def)
  qed
qed simp

lemma words_matches:
  "(k', c') \<in> set (matches (alt_all (map word_rx ws)) k c) \<Longrightarrow> \<exists>w \<in> set ws. rest k = w @ rest k'"
proof (induction ws rule: induct_list012)
  case (2 w)
  then show ?case using word_matches by auto
next
  case (3 v w ws)
  then show ?case using word_matches by auto
qed simp

text \<open>A group that takes part in every match.\<close>

fun mandatory :: "nat \<Rightarrow> regex \<Rightarrow> bool" where
  "mandatory n (Cat r s) = (mandatory n r \<or> mandatory n s)"
| "mandatory n (Alt r s) = (mandatory n r \<and> mandatory n s)"
| "mandatory n (Group i r) = (i = n \<or> mandatory n r)"
| "mandatory n r = False"

lemma captures_grow: "(k', c') \<in> set (matches r k c) \<Longrightarrow> \<exists>d. c' = d @ c"
  using matches_captures by (force simp: captures_ok_def)

lemma mandatory_captured:
  "mandatory n r \<Longrightarrow> (k', c') \<in> set (matches r k c) \<Longrightarrow> n \<in> fst ` set c'"
proof (induction r arbitrary: k c k' c' rule: mandatory.induct)
  case (1 n r s)
  from "1.prems"(2) obtain k1 c1 where
    m: "(k1, c1) \<in> set (matches r k c)" "(k', c') \<in> set (matches s k1 c1)" unfolding matches_Cat_iff by blast
  from "1.prems"(1) consider "mandatory n r" | "mandatory n s" by auto
  then show ?case
  proof cases
    case 1
    from "1.IH"(1) [OF this m(1)] captures_grow [OF m(2)] show ?thesis by auto
  next
    case 2
    from "1.IH"(2) [OF this m(2)] show ?thesis .
  qed
next
  case (3 n i r)
  from matches_GroupD [OF "3.prems"(2)] obtain w c0 where
    "c' = (i, pos k, w) # c0" "(k', c0) \<in> set (matches r k c)" by blast
  with 3 show ?case by auto
qed auto

lemma captured_word:
  assumes m: "match_at r k = Some m"
    and r: "\<And>r'. (n, r') \<in> set (groups_of r) \<Longrightarrow> r' = alt_all (map word_rx ws)" "mandatory n r" and n: "n \<noteq> 0"
  shows "grp m n \<in> set ws"
proof -
  from m obtain k' c where kc: "(k', c) \<in> set (matches r k [])" "m = mk_match k (k', c)"
    by (auto simp: match_at_def split: list.splits)
  from mandatory_captured [OF r(2) kc(1)] have "map_of c n \<noteq> None" by (simp add: map_of_eq_None_iff)
  then obtain i t where "map_of c n = Some (i, t)" by auto
  with kc(2) n have t: "group m n = Some t" by (simp add: group_def mk_match_def)
  from match_at_group [OF m t n] r(1) obtain k1 k2 c1 c2 where
    k: "(k2, c2) \<in> set (matches (alt_all (map word_rx ws)) k1 c1)" "rest k1 = t @ rest k2" by blast
  from words_matches [OF k(1)] k(2) t show ?thesis by (auto simp: grp_def)
qed

text \<open>What a successful search says of the subject.\<close>

lemma re_search_found:
  assumes "no_backref r" "reach (start_cursor s) k" "k \<in> Domain (rx_rel r)"
  shows "re_search r s \<noteq> None"
  using assms match_at_None_iff [OF assms(1)] unfolding re_search_def by (auto simp: search_from_None_iff)

lemma re_search_rel:
  assumes "no_backref r" "re_search r s = Some m"
  shows "\<exists>k k'. reach (start_cursor s) k \<and> reach k k' \<and> (k, k') \<in> rx_rel r \<and> m_end m = pos k'"
  using assms match_at_rel [OF assms(1)] unfolding re_search_def by (blast dest: search_from_SomeD)

text \<open>The parts of a pattern in sequence, without its groups.\<close>

fun ungroup :: "regex \<Rightarrow> regex" where
  "ungroup (Cat r s) = Cat (ungroup r) (ungroup s)"
| "ungroup (Alt r s) = Alt (ungroup r) (ungroup s)"
| "ungroup (Group n r) = ungroup r"
| "ungroup r = r"

fun parts :: "regex \<Rightarrow> regex list" where
  "parts (Cat r s) = parts r @ parts s"
| "parts r = [r]"

fun rel_seq :: "regex list \<Rightarrow> (cursor \<times> cursor) set" where
  "rel_seq [] = Id"
| "rel_seq (r # rs) = rx_rel r O rel_seq rs"

lemma rel_seq_append: "rel_seq (rs @ rs') = rel_seq rs O rel_seq rs'"
  by (induction rs) (simp_all add: O_assoc)

lemma parts_rel: "rx_rel r = rel_seq (parts (ungroup r))"
proof -
  have u: "rx_rel (ungroup r) = rx_rel r" by (induction r rule: ungroup.induct) simp_all
  have "rx_rel r' = rel_seq (parts r')" for r'
    by (induction r' rule: parts.induct) (simp_all add: rel_seq_append)
  with u show ?thesis by metis
qed

lemma ends_with_char:
  assumes "no_backref r" "(k, k') \<in> rx_rel r" "reach (start_cursor s) k" "reach k k'"
    and "parts (ungroup r) = rs @ [Class neg items]"
  shows "0 < pos k' \<and> pos k' \<le> length s \<and> class_has neg items (s ! (pos k' - 1))"
proof -
  from assms(2,5) obtain k1 where k1: "(k, k1) \<in> rel_seq rs" "(k1, k') \<in> char_rel (class_has neg items)"
    unfolding parts_rel [of r] by (auto simp: rel_seq_append)
  from char_rel_rest [OF k1(2)] obtain x where x: "rest k1 = x # rest k'" "class_has neg items x" by blast
  from k1(2) have a: "k' = advance k1" by (simp add: char_rel_def)
  from reach_start [OF reach_trans [OF assms(3,4)]] have
    k': "pos k' \<le> length s" "k' = cursor_at s (pos k')" by auto
  from x(1) have "pos (advance k1) = Suc (pos k1)" "prev (advance k1) = Some x" by (simp_all add: advance_def)
  with a have "pos k' = Suc (pos k1)" "prev k' = Some x" by simp_all
  moreover from k'(2) have "prev k' = (if pos k' = 0 then None else Some (s ! (pos k' - 1)))"
    by (metis cursor.select_convs(2) cursor_at_def)
  ultimately show ?thesis using k'(1) x(2) by simp
qed

lemma re_match_search: "re_match r s = Some m \<Longrightarrow> re_search r s = Some m"
  by (simp add: re_match_def re_search_def search_from.simps)

end
