(* ===== verification/Spacing.thy ===== *)
theory Spacing
  imports Check_Tools
begin

text \<open>
  Checks of spaces: blank lines, comments, operators, parentheses, commas, braces,
  sections of a class, calls of functions, and indentation inside a namespace.
\<close>

section \<open>Spaces around calls\<close>

definition CONTROL_PATTERNS :: "string list" where
  "CONTROL_PATTERNS = [raw ''`bif`s*`((.*)`)`s*{'', raw ''`bfor`s*`((.*)`)`s*{'',
     raw ''`bwhile`s*`((.*)`)`s*[{;]'', raw ''`bswitch`s*`((.*)`)`s*{'']"

text \<open>The text in which to look for calls: inside a control structure, or the whole line.\<close>

fun control_text :: "string list \<Rightarrow> string \<Rightarrow> string" where
  "control_text [] line = line"
| "control_text (pattern # ps) line =
     (case Search pattern line of Some m \<Rightarrow> grp m 1 | None \<Rightarrow> control_text ps line)"

definition CheckSpacingForFunctionCall :: "string \<Rightarrow> cleansed_lines \<Rightarrow> nat \<Rightarrow> effect list res" where
  "CheckSpacingForFunctionCall filename clean_lines linenum =
     bind_res (py_nth (cl_elided clean_lines) (int linenum)) (\<lambda>line.
       let fncall = control_text CONTROL_PATTERNS line;
           err = (\<lambda>confidence message. [ErrorCall filename (int linenum) ''whitespace/parens'' confidence message])
       in if \<not> found (Search (raw ''`b(if|for|while|switch|return|new|delete|catch|sizeof)`b'') fncall) \<and>
             \<not> found (Search (raw '' `([^)]+`)`([^)]*(`)|,$)'') fncall) \<and>
             \<not> found (Search (raw '' `([^)]+`)`[[^`]]+`]'') fncall)
          then Inr (
            (if found (Search (raw ''`w`s*`(`s(?!`s*``$)'') fncall)
             then err 4 ''Extra space after ( in function call''
             else if found (Search (raw ''`(`s+(?!(`s*``)|`()'') fncall)
             then err 2 ''Extra space after (''
             else []) @
            (if found (Search (raw ''`w`s+`('') fncall) \<and>
                \<not> found (Search (raw ''_{0,2}asm_{0,2}`s+_{0,2}volatile_{0,2}`s+`('') fncall) \<and>
                \<not> found (Search (raw ''#`s*define|typedef|using`s+`w+`s*='') fncall) \<and>
                \<not> found (Search (raw ''`w`s+`((`w+::)*`*`w+`)`('') fncall) \<and>
                \<not> found (Search (raw ''`bcase`s+`('') fncall)
             then (if found (Search (raw ''`boperator_*`b'') line)
                   then err 0 ''Extra space before ( in function call''
                   else err 4 ''Extra space before ( in function call'')
             else []) @
            (if found (Search (raw ''[^)]`s+`)`s*[^{`s]'') fncall)
             then (if found (Search (raw ''^`s+`)'') fncall)
                   then err 2 ''Closing ) should be moved to the previous line''
                   else err 2 ''Extra space before )'')
             else []))
          else Inr [])"

section \<open>Indentation inside a namespace\<close>

definition IsBlankLine :: "string \<Rightarrow> bool" where
  "IsBlankLine line \<longleftrightarrow> line = [] \<or> str_isspace line"

definition IsBlockInNameSpace :: "nesting_state \<Rightarrow> bool \<Rightarrow> bool" where
  "IsBlockInNameSpace st is_forward_declaration =
     (if is_forward_declaration then (case stack st of [] \<Rightarrow> False | b # _ \<Rightarrow> is_namespace b)
      else (case stack st of
          b # b' # _ \<Rightarrow> check_namespace_indentation b \<and> is_namespace b'
        | _ \<Rightarrow> False))"

definition ShouldCheckNamespaceIndentation ::
  "nesting_state \<Rightarrow> bool \<Rightarrow> string list \<Rightarrow> nat \<Rightarrow> bool res" where
  "ShouldCheckNamespaceIndentation st is_namespace_indent_item raw_lines_no_comments linenum =
     bind_res (IsForwardClassDeclaration raw_lines_no_comments linenum) (\<lambda>is_forward_declaration.
       if \<not> (is_namespace_indent_item \<or> is_forward_declaration) then Inr False
       else bind_res (IsMacroDefinition raw_lines_no_comments linenum) (\<lambda>is_macro.
         if is_macro then Inr False else Inr (IsBlockInNameSpace st is_forward_declaration)))"

definition CheckItemIndentationInNamespace :: "string \<Rightarrow> string list \<Rightarrow> nat \<Rightarrow> effect list res" where
  "CheckItemIndentationInNamespace filename raw_lines_no_comments linenum =
     bind_res (py_nth raw_lines_no_comments (int linenum)) (\<lambda>line.
       Inr (report (found (Match (raw ''^`s+'') line))
         (ErrorCall filename (int linenum) ''runtime/indentation_namespace'' 4
            ''Do not indent within a namespace'')))"

text \<open>The comparison of \<open>previous_stack_top\<close> with the second block is one of objects.\<close>

definition is_namespace_indent_item :: "nesting_state \<Rightarrow> bool" where
  "is_namespace_indent_item st =
     (case (stack st, previous_stack_top st) of
        (b # b' # _, Some p) \<Rightarrow>
          check_namespace_indentation b \<and> is_namespace p \<and> block_id p = block_id b'
      | _ \<Rightarrow> False)"

definition CheckForNamespaceIndentation ::
  "string \<Rightarrow> nesting_state \<Rightarrow> cleansed_lines \<Rightarrow> nat \<Rightarrow> effect list res" where
  "CheckForNamespaceIndentation filename st clean_lines line =
     bind_res (ShouldCheckNamespaceIndentation st (is_namespace_indent_item st)
                 (cl_elided clean_lines) line) (\<lambda>should.
       if should then CheckItemIndentationInNamespace filename (cl_elided clean_lines) line
       else Inr [])"

section \<open>Comments\<close>

definition RE_PATTERN_TODO :: string where
  "RE_PATTERN_TODO = raw ''^//(`s*)TODO(`(.+?`))?:?(`s|$)?''"

definition check_todo :: "string \<Rightarrow> nat \<Rightarrow> string \<Rightarrow> effect list" where
  \<open>check_todo filename linenum comment =
     (case re_match (rx RE_PATTERN_TODO) comment of
        None \<Rightarrow> []
      | Some m \<Rightarrow>
          report (1 < length (grp m 1))
            (ErrorCall filename (int linenum) ''whitespace/todo'' 2 ''Too many spaces before TODO'') @
          report (grp m 2 = [])
            (ErrorCall filename (int linenum) ''readability/todo'' 2
              (''Missing username in TODO; it should look like '' @
               ''"// TODO(my_username): Stuff."'')) @
          report (group m 3 \<noteq> Some '' '' \<and> group m 3 \<noteq> Some [])
            (ErrorCall filename (int linenum) ''whitespace/todo'' 2
              ''TODO(my_username) should be followed by a space''))\<close>

definition CheckComment :: "string \<Rightarrow> string \<Rightarrow> nat \<Rightarrow> nat \<Rightarrow> effect list" where
  "CheckComment line filename linenum next_line_start =
     (case str_find line ''//'' of
        None \<Rightarrow> []
      | Some commentpos \<Rightarrow>
          if even (str_count (re_sub (rx (raw ''``.'')) (\<lambda>_. []) (take commentpos line)) [dquote]) then
            (let comment = drop commentpos line
             in report (\<not> (found (Match ''^.*{ *//'' line) \<and> next_line_start = commentpos) \<and>
                        ((1 \<le> commentpos \<and> \<not> is_space (line ! (commentpos - 1))) \<or>
                         (2 \<le> commentpos \<and> \<not> is_space (line ! (commentpos - 2)))))
                  (ErrorCall filename (int linenum) ''whitespace/comments'' 2
                    ''At least two spaces is best between code and comments'') @
                check_todo filename linenum comment @
                report (found (Match (raw ''//[^ ]*`w'') comment) \<and>
                        \<not> found (Match (raw ''(///|//`!)(`s+|$)'') comment))
                  (ErrorCall filename (int linenum) ''whitespace/comments'' 4
                    ''Should have a space between // and comment''))
          else [])"

section \<open>Blank lines\<close>

text \<open>The loop over the lines of an initializer list that are indented by six spaces.\<close>

fun initializer_start :: "string list \<Rightarrow> nat \<Rightarrow> nat option" where
  "initializer_start elided 0 = None"
| "initializer_start elided (Suc i) =
     (if found (Match (raw '' {6}`w'') (elided ! i)) then initializer_start elided i else Some i)"

definition block_start_exception :: "string list \<Rightarrow> nat \<Rightarrow> string \<Rightarrow> bool" where
  "block_start_exception elided linenum prev_line =
     (if found (Match (raw '' {6}`w'') prev_line) then
        (case initializer_start elided (linenum - 1) of
           None \<Rightarrow> False
         | Some search_position \<Rightarrow> take 5 (elided ! search_position) = ''    :'')
      else found (Match (raw '' {4}`w[^`(]*`)`s*(const`s*)?(`{`s*$|:)'') prev_line) \<or>
           found (Match '' {4}:'' prev_line))"

definition check_blank_line :: "string \<Rightarrow> cleansed_lines \<Rightarrow> nat \<Rightarrow> effect list res" where
  \<open>check_blank_line filename clean_lines linenum =
     bind_res (py_nth (cl_elided clean_lines) (int linenum - 1)) (\<lambda>prev_line.
     bind_res (if linenum + 1 < NumLines clean_lines
               then bind_res (py_nth (cl_lines_without_raw_strings clean_lines) (int (linenum + 1)))
                      (\<lambda>next_line. Inr (Some next_line))
               else Inr None) (\<lambda>next.
       Inr (
         (case rfind_char (CHR ''{'') prev_line of
            None \<Rightarrow> []
          | Some prevbrace \<Rightarrow>
              report (CHR ''}'' \<notin> set (drop prevbrace prev_line) \<and>
                      \<not> block_start_exception (cl_elided clean_lines) linenum prev_line)
                (ErrorCall filename (int linenum) ''whitespace/blank_line'' 2
                  (''Redundant blank line at the start of a code block '' @
                   ''should be deleted.''))) @
         (case next of
            None \<Rightarrow> []
          | Some next_line \<Rightarrow>
              report (next_line \<noteq> [] \<and> found (Match (raw ''`s*}'') next_line) \<and>
                      str_find next_line ''} else '' = None)
                (ErrorCall filename (int linenum) ''whitespace/blank_line'' 3
                  (''Redundant blank line at the end of a code block '' @
                   ''should be deleted.''))) @
         (case Match (raw ''`s*(public|protected|private):'') prev_line of
            None \<Rightarrow> []
          | Some matched \<Rightarrow>
              [ErrorCall filename (int linenum) ''whitespace/blank_line'' 3
                 (''Do not leave a blank line after "'' @ grp matched 1 @ '':"'')]))))\<close>

definition CheckSpacing :: "string \<Rightarrow> cleansed_lines \<Rightarrow> nat \<Rightarrow> nesting_state \<Rightarrow> effect list res" where
  "CheckSpacing filename clean_lines linenum st =
     bind_res (py_nth (cl_lines_without_raw_strings clean_lines) (int linenum)) (\<lambda>raw_line.
       effects [
         if IsBlankLine raw_line \<and> \<not> InNamespaceBody st \<and> \<not> InExternC st
         then check_blank_line filename clean_lines linenum else Inr [],
         bind_res (if linenum + 1 < NumLines clean_lines
                   then bind_res (py_nth (cl_lines_without_raw_strings clean_lines) (int (linenum + 1)))
                          (\<lambda>next_line. Inr (length next_line - length (lstrip next_line)))
                   else Inr 0) (\<lambda>next_line_start.
           Inr (CheckComment raw_line filename linenum next_line_start)),
         bind_res (py_nth (cl_elided clean_lines) (int linenum)) (\<lambda>line.
           Inr (report (found (Search (raw ''`w`s+`['') line) \<and>
                        \<not> found (Search (raw ''(?:delete|return)`s+`['') line))
                  (ErrorCall filename (int linenum) ''whitespace/braces'' 5 ''Extra space before ['') @
                report (found (Search (raw ''for *`(.*[^:]:[^: ]'') line) \<or>
                        found (Search (raw ''for *`(.*[^: ]:[^:]'') line))
                  (ErrorCall filename (int linenum) ''whitespace/forcolon'' 2
                    ''Missing space around colon in range-based for loop'')))])"

section \<open>Operators\<close>

definition OPERATOR_MASK :: string where
  "OPERATOR_MASK = raw ''^(.*`boperator`b)(`S+)(`s*`(.*)$''"

lemma operator_mask_pattern:
  "rx OPERATOR_MASK =
     Cat Bol (Cat (Group 1 (Cat (Star True Dot) (Cat WordB (Cat (Class False [Lit CHR ''o''])
       (Cat (Class False [Lit CHR ''p'']) (Cat (Class False [Lit CHR ''e'']) (Cat (Class False [Lit CHR ''r''])
       (Cat (Class False [Lit CHR ''a'']) (Cat (Class False [Lit CHR ''t'']) (Cat (Class False [Lit CHR ''o''])
       (Cat (Class False [Lit CHR ''r'']) WordB)))))))))))
     (Cat (Group 2 (Cat (Class False [NotSpace]) (Star True (Class False [NotSpace]))))
     (Cat (Group 3 (Cat (Star True (Class False [Space])) (Cat (Class False [Lit CHR ''('']) (Star True Dot)))) Eol)))"
  by code_simp

lemma operator_mask_division:
  assumes "Match OPERATOR_MASK line = Some m"
  shows "\<exists>x xs y. line = grp m 1 @ (x # xs) @ grp m 3 @ y \<and> grp m 2 = x # xs \<and> \<not> is_word x \<and>
    (y = [] \<or> y = [CHR 0x0A])"
proof -
  from Match_SomeD [OF assms] obtain k0 c0 k1 c1 k2 c2 k3 c3 k4 r where
    k0: "(k0, c0) \<in> set (matches Bol (start_cursor line) [])"
    and g1: "(k1, c1) \<in> set (matches (Group 1 (Cat (Star True Dot) (Cat WordB (Cat (Class False [Lit CHR ''o''])
       (Cat (Class False [Lit CHR ''p'']) (Cat (Class False [Lit CHR ''e'']) (Cat (Class False [Lit CHR ''r''])
       (Cat (Class False [Lit CHR ''a'']) (Cat (Class False [Lit CHR ''t'']) (Cat (Class False [Lit CHR ''o''])
       (Cat (Class False [Lit CHR ''r'']) WordB))))))))))) k0 c0)"
    and g2: "(k2, c2) \<in> set (matches (Group 2 (Cat (Class False [NotSpace]) (Star True (Class False [NotSpace])))) k1 c1)"
    and g3: "(k3, c3) \<in> set (matches (Group 3 (Cat (Star True (Class False [Space]))
       (Cat (Class False [Lit CHR ''('']) (Star True Dot)))) k2 c2)"
    and e: "(k4, m_caps m) \<in> set (matches Eol k3 c3)"
    unfolding operator_mask_pattern matches_Cat_iff by blast
  from k0 e have same: "k0 = start_cursor line" "c0 = []" "m_caps m = c3"
    and eol: "rest k3 = [] \<or> rest k3 = [CHR 0x0A]" by (auto split: if_splits)
  from matches_group_plainD [OF _ g1] same obtain w1 where
    w1: "c1 = [(1, pos k0, w1)]" "rest k0 = w1 @ rest k1"
    and b: "(k1, []) \<in> set (matches (Cat (Star True Dot) (Cat WordB (Cat (Class False [Lit CHR ''o''])
       (Cat (Class False [Lit CHR ''p'']) (Cat (Class False [Lit CHR ''e'']) (Cat (Class False [Lit CHR ''r''])
       (Cat (Class False [Lit CHR ''a'']) (Cat (Class False [Lit CHR ''t'']) (Cat (Class False [Lit CHR ''o''])
       (Cat (Class False [Lit CHR ''r'']) WordB)))))))))) k0 c0)" by auto
  from b obtain j d j' d' where "(j', d') \<in> set (matches (Class False [Lit CHR ''r'']) j d)"
    "(k1, []) \<in> set (matches WordB j' d')" unfolding matches_Cat_iff by blast
  then have border: "\<not> at_word (next_char k1)"
    by (auto simp: one_char_def advance_def class_has_def at_word_def is_word_def is_lower_def code_def
        split: list.splits if_splits)
  from matches_group_plainD [OF _ g2] obtain w2 where
    w2: "c2 = (2, pos k1, w2) # c1" "rest k1 = w2 @ rest k2"
    and n: "(k2, c1) \<in> set (matches (Cat (Class False [NotSpace]) (Star True (Class False [NotSpace]))) k1 c1)"
    by auto
  from n obtain j d where s: "(j, d) \<in> set (matches (Class False [NotSpace]) k1 c1)"
    "(k2, c1) \<in> set (matches (Star True (Class False [NotSpace])) j d)" unfolding matches_Cat_iff by blast
  from matches_ClassD [OF s(1)] obtain x where x: "rest k1 = x # rest j" by auto
  from matches_plainD [OF _ s(2)] obtain xs where xs: "rest j = xs @ rest k2" by auto
  have w2x: "w2 = x # xs" using x xs w2(2) by simp
  from border x have nw: "\<not> is_word x" by (simp add: at_word_def next_char_def)
  from matches_group_plainD [OF _ g3] obtain w3 where
    w3: "c3 = (3, pos k2, w3) # c2" "rest k2 = w3 @ rest k3" by auto
  have g: "grp m 1 = w1" "grp m 2 = x # xs" "grp m 3 = w3"
    by (simp_all add: grp_caps same w1 w2 w3 w2x)
  have "line = grp m 1 @ (x # xs) @ grp m 3 @ rest k3"
    unfolding g using w1(2) w2(2) w3(2) same(1) by (simp add: w2x)
  with g nw eol show ?thesis by blast
qed

lemma mask_decreases:
  assumes "Match OPERATOR_MASK line = Some m"
  shows "length (filter (\<lambda>c. \<not> is_word c) (grp m 1 @ replicate (length (grp m 2)) CHR ''_'' @ grp m 3)) <
    length (filter (\<lambda>c. \<not> is_word c) line)"
proof -
  from operator_mask_division [OF assms] obtain x xs y where
    d: "line = grp m 1 @ (x # xs) @ grp m 3 @ y" "grp m 2 = x # xs" "\<not> is_word x" by blast
  have u: "filter (\<lambda>c. \<not> is_word c) (replicate k CHR ''_'') = []" for k by (simp add: filter_empty_conv is_word_def)
  show ?thesis unfolding d(2) arg_cong [OF d(1), of "\<lambda>s. length (filter (\<lambda>c. \<not> is_word c) s)"]
    filter_append u using d(3) by simp
qed

function (sequential) mask_operators :: "string \<Rightarrow> string" where
  "mask_operators line =
     (case Match OPERATOR_MASK line of
        Some m \<Rightarrow> mask_operators (grp m 1 @ replicate (length (grp m 2)) CHR ''_'' @ grp m 3)
      | None \<Rightarrow> line)"
  by pat_completeness auto
termination
  by (relation "measure (\<lambda>line. length (filter (\<lambda>c. \<not> is_word c) line))") (auto dest: mask_decreases)

declare mask_operators.simps [simp del]
definition CheckOperatorSpacing :: "string \<Rightarrow> cleansed_lines \<Rightarrow> nat \<Rightarrow> effect list res" where
  "CheckOperatorSpacing filename clean_lines linenum =
     bind_res (py_nth (cl_elided clean_lines) (int linenum)) (\<lambda>elided_line.
       let line = mask_operators elided_line;
           err = (\<lambda>confidence message. ErrorCall filename (int linenum) ''whitespace/operators'' confidence message)
       in effects [
         Inr (report ((found (Search (raw ''[`w.]='') line) \<or> found (Search (raw ''=[`w.]'') line)) \<and>
                      \<not> found (Search (raw ''`b(if|while|for) '') line) \<and>
                      \<not> found (Search (raw ''(>=|<=|==|!=|&=|`^=|`|=|`+=|`*=|`/=|`%=)'') line) \<and>
                      \<not> found (Search ''operator='' line))
                (err 4 ''Missing spaces around ='')),
         (case Search (raw ''[^<>=!`s](==|!=|<=|>=|`|`|)[^<>=!`s,;`)]'') line of
            Some m \<Rightarrow> Inr [err 3 (''Missing spaces around '' @ grp m 1)]
          | None \<Rightarrow>
              if found (Match ''#.*include'' line) then Inr []
              else effects [
                (case Match (raw ''^(.*[^`s<])<[^`s=<,]'') line of
                   None \<Rightarrow> Inr []
                 | Some m \<Rightarrow>
                     bind_res (CloseExpression (cl_elided clean_lines) linenum (length (grp m 1)))
                       (\<lambda>(_, _, end_pos). Inr (report (end_pos \<le> -1) (err 3 ''Missing spaces around <'')))),
                (case Match (raw ''^(.*[^-`s>])>[^`s=>,]'') line of
                   None \<Rightarrow> Inr []
                 | Some m \<Rightarrow>
                     bind_res (ReverseCloseExpression (cl_elided clean_lines) linenum (length (grp m 1)))
                       (\<lambda>(_, _, start_pos). Inr (report (start_pos \<le> -1) (err 3 ''Missing spaces around >''))))]),
         (case Search (raw ''(operator|[^`s(<])(?:L|UL|LL|ULL|l|ul|ll|ull)?<<([^`s,=<])'') line of
            None \<Rightarrow> Inr []
          | Some m \<Rightarrow>
              Inr (report (\<not> (str_isdigit (grp m 1) \<and> str_isdigit (grp m 2)) \<and>
                           \<not> (grp m 1 = ''operator'' \<and> grp m 2 = '';''))
                     (err 3 ''Missing spaces around <<''))),
         Inr (report (found (Search ''>>[a-zA-Z_]'' line)) (err 3 ''Missing spaces around >>'')),
         (case Search (raw ''(!`s|~`s|[`s]--[`s;]|[`s]`+`+[`s;])'') line of
            None \<Rightarrow> Inr []
          | Some m \<Rightarrow> Inr [err 4 (''Extra space for operator '' @ grp m 1)])])"

section \<open>Parentheses, commas, semicolons\<close>

definition CheckParenthesisSpacing :: "string \<Rightarrow> cleansed_lines \<Rightarrow> nat \<Rightarrow> effect list res" where
  "CheckParenthesisSpacing filename clean_lines linenum =
     bind_res (py_nth (cl_elided clean_lines) (int linenum)) (\<lambda>line.
       let err = (\<lambda>message. ErrorCall filename (int linenum) ''whitespace/parens'' 5 message)
       in Inr (
         (case Search (raw '' (if`(|for`(|while`(|switch`()'') line of
            None \<Rightarrow> []
          | Some m \<Rightarrow> [err (''Missing space before ( in '' @ grp m 1)]) @
         (case Search (raw (''`b(if|for|while|switch)`s*'' @ ''`(([ ]*)(.).*[^ ]+([ ]*)`)`s*{`s*$'')) line of
            None \<Rightarrow> []
          | Some m \<Rightarrow>
              report (length (grp m 2) \<noteq> length (grp m 4) \<and>
                      \<not> (grp m 3 = '';'' \<and> length (grp m 2) = 1 + length (grp m 4) \<or>
                         grp m 2 = [] \<and> found (Search (raw ''`bfor`s*`(.*; `)'') line)))
                (err (''Mismatching spaces inside () in '' @ grp m 1)) @
              report (length (grp m 2) \<notin> {0, 1})
                (err (''Should have zero or one spaces inside ( and ) in '' @ grp m 1)))))"

definition CheckCommaSpacing :: "string \<Rightarrow> cleansed_lines \<Rightarrow> nat \<Rightarrow> effect list res" where
  "CheckCommaSpacing filename clean_lines linenum =
     bind_res (py_nth (cl_elided clean_lines) (int linenum)) (\<lambda>line.
     bind_res (py_nth (cl_lines_without_raw_strings clean_lines) (int linenum)) (\<lambda>raw_line.
       Inr (report (found (Search (raw '',[^,`s]'')
                       (ReplaceAll (raw ''`boperator`s*,`s*`('') ''F('' line)) \<and>
                    found (Search (raw '',[^,`s]'') raw_line))
              (ErrorCall filename (int linenum) ''whitespace/comma'' 3 ''Missing space after ,'') @
            report (found (Search (raw '';[^`s};``)/]'') line))
              (ErrorCall filename (int linenum) ''whitespace/semicolon'' 3 ''Missing space after ;''))))"

section \<open>Braces\<close>

definition TYPES :: string where
  "TYPES = ''^(?:'' @ ''(char(16_t|32_t)?)|wchar_t|'' @
     ''bool|short|int|long|signed|unsigned|float|double|'' @
     ''(ptrdiff_t|size_t|max_align_t|nullptr_t)|'' @
     ''(u?int(_fast|_least)?(8|16|32|64)_t)|'' @ ''(u?int(max|ptr)_t)|'' @ '')$''"

text \<open>The search upward for a line with \<open>template\<close>, down to the start of the next block.\<close>

fun template_line :: "string list \<Rightarrow> nat \<Rightarrow> nat \<Rightarrow> nat option res" where
  "template_line elided next_block_start first_line =
     (if first_line < next_block_start then Inr None
      else bind_res (py_nth elided (int first_line)) (\<lambda>line.
        if str_find line ''template'' \<noteq> None then Inr (Some first_line)
        else if first_line = 0 then Inr None
        else template_line elided next_block_start (first_line - 1)))"

declare template_line.simps [simp del]

fun typename_blocks :: "string \<Rightarrow> string list \<Rightarrow> block list \<Rightarrow> bool res" where
  "typename_blocks typename_pattern elided [] = Inr False"
| "typename_blocks typename_pattern elided (b # bs) =
     (if is_namespace b then Inr False
      else
        (let last = starting_linenum b;
             next_block_start = (case bs of [] \<Rightarrow> 0 | b' # _ \<Rightarrow> starting_linenum b')
         in bind_res (template_line elided next_block_start last) (\<lambda>first_line.
              case first_line of
                None \<Rightarrow> typename_blocks typename_pattern elided bs
              | Some first \<Rightarrow>
                  bind_res (py_lines elided [first..<last + 1]) (\<lambda>lines.
                    if list_ex (\<lambda>l. found (Search typename_pattern l)) lines then Inr True
                    else typename_blocks typename_pattern elided bs))))"

definition IsType :: "cleansed_lines \<Rightarrow> nesting_state \<Rightarrow> string \<Rightarrow> bool res" where
  "IsType clean_lines st expr =
     (let token = (case Match (raw ''^.*(`b`S+)$'') expr of Some m \<Rightarrow> grp m 1 | None \<Rightarrow> expr)
      in if found (re_match (rx TYPES) token) then Inr True
         else typename_blocks (raw ''`b(?:typename|class|struct)`s+'' @ re_escape token @ raw ''`b'')
                (cl_elided clean_lines) (stack st))"

definition check_brace_space :: "string \<Rightarrow> cleansed_lines \<Rightarrow> nat \<Rightarrow> nesting_state \<Rightarrow> string \<Rightarrow> effect list res" where
  "check_brace_space filename clean_lines linenum st line =
     (case Match ''^(.*[^ ({>]){'' line of
        None \<Rightarrow> Inr []
      | Some m \<Rightarrow>
          bind_res (CloseExpression (cl_elided clean_lines) linenum (length (grp m 1)))
            (\<lambda>(endline, endlinenum, endpos).
          bind_res (py_lines (cl_elided clean_lines)
                     [endlinenum + 1..<min (endlinenum + 3) (NumLines clean_lines - 1)]) (\<lambda>following.
             let trailing_text = (if -1 < endpos then slice_from endline endpos else []) @ concat following
             in if found (Match (raw ''^[`s}]*[{.;,)<>`]:]'') trailing_text) then Inr []
                else bind_res (IsType clean_lines st (grp m 1)) (\<lambda>is_type.
                  Inr (report (\<not> is_type)
                    (ErrorCall filename (int linenum) ''whitespace/braces'' 5 ''Missing space before {''))))))"

definition CheckBracesSpacing :: "string \<Rightarrow> cleansed_lines \<Rightarrow> nat \<Rightarrow> nesting_state \<Rightarrow> effect list res" where
  "CheckBracesSpacing filename clean_lines linenum st =
     bind_res (py_nth (cl_elided clean_lines) (int linenum)) (\<lambda>line.
       let semicolon = (\<lambda>message. [ErrorCall filename (int linenum) ''whitespace/semicolon'' 5 message])
       in effects [
         check_brace_space filename clean_lines linenum st line,
         Inr (report (found (Search ''}else'' line))
                (ErrorCall filename (int linenum) ''whitespace/braces'' 5 ''Missing space before else'') @
              (if found (Search (raw '':`s*;`s*$'') line)
               then semicolon ''Semicolon defining empty statement. Use {} instead.''
               else if found (Search (raw ''^`s*;`s*$'') line)
               then semicolon (''Line contains only semicolon. If this should be an empty statement, '' @
                               ''use {} instead.'')
               else if found (Search (raw ''`s+;`s*$'') line) \<and> \<not> found (Search (raw ''`bfor`b'') line)
               then semicolon (''Extra space before last semicolon. If this should be an empty '' @
                               ''statement, use {} instead.'')
               else []))])"

definition IsDecltype :: "cleansed_lines \<Rightarrow> nat \<Rightarrow> nat \<Rightarrow> bool res" where
  "IsDecltype clean_lines linenum column =
     bind_res (ReverseCloseExpression (cl_elided clean_lines) linenum column) (\<lambda>(text, _, start_col).
       if start_col < 0 then Inr False
       else Inr (found (Search (raw ''`bdecltype`s*$'') (take (nat start_col) text))))"

section \<open>Sections of a class\<close>

definition CheckSectionSpacing :: "string \<Rightarrow> cleansed_lines \<Rightarrow> block \<Rightarrow> class_data \<Rightarrow> nat \<Rightarrow> effect list res" where
  \<open>CheckSectionSpacing filename clean_lines b class_info linenum =
     (if int (last_line class_info) - int (starting_linenum b) \<le> 24 \<or> linenum \<le> starting_linenum b then Inr []
      else bind_res (py_nth (cl_lines clean_lines) (int linenum)) (\<lambda>line.
        case Match (raw ''`s*(public|protected|private):'') line of
          None \<Rightarrow> Inr []
        | Some matched \<Rightarrow>
            bind_res (py_nth (cl_lines clean_lines) (int linenum - 1)) (\<lambda>prev_line.
              if \<not> IsBlankLine prev_line \<and>
                 \<not> found (Search (raw ''`b(class|struct)`b'') prev_line) \<and>
                 \<not> found (Search (raw ''``$'') prev_line)
              then bind_res (py_lines (cl_lines clean_lines) [starting_linenum b..<linenum]) (\<lambda>head.
                let end_class_head = (case first_index (\<lambda>l. found (Search (raw ''`{`s*$'') l)) head of
                      Some i \<Rightarrow> starting_linenum b + i | None \<Rightarrow> starting_linenum b)
                in Inr (report (int end_class_head < int linenum - 1)
                     (ErrorCall filename (int linenum) ''whitespace/blank_line'' 3
                       (''"'' @ grp matched 1 @ '':" should be preceded by a blank line''))))
              else Inr [])))\<close>

section \<open>The contract\<close>

lemma mask_length: "length (mask_operators line) \<le> length line"
proof (induction line rule: mask_operators.induct)
  case (1 line)
  show ?case
  proof (cases "Match OPERATOR_MASK line")
    case None
    then show ?thesis by (subst mask_operators.simps) simp
  next
    case (Some m)
    from operator_mask_division [OF Some] obtain x xs y where
      d: "line = grp m 1 @ (x # xs) @ grp m 3 @ y" "grp m 2 = x # xs" by blast
    have "length (grp m 1 @ replicate (length (grp m 2)) CHR ''_'' @ grp m 3) \<le> length line"
      using arg_cong [OF d(1), of length] d(2) by simp
    with "1.IH" [OF Some] Some show ?thesis by (subst mask_operators.simps) simp
  qed
qed

lemma CheckSpacingForFunctionCall_ok:
  assumes "cl_wf c" "n < NumLines c"
  shows "check_ok f (CheckSpacingForFunctionCall f c n)"
  unfolding CheckSpacingForFunctionCall_def cl_wf_nth [OF assms] bind_res_simps Let_def
  by simp

lemma CheckForNamespaceIndentation_ok:
  assumes "cl_wf c" "n < NumLines c"
  shows "check_ok f (CheckForNamespaceIndentation f st c n)"
proof -
  from py_nth_pred [OF cl_wf_lengths(1) [OF assms]] obtain l where
    l: "py_nth (cl_elided c) (int n - 1) = Inr l" by blast
  show ?thesis
    unfolding CheckForNamespaceIndentation_def ShouldCheckNamespaceIndentation_def
      IsForwardClassDeclaration_def IsMacroDefinition_def CheckItemIndentationInNamespace_def
      cl_wf_nth [OF assms] l bind_res_simps
    by simp
qed

lemma CheckComment_ok: "calls_ok f (CheckComment line f n s)"
  by (simp add: CheckComment_def check_todo_def Let_def split: option.splits)

lemma CheckSpacing_ok:
  assumes "cl_wf c" "n < NumLines c"
  shows "check_ok f (CheckSpacing f c n st)"
proof -
  from py_nth_pred [OF cl_wf_lengths(1) [OF assms]] obtain l where
    l: "py_nth (cl_elided c) (int n - 1) = Inr l" by blast
  have next_line: "py_nth (cl_lines_without_raw_strings c) (int (n + 1)) =
      Inr (cl_lines_without_raw_strings c ! (n + 1))" if "n + 1 < NumLines c"
    using cl_wf_nth(4) [OF assms(1) that] .
  have "check_ok f (check_blank_line f c n)"
    unfolding check_blank_line_def l bind_res_simps using next_line
    by (cases "n + 1 < NumLines c") (simp_all split: option.splits)
  then show ?thesis
    unfolding CheckSpacing_def cl_wf_nth [OF assms] bind_res_simps using next_line
    by (cases "n + 1 < NumLines c") (simp_all add: CheckComment_ok)
qed

lemma angle_patterns:
  "rx (raw ''^(.*[^`s<])<[^`s=<,]'') = Cat Bol (Cat (Group 1 (rx (raw ''.*[^`s<]'')))
     (Cat (Class False [Lit CHR ''<'']) (rx (raw ''[^`s=<,]''))))"
  "rx (raw ''^(.*[^-`s>])>[^`s=>,]'') = Cat Bol (Cat (Group 1 (rx (raw ''.*[^-`s>]'')))
     (Cat (Class False [Lit CHR ''>'']) (rx (raw ''[^`s=>,]''))))"
  "rx ''^(.*[^ ({>]){'' = Cat Bol (Cat (Group 1 (rx ''.*[^ ({>]'')) (Class False [Lit CHR ''{'']))"
  "groups_of (rx (raw ''.*[^`s<]'')) = []" "groups_of (rx (raw ''[^`s=<,]'')) = []"
  "groups_of (rx (raw ''.*[^-`s>]'')) = []" "groups_of (rx (raw ''[^`s=>,]'')) = []"
  "groups_of (rx ''.*[^ ({>]'') = []"
  by code_simp+

lemma CheckOperatorSpacing_ok:
  assumes "cl_wf c" "n < NumLines c"
  shows "check_ok f (CheckOperatorSpacing f c n)"
proof -
  let ?e = "cl_elided c ! n"
  let ?l = "mask_operators ?e"
  note n = cl_wf_lengths(1) [OF assms]
  have lt: "\<exists>r. CloseExpression (cl_elided c) n (length (grp m 1)) = Inr r"
    if "Match (raw ''^(.*[^`s<])<[^`s=<,]'') ?l = Some m" for m
  proof -
    from group_then_char [OF disjI1 [OF angle_patterns(1)] angle_patterns(4,5) that] obtain x v where
      "?l = grp m 1 @ x # v" by blast
    from arg_cong [OF this, of length] mask_length [of ?e]
    show ?thesis by (intro CloseExpression_returns [OF n]) simp
  qed
  have gt: "\<exists>r. ReverseCloseExpression (cl_elided c) n (length (grp m 1)) = Inr r"
    if "Match (raw ''^(.*[^-`s>])>[^`s=>,]'') ?l = Some m" for m
  proof -
    from group_then_char [OF disjI1 [OF angle_patterns(2)] angle_patterns(6,7) that] obtain x v where
      "?l = grp m 1 @ x # v" by blast
    from arg_cong [OF this, of length] mask_length [of ?e]
    show ?thesis using ReverseCloseExpression_returns [OF n, of "length (grp m 1)"] by auto
  qed
  show ?thesis
    unfolding CheckOperatorSpacing_def cl_wf_nth [OF assms] bind_res_simps Let_def
    by (auto split: option.splits dest!: lt gt)
qed

lemma CheckParenthesisSpacing_ok:
  assumes "cl_wf c" "n < NumLines c"
  shows "check_ok f (CheckParenthesisSpacing f c n)"
  unfolding CheckParenthesisSpacing_def cl_wf_nth [OF assms] bind_res_simps Let_def
  by (simp split: option.splits)

lemma CheckCommaSpacing_ok:
  assumes "cl_wf c" "n < NumLines c"
  shows "check_ok f (CheckCommaSpacing f c n)"
  unfolding CheckCommaSpacing_def cl_wf_nth [OF assms] bind_res_simps by simp

lemma template_line_returns:
  "i < length elided \<Longrightarrow> \<exists>r. template_line elided s i = Inr r \<and> (\<forall>j. r = Some j \<longrightarrow> j \<le> i)"
proof (induction elided s i rule: template_line.induct)
  case (1 elided s i)
  show ?case
  proof (cases "i < s \<or> str_find (elided ! i) ''template'' \<noteq> None \<or> i = 0")
    case True
    with "1.prems" show ?thesis by (subst template_line.simps) auto
  next
    case False
    with "1.IH" [of "elided ! i"] "1.prems" show ?thesis
      by (subst template_line.simps) fastforce
  qed
qed

lemma typename_blocks_returns:
  "list_all (\<lambda>b. starting_linenum b < length elided) bs \<Longrightarrow> \<exists>r. typename_blocks p elided bs = Inr r"
proof (induction p elided bs rule: typename_blocks.induct)
  case (2 p elided b bs)
  let ?s = "case bs of [] \<Rightarrow> 0 | b' # _ \<Rightarrow> starting_linenum b'"
  have b: "starting_linenum b < length elided" and bs: "list_all (\<lambda>b. starting_linenum b < length elided) bs"
    using "2.prems" by simp_all
  show ?case
  proof (cases "is_namespace b")
    case False
    from template_line_returns [OF b, of ?s] obtain r where
      r: "template_line elided ?s (starting_linenum b) = Inr r" by blast
    show ?thesis
    proof (cases r)
      case None
      with "2.IH"(1) [OF False refl refl r] bs r False show ?thesis by (simp add: Let_def)
    next
      case (Some j)
      have ls: "py_lines elided [j..<starting_linenum b + 1] = Inr (map ((!) elided) [j..<starting_linenum b + 1])"
        using b by (intro py_lines_nth) auto
      show ?thesis
        using "2.IH"(2) [OF False refl refl r Some ls] bs r False Some ls
        by (auto simp: Let_def simp del: upt_Suc)
    qed
  qed (rule exI [of _ False], simp)
qed (rule exI [of _ False], simp)

lemma IsType_returns: "cl_wf c \<Longrightarrow> stack_in c st \<Longrightarrow> \<exists>r. IsType c st e = Inr r"
  using typename_blocks_returns [of "cl_elided c" "stack st"]
  by (auto simp: IsType_def Let_def stack_in_def cl_wf_def NumLines_def)

lemma CheckBracesSpacing_ok:
  assumes "cl_wf c" "n < NumLines c" "stack_in c st"
  shows "check_ok f (CheckBracesSpacing f c n st)"
proof -
  let ?l = "cl_elided c ! n"
  note n = cl_wf_lengths(1) [OF assms(1,2)]
  have "check_ok f (check_brace_space f c n st ?l)"
  proof (cases "Match ''^(.*[^ ({>]){'' ?l")
    case (Some m)
    from group_then_char [OF disjI2 [OF angle_patterns(3)] angle_patterns(8), of Empty, simplified, OF Some]
    obtain x v where "?l = grp m 1 @ x # v" by auto
    from arg_cong [OF this, of length] have "length (grp m 1) < length ?l" by simp
    from CloseExpression_returns [OF n this] obtain el en ep where
      ce: "CloseExpression (cl_elided c) n (length (grp m 1)) = Inr (el, en, ep)" by auto
    have "py_lines (cl_elided c) [en + 1..<min (en + 3) (NumLines c - 1)] =
        Inr (map ((!) (cl_elided c)) [en + 1..<min (en + 3) (NumLines c - 1)])"
      using assms(1) by (intro py_lines_nth) (auto simp: cl_wf_def NumLines_def)
    moreover from IsType_returns [OF assms(1,3)] obtain b where "IsType c st (grp m 1) = Inr b" by blast
    ultimately show ?thesis
      unfolding check_brace_space_def Some option.case ce bind_res_simps prod.case by (simp add: Let_def)
  qed (simp add: check_brace_space_def)
  then show ?thesis
    unfolding CheckBracesSpacing_def cl_wf_nth [OF assms(1,2)] bind_res_simps Let_def by simp
qed

lemma CheckSectionSpacing_ok:
  assumes "cl_wf c" "n < NumLines c"
  shows "check_ok f (CheckSectionSpacing f c b d n)"
proof -
  from py_nth_pred [OF cl_wf_lengths(2) [OF assms]] obtain l where
    l: "py_nth (cl_lines c) (int n - 1) = Inr l" by blast
  have ls: "py_lines (cl_lines c) [starting_linenum b..<n] = Inr (map ((!) (cl_lines c)) [starting_linenum b..<n])"
    using cl_wf_lengths(2) [OF assms] by (intro py_lines_nth) auto
  show ?thesis
    unfolding CheckSectionSpacing_def cl_wf_nth [OF assms] l ls bind_res_simps Let_def
    by (simp split: option.splits)
qed

end
