(* ===== verification/Braces.thy ===== *)
theory Braces
  imports Spacing
begin

text \<open>
  Checks of braces and statements: misplaced braces, redundant semicolons, empty bodies,
  assertion macros, alternative tokens, and \<open>CheckStyle\<close>, which runs them.
\<close>

section \<open>Lines\<close>

text \<open>\<open>prev_nonblank elided i\<close>: the last line before \<open>i\<close> that is not blank.\<close>

fun prev_nonblank :: "string list \<Rightarrow> nat \<Rightarrow> (string \<times> int) res" where
  "prev_nonblank elided 0 = Inr ([], -1)"
| "prev_nonblank elided (Suc i) =
     bind_res (py_nth elided (int i)) (\<lambda>prevline.
       if \<not> IsBlankLine prevline then Inr (prevline, int i) else prev_nonblank elided i)"

definition GetPreviousNonBlankLine :: "cleansed_lines \<Rightarrow> nat \<Rightarrow> (string \<times> int) res" where
  "GetPreviousNonBlankLine clean_lines linenum = prev_nonblank (cl_elided clean_lines) linenum"

text \<open>
  Below code point 256 no character is wide or combining, and the composed normal form of a
  string is the string.
\<close>

definition GetLineWidth :: "string \<Rightarrow> int" where
  "GetLineWidth line = int (length line)"

section \<open>Braces\<close>

text \<open>The loop to the line that holds a semicolon after the position.\<close>

function semicolon_line :: "string list \<Rightarrow> nat \<Rightarrow> int \<Rightarrow> nat" where
  "semicolon_line elided endlinenum endpos =
     (if endlinenum < length elided \<and> CHR '';'' \<notin> set (slice_from (elided ! endlinenum) endpos)
      then semicolon_line elided (endlinenum + 1) 0 else endlinenum)"
  by pat_completeness auto
termination
  by (relation "measure (\<lambda>(elided, n, p). length elided - n)") auto

declare semicolon_line.simps [simp del]

definition LAMBDA_LINE :: string where
  "LAMBDA_LINE = raw ''^[^{};]*`[[^`[`]]*`][^{}]*`{[^{}]*`}`s*`)*[;,]`s*$''"

text \<open>A body without braces: one statement, whose semicolon ends its line.\<close>

definition check_single_statement ::
  "string \<Rightarrow> cleansed_lines \<Rightarrow> nat \<Rightarrow> string \<Rightarrow> bool \<Rightarrow> string \<times> nat \<times> int \<Rightarrow> effect list res" where
  "check_single_statement filename clean_lines linenum line is_if cond =
     (case cond of (endline, endlinenum, endpos) \<Rightarrow>
       let elided = cl_elided clean_lines;
           if_indent = GetIndentLevel line;
           err = (\<lambda>message. [ErrorCall filename (int linenum) ''readability/braces'' 4 message]);
           multiple = ''If/else bodies with multiple statements require braces''
       in bind_res (if found (Match (raw ''`s*$'') (slice_from endline endpos)) \<and> endlinenum + 1 < length elided
                    then bind_res (py_nth elided (int (endlinenum + 1)))
                           (\<lambda>next_line. Inr (found (Match (raw ''`s*{'') next_line)))
                    else Inr False) (\<lambda>brace_on_next.
          if found (Match (raw ''`s*{'') (slice_from endline endpos)) \<or> brace_on_next then Inr []
          else
            (let n = semicolon_line elided endlinenum endpos
             in if n < length elided then
                  (let l = elided ! n;
                       p = (case str_find l '';'' of Some i \<Rightarrow> int i | None \<Rightarrow> -1)
                   in if \<not> found (Match (raw '';[`s}]*(``?)$'') (slice_from l p))
                      then (if \<not> found (Match LAMBDA_LINE l) then Inr (err multiple) else Inr [])
                      else if n + 1 < length elided then
                        bind_res (py_nth elided (int (n + 1))) (\<lambda>next_line.
                          let next_indent = GetIndentLevel next_line
                          in if is_if \<and> found (Match (raw ''`s*else`b'') next_line) \<and> next_indent \<noteq> if_indent
                             then Inr (err (''Else clause should be indented at the same level as if. '' @
                                            ''Ambiguous nested if/else chains require braces.''))
                             else if if_indent < next_indent then Inr (err multiple)
                             else Inr [])
                      else Inr [])
                else Inr [])))"

definition check_if_else :: "string \<Rightarrow> cleansed_lines \<Rightarrow> nat \<Rightarrow> string \<Rightarrow> effect list res" where
  "check_if_else filename clean_lines linenum line =
     (case Search (raw ''`b(if`s*`(|else`b)'') line of
        None \<Rightarrow> Inr []
      | Some if_else_match \<Rightarrow>
          if found (Match (raw ''`s*#'') line) then Inr []
          else (case Search (raw ''`bif`s*`('') line of
              None \<Rightarrow> check_single_statement filename clean_lines linenum line False
                (line, linenum, int (m_end if_else_match))
            | Some if_match \<Rightarrow>
                bind_res (CloseExpression (cl_elided clean_lines) linenum (m_end if_match - 1))
                  (check_single_statement filename clean_lines linenum line True)))"

definition check_else_braces :: "string \<Rightarrow> cleansed_lines \<Rightarrow> nat \<Rightarrow> string \<Rightarrow> effect list res" where
  "check_else_braces filename clean_lines linenum line =
     (let err = ErrorCall filename (int linenum) ''readability/braces'' 5
            ''If an else has a brace on one side, it should have it on both''
      in if found (Search (raw ''else if`s*`('') line) then
           (let brace_on_left = found (Search (raw ''}`s*else if`s*`('') line);
                else_pos = (case str_find line ''else if'' of Some p \<Rightarrow> p | None \<Rightarrow> length line)
            in case str_find_from line ''('' else_pos of
                 None \<Rightarrow> Inr []
               | Some p \<Rightarrow>
                   if 0 < p then
                     bind_res (CloseExpression (cl_elided clean_lines) linenum p) (\<lambda>(endline, _, endpos).
                       Inr (report (brace_on_left \<noteq> (CHR ''{'' \<in> set (slice_from endline endpos))) err))
                   else Inr [])
         else Inr (report (found (Search (raw ''}`s*else[^{]*$'') line) \<or>
                           found (Match (raw ''[^}]*else`s*{'') line)) err))"

definition CheckBraces :: "int \<Rightarrow> string \<Rightarrow> cleansed_lines \<Rightarrow> nat \<Rightarrow> effect list res" where
  "CheckBraces line_length filename clean_lines linenum =
     bind_res (py_nth (cl_elided clean_lines) (int linenum)) (\<lambda>line.
       let err = (\<lambda>category message. ErrorCall filename (int linenum) category 4 message)
       in effects [
         if found (Match (raw ''`s*{`s*$'') line) then
           bind_res (GetPreviousNonBlankLine clean_lines linenum) (\<lambda>(prevline, _).
             Inr (report (\<not> found (Search (raw ''[,;:}{(]`s*$'') prevline) \<and>
                          \<not> found (Match (raw ''`s*#'') prevline) \<and>
                          \<not> (line_length - 2 < GetLineWidth prevline \<and> str_in ''[]'' prevline))
                    (err ''whitespace/braces'' ''{ should almost always be at the end of the previous line'')))
         else Inr [],
         if found (Match (raw ''`s*else`b`s*(?:if`b|`{|$)'') line) then
           bind_res (GetPreviousNonBlankLine clean_lines linenum) (\<lambda>(prevline, _).
             Inr (report (found (Match (raw ''`s*}`s*$'') prevline))
                    (err ''whitespace/newline'' ''An else should appear on the same line as the preceding }'')))
         else Inr [],
         check_else_braces filename clean_lines linenum line,
         Inr (report (found (Search (raw ''`belse [^`s{]'') line) \<and>
                      \<not> found (Search (raw ''`belse if`b'') line))
                (err ''whitespace/newline'' ''Else clause should never be on same line as else (use 2 lines)'') @
              report (found (Match (raw ''`s*do [^`s{]'') line))
                (err ''whitespace/newline'' ''do/while clauses should not be on a single line'')),
         check_if_else filename clean_lines linenum line])"

section \<open>Redundant semicolons\<close>

definition SAFE_MACROS :: "string list" where
  "SAFE_MACROS = [''TEST'', ''TEST_F'', ''MATCHER'', ''MATCHER_P'', ''TYPED_TEST'',
     ''EXCLUSIVE_LOCKS_REQUIRED'', ''SHARED_LOCKS_REQUIRED'', ''LOCKS_EXCLUDED'', ''INTERFACE_DEF'']"

text \<open>What stands before the parentheses tells that the braces are no block.\<close>

definition not_a_block :: "string \<Rightarrow> bool" where
  "not_a_block line_prefix \<longleftrightarrow>
     (case Search (raw ''`b([A-Z_][A-Z0-9_]*)`s*$'') line_prefix of
        Some macro \<Rightarrow> grp macro 1 \<notin> set SAFE_MACROS | None \<Rightarrow> False) \<or>
     (case Match (raw ''^(.*`])`s*$'') line_prefix of
        Some func \<Rightarrow> \<not> found (Search (raw ''`boperator`s*`[`s*`]'') (grp func 1)) | None \<Rightarrow> False) \<or>
     found (Search (raw ''`b(?:struct|union)`s+alignas`s*$'') line_prefix) \<or>
     found (Search (raw ''`bdecltype$'') line_prefix) \<or>
     found (Search (raw ''`s+=`s*$'') line_prefix)"

text \<open>The column of the opening brace of a block, if the line has one that is checked.\<close>

definition block_column :: "cleansed_lines \<Rightarrow> nat \<Rightarrow> string \<Rightarrow> nat option res" where
  "block_column clean_lines linenum line =
     (let elided = cl_elided clean_lines
      in case Match (raw ''^(.*`)`s*)`{'') line of
        Some m \<Rightarrow>
          bind_res (ReverseCloseExpression elided linenum
                     (case rfind_char (CHR '')'') (grp m 1) of Some p \<Rightarrow> p | None \<Rightarrow> 0))
            (\<lambda>(text, n, p).
               if -1 < p \<and> not_a_block (take (nat p) text) then Inr None
               else if 1 < n then
                 bind_res (py_nth elided (int (n - 1))) (\<lambda>before.
                   Inr (if found (Search (raw ''`]`s*$'') before) then None else Some (length (grp m 1))))
               else Inr (Some (length (grp m 1))))
      | None \<Rightarrow>
          (case Match (raw ''^(.*(?:else|`)`s*const)`s*)`{'') line of
             Some m \<Rightarrow> Inr (Some (length (grp m 1)))
           | None \<Rightarrow>
               bind_res (GetPreviousNonBlankLine clean_lines linenum) (\<lambda>(prevline, _).
                 if prevline \<noteq> [] \<and> found (Search (raw ''[;{}]`s*$'') prevline)
                 then Inr (map_option (\<lambda>m. length (grp m 1)) (Match (raw ''^(`s*)`{'') line))
                 else Inr None)))"

definition CheckTrailingSemicolon :: "string \<Rightarrow> cleansed_lines \<Rightarrow> nat \<Rightarrow> effect list res" where
  \<open>CheckTrailingSemicolon filename clean_lines linenum =
     bind_res (py_nth (cl_elided clean_lines) (int linenum)) (\<lambda>line.
     bind_res (block_column clean_lines linenum line) (\<lambda>column.
       case column of
         None \<Rightarrow> Inr []
       | Some col \<Rightarrow>
           bind_res (CloseExpression (cl_elided clean_lines) linenum col) (\<lambda>(endline, endlinenum, endpos).
             if -1 < endpos \<and> found (Match (raw ''^`s*;'') (slice_from endline endpos)) then
               bind_res (py_nth (cl_raw_lines clean_lines) (int endlinenum - 1)) (\<lambda>before.
               bind_res (py_nth (cl_raw_lines clean_lines) (int endlinenum)) (\<lambda>here.
                 Inr [NolintCall filename before (int endlinenum - 1),
                      NolintCall filename here (int endlinenum),
                      ErrorCall filename (int endlinenum) ''readability/braces'' 4
                        (''You don'' @ [squote] @ ''t need a ; after a }'')]))
             else Inr [])))\<close>

section \<open>Empty bodies\<close>

text \<open>The line with the brace that opens the body, or nothing when other text comes first.\<close>

function opening_brace :: "string list \<Rightarrow> nat \<Rightarrow> string \<Rightarrow> (nat \<times> string) option" where
  "opening_brace elided opening_linenum fragment =
     (if found (Search (raw ''^`s*`{'') fragment) then Some (opening_linenum, fragment)
      else if found (Search (raw ''^(?!`s*$)'') fragment) then None
      else if length elided \<le> opening_linenum + 1 then None
      else opening_brace elided (opening_linenum + 1) (elided ! (opening_linenum + 1)))"
  by pat_completeness auto
termination
  by (relation "measure (\<lambda>(elided, n, s). length elided - n)") auto

text \<open>No \<open>else\<close> before the next code or the end of the file.\<close>

function no_else :: "string list \<Rightarrow> nat \<Rightarrow> string \<Rightarrow> bool" where
  "no_else elided current_linenum fragment =
     (if found (Search (raw ''^`s*$|^(?=`s*else)'') fragment) then
        (if found (Search (raw ''^(?=`s*else)'') fragment) then False
         else if length elided \<le> current_linenum + 1 then True
         else no_else elided (current_linenum + 1) (elided ! (current_linenum + 1)))
      else True)"
  by pat_completeness auto
termination
  by (relation "measure (\<lambda>(elided, n, s). length elided - n)") auto

declare opening_brace.simps [simp del] no_else.simps [simp del]

definition EMPTY_CONDITIONAL_BODY_PATTERN :: string where
  "EMPTY_CONDITIONAL_BODY_PATTERN = raw ''^`s*$''"

text \<open>
  The text between the braces; the part on the opening line is taken character by character when the
  body has several lines.
\<close>

definition conditional_body :: "cleansed_lines \<Rightarrow> nat \<Rightarrow> nat \<Rightarrow> nat \<Rightarrow> int \<Rightarrow> string" where
  "conditional_body clean_lines opening_linenum opening_pos closing_linenum closing_pos =
     (let opening_line = cl_elided clean_lines ! opening_linenum
      in if opening_linenum < closing_linenum then
           str_join [CHR 0x0A] (
             map (\<lambda>c. [c]) (drop (opening_pos + 1) opening_line) @
             drop (opening_linenum + 1) (take closing_linenum (cl_raw_lines clean_lines)) @
             [slice_to (cl_elided clean_lines ! closing_linenum) (closing_pos - 1)])
         else drop (opening_pos + 1) (slice_to opening_line (closing_pos - 1)))"

definition check_empty_if :: "string \<Rightarrow> cleansed_lines \<Rightarrow> nat \<Rightarrow> string \<Rightarrow> int \<Rightarrow> effect list res" where
  "check_empty_if filename clean_lines end_linenum end_line end_pos =
     (let elided = cl_elided clean_lines
      in case opening_brace elided end_linenum (slice_from end_line end_pos) of
        None \<Rightarrow> Inr []
      | Some (opening_linenum, fragment) \<Rightarrow>
          (let brace = (case str_find fragment ''{'' of Some p \<Rightarrow> p | None \<Rightarrow> 0);
               opening_pos = (if opening_linenum = end_linenum then brace + nat end_pos else brace)
           in bind_res (CloseExpression elided opening_linenum opening_pos)
             (\<lambda>(closing_line, closing_linenum, closing_pos).
              if closing_pos < 0 then Inr []
              else bind_res (py_nth (cl_raw_lines clean_lines) (int opening_linenum)) (\<lambda>raw_opening.
                if raw_opening \<noteq> CleanseComments raw_opening then Inr []
                else if \<not> found (re_search (rx EMPTY_CONDITIONAL_BODY_PATTERN)
                       (conditional_body clean_lines opening_linenum opening_pos closing_linenum closing_pos))
                then Inr []
                else Inr (report (no_else elided closing_linenum (slice_from closing_line closing_pos))
                  (ErrorCall filename (int end_linenum) ''whitespace/empty_if_body'' 4
                    ''If statement had no body and no else clause''))))))"

definition CheckEmptyBlockBody :: "string \<Rightarrow> cleansed_lines \<Rightarrow> nat \<Rightarrow> effect list res" where
  "CheckEmptyBlockBody filename clean_lines linenum =
     bind_res (py_nth (cl_elided clean_lines) (int linenum)) (\<lambda>line.
       case Match (raw ''`s*(for|while|if)`s*`('') line of
         None \<Rightarrow> Inr []
       | Some matched \<Rightarrow>
           bind_res (CloseExpression (cl_elided clean_lines) linenum
                      (case str_find line ''('' of Some p \<Rightarrow> p | None \<Rightarrow> 0))
             (\<lambda>(end_line, end_linenum, end_pos).
                effects [
                  Inr (if 0 \<le> end_pos \<and> found (Match '';'' (slice_from end_line end_pos)) then
                         (if grp matched 1 = ''if''
                          then [ErrorCall filename (int end_linenum) ''whitespace/empty_conditional_body'' 5
                                 ''Empty conditional bodies should use {}'']
                          else [ErrorCall filename (int end_linenum) ''whitespace/empty_loop_body'' 5
                                 ''Empty loop bodies should use {} or continue''])
                       else []),
                  if 0 \<le> end_pos \<and> grp matched 1 = ''if''
                  then check_empty_if filename clean_lines end_linenum end_line end_pos
                  else Inr []]))"

section \<open>Assertion macros\<close>

definition CHECK_MACROS :: "string list" where
  "CHECK_MACROS = [''DCHECK'', ''CHECK'', ''EXPECT_TRUE'', ''ASSERT_TRUE'', ''EXPECT_FALSE'', ''ASSERT_FALSE'']"

definition OP_REPLACEMENT :: "(string \<times> string) list" where
  "OP_REPLACEMENT = [(''=='', ''EQ''), (''!='', ''NE''), (''>='', ''GE''), (''>'', ''GT''),
     (''<='', ''LE''), (''<'', ''LT'')]"

definition OP_INV_REPLACEMENT :: "(string \<times> string) list" where
  "OP_INV_REPLACEMENT = [(''=='', ''NE''), (''!='', ''EQ''), (''>='', ''LT''), (''>'', ''LE''),
     (''<='', ''GT''), (''<'', ''GE'')]"

text \<open>\<open>_CHECK_REPLACEMENT[check_macro][operator]\<close>\<close>

definition CHECK_REPLACEMENT :: "string \<Rightarrow> string \<Rightarrow> string option" where
  "CHECK_REPLACEMENT macro op =
     (if macro = ''DCHECK'' then map_option (\<lambda>r. ''DCHECK_'' @ r) (map_of OP_REPLACEMENT op)
      else if macro = ''CHECK'' then map_option (\<lambda>r. ''CHECK_'' @ r) (map_of OP_REPLACEMENT op)
      else if macro = ''EXPECT_TRUE'' then map_option (\<lambda>r. ''EXPECT_'' @ r) (map_of OP_REPLACEMENT op)
      else if macro = ''ASSERT_TRUE'' then map_option (\<lambda>r. ''ASSERT_'' @ r) (map_of OP_REPLACEMENT op)
      else if macro = ''EXPECT_FALSE'' then map_option (\<lambda>r. ''EXPECT_'' @ r) (map_of OP_INV_REPLACEMENT op)
      else if macro = ''ASSERT_FALSE'' then map_option (\<lambda>r. ''ASSERT_'' @ r) (map_of OP_INV_REPLACEMENT op)
      else None)"

fun find_macro :: "string list \<Rightarrow> string \<Rightarrow> (string \<times> nat) option" where
  "find_macro [] line = None"
| "find_macro (macro # ms) line =
     (if str_find line macro = None then find_macro ms line
      else (case Match (raw ''^(.*`b'' @ macro @ raw ''`s*)`('') line of
          None \<Rightarrow> find_macro ms line
        | Some matched \<Rightarrow> Some (macro, length (grp matched 1))))"

definition FindCheckMacro :: "string \<Rightarrow> (string \<times> nat) option" where
  "FindCheckMacro line = find_macro CHECK_MACROS line"

definition CHECK_TOKEN :: string where
  "CHECK_TOKEN = raw (''^`s*(<<|<<=|>>|>>=|->`*|->|&&|`|`||'' @ ''==|!=|>=|>|<=|<|`()(.*)$'')"

definition CHECK_OPERAND :: string where
  "CHECK_OPERAND = ''^([^-=!<>()&|]+)(.*)$''"

definition CHECK_CHARACTER :: string where
  "CHECK_CHARACTER = raw ''^(`s*`S)(.*)$''"

lemma check_patterns:
  "rx CHECK_TOKEN = Cat Bol (Cat (Star True (Class False [Space])) (Cat (Group 1 (rx (raw
     ''<<|<<=|>>|>>=|->`*|->|&&|`|`||==|!=|>=|>|<=|<|`('')))
     (Cat (Group 2 (Star True Dot)) Eol)))"
  "rx CHECK_OPERAND = Cat Bol (Cat (Group 1 (rx ''[^-=!<>()&|]+'')) (Cat (Group 2 (Star True Dot)) Eol))"
  "rx CHECK_CHARACTER = Cat Bol (Cat (Group 1 (rx (raw ''`s*`S''))) (Cat (Group 2 (Star True Dot)) Eol))"
  "consumes (rx (raw ''<<|<<=|>>|>>=|->`*|->|&&|`|`||==|!=|>=|>|<=|<|`(''))" "consumes (rx ''[^-=!<>()&|]+'')"
  "consumes (rx (raw ''`s*`S''))"
  "groups_of (rx (raw ''<<|<<=|>>|>>=|->`*|->|&&|`|`||==|!=|>=|>|<=|<|`('')) = []"
  "groups_of (rx ''[^-=!<>()&|]+'') = []" "groups_of (rx (raw ''`s*`S'')) = []"
  by code_simp+

lemma check_token_shorter: "Match CHECK_TOKEN s = Some m \<Longrightarrow> length (grp m 2) < length s"
  by (erule later_group_shorter, unfold check_patterns(1), erule matches_Cat_assoc)
    (simp_all add: check_patterns)

lemma check_operand_shorter: "Match CHECK_OPERAND s = Some m \<Longrightarrow> length (grp m 2) < length s"
  by (erule later_group_shorter, unfold check_patterns(2), erule matches_Cat_assoc)
    (simp_all add: check_patterns)

lemma check_character_shorter: "Match CHECK_CHARACTER s = Some m \<Longrightarrow> length (grp m 2) < length s"
  by (erule later_group_shorter, unfold check_patterns(3), erule matches_Cat_assoc)
    (simp_all add: check_patterns)

text \<open>The loop that splits the condition: \<open>None\<close> for the early returns.\<close>

function check_parse :: "string \<Rightarrow> string \<Rightarrow> (string \<times> string option \<times> string) option" where
  "check_parse lhs expression =
     (if expression = [] then Some (lhs, None, [])
      else case Match CHECK_TOKEN expression of
          Some m \<Rightarrow>
            if grp m 1 = ''('' then
              (case FindEndOfExpressionInLine (grp m 2) 0 ''('' of
                 Found e \<Rightarrow> check_parse (lhs @ ''('' @ take e (grp m 2)) (drop e (grp m 2))
               | _ \<Rightarrow> None)
            else if grp m 1 \<in> {''&&'', ''||''} then None
            else if grp m 1 \<in> {''<<'', ''<<='', ''>>'', ''>>='', ''->*'', ''->''}
            then check_parse (lhs @ grp m 1) (grp m 2)
            else Some (lhs, Some (grp m 1), grp m 2)
        | None \<Rightarrow>
            (case Match CHECK_OPERAND expression of
               Some m \<Rightarrow> check_parse (lhs @ grp m 1) (grp m 2)
             | None \<Rightarrow>
                 (case Match CHECK_CHARACTER expression of
                    Some m \<Rightarrow> check_parse (lhs @ grp m 1) (grp m 2)
                  | None \<Rightarrow> Some (lhs, None, []))))"
  by pat_completeness auto
termination
  by (relation "measure (\<lambda>(lhs, e). length e)")
    (auto dest!: check_token_shorter check_operand_shorter check_character_shorter)

declare check_parse.simps [simp del]

definition MATCH_CONSTANT :: string where
  \<open>MATCH_CONSTANT = raw ''^([-+]?(`d+|0[xX][0-9a-fA-F]+)[lLuU]{0,3}|".*"|`'.*`')$''\<close>

definition check_expression :: "string list \<Rightarrow> nat \<Rightarrow> nat \<Rightarrow> string \<Rightarrow> nat \<Rightarrow> int \<Rightarrow> string res" where
  "check_expression lines linenum start_pos endline end_line end_pos =
     bind_res (py_nth lines (int linenum)) (\<lambda>first.
       if linenum = end_line then Inr (drop (start_pos + 1) (slice_to first (end_pos - 1)))
       else bind_res (py_lines lines [linenum + 1..<end_line]) (\<lambda>between.
         Inr (drop (start_pos + 1) first @ concat between @ slice_to endline (end_pos - 1))))"

definition check_operands :: "string \<Rightarrow> nat \<Rightarrow> string \<Rightarrow> string \<Rightarrow> effect list res" where
  "check_operands filename linenum check_macro expression =
     (case check_parse [] expression of
        Some (lhs, Some operator, rhs) \<Rightarrow>
          if lhs = [] \<or> rhs = [] then Inr []
          else if str_find rhs ''&&'' \<noteq> None \<or> str_find rhs ''||'' \<noteq> None then Inr []
          else if found (Match MATCH_CONSTANT (strip lhs)) \<or> found (Match MATCH_CONSTANT (strip rhs)) then
            (case CHECK_REPLACEMENT check_macro operator of
               None \<Rightarrow> Inl KeyError
             | Some replacement \<Rightarrow>
                 Inr [ErrorCall filename (int linenum) ''readability/check'' 2
                   (''Consider using '' @ replacement @ '' instead of '' @ check_macro @
                    ''(a '' @ operator @ '' b)'')])
          else Inr []
      | _ \<Rightarrow> Inr [])"

definition CheckCheck :: "string \<Rightarrow> cleansed_lines \<Rightarrow> nat \<Rightarrow> effect list res" where
  "CheckCheck filename clean_lines linenum =
     (let lines = cl_elided clean_lines
      in bind_res (py_nth lines (int linenum)) (\<lambda>line.
        case FindCheckMacro line of
          None \<Rightarrow> Inr []
        | Some (check_macro, start_pos) \<Rightarrow>
            bind_res (CloseExpression lines linenum start_pos) (\<lambda>(endline, end_line, end_pos).
              if end_pos < 0 then Inr []
              else if \<not> found (Match (raw ''`s*;'') (slice_from endline end_pos)) then Inr []
              else bind_res (check_expression lines linenum start_pos endline end_line end_pos)
                (check_operands filename linenum check_macro))))"

section \<open>Alternative tokens\<close>

definition ALT_TOKEN_REPLACEMENT :: "(string \<times> string) list" where
  "ALT_TOKEN_REPLACEMENT = [(''and'', ''&&''), (''bitor'', ''|''), (''or'', ''||''), (''xor'', ''^''),
     (''compl'', ''~''), (''bitand'', ''&''), (''and_eq'', ''&=''), (''or_eq'', ''|=''),
     (''xor_eq'', ''^=''), (''not'', ''!''), (''not_eq'', ''!='')]"

text \<open>The order of the keys in the pattern does not matter: what follows a token must end it.\<close>

definition ALT_TOKEN_REPLACEMENT_PATTERN :: string where
  "ALT_TOKEN_REPLACEMENT_PATTERN =
     ''[ =()]('' @ str_join ''|'' (map fst ALT_TOKEN_REPLACEMENT) @ '')(?=[ (]|$)''"

fun alt_token_calls :: "string \<Rightarrow> nat \<Rightarrow> mobj list \<Rightarrow> effect list res" where
  "alt_token_calls filename linenum [] = Inr []"
| "alt_token_calls filename linenum (m # ms) =
     (case map_of ALT_TOKEN_REPLACEMENT (grp m 1) of
        None \<Rightarrow> Inl KeyError
      | Some token \<Rightarrow>
          effects [Inr [ErrorCall filename (int linenum) ''readability/alt_tokens'' 2
                     (''Use operator '' @ token @ '' instead of '' @ grp m 1)],
                   alt_token_calls filename linenum ms])"

definition CheckAltTokens :: "string \<Rightarrow> cleansed_lines \<Rightarrow> nat \<Rightarrow> effect list res" where
  "CheckAltTokens filename clean_lines linenum =
     bind_res (py_nth (cl_elided clean_lines) (int linenum)) (\<lambda>line.
       if found (Match (raw ''^`s*#'') line) then Inr []
       else if str_find line ''/*'' \<noteq> None \<or> str_find line ''*/'' \<noteq> None then Inr []
       else alt_token_calls filename linenum
              (finditer_from (rx ALT_TOKEN_REPLACEMENT_PATTERN) (start_cursor line)))"

section \<open>CheckStyle\<close>

definition guard_line :: "string \<Rightarrow> string \<Rightarrow> bool" where
  "guard_line cppvar line \<longleftrightarrow> startswith line (''#ifndef '' @ cppvar) \<or>
     startswith line (''#define '' @ cppvar) \<or> startswith line (''#endif  // '' @ cppvar)"

definition is_header_guard :: "lint_config \<Rightarrow> string \<Rightarrow> string \<Rightarrow> string \<Rightarrow> bool run" where
  "is_header_guard cfg filename file_extension line =
     (if IsHeaderExtension cfg file_extension then
        bind_run (GetHeaderGuardCPPVariable (cfg_env cfg) (cfg_root cfg) (cfg_root_debug cfg) filename)
          (\<lambda>cppvar. Some (Inr (guard_line cppvar line)))
      else Some (Inr False))"

definition check_indent :: "string \<Rightarrow> cleansed_lines \<Rightarrow> nat \<Rightarrow> string \<Rightarrow> effect list res" where
  \<open>check_indent filename clean_lines linenum line =
     bind_res (if 0 < linenum
               then py_nth (cl_lines_without_raw_strings clean_lines) (int linenum - 1)
               else Inr []) (\<lambda>previous.
     bind_res (py_nth (cl_elided clean_lines) (int linenum)) (\<lambda>cleansed_line.
     bind_res (py_nth (cl_raw_lines clean_lines) (int linenum)) (\<lambda>original.
       let initial_spaces = length (takeWhile (\<lambda>c. c = CHR '' '') line)
       in Inr (report (CHR 0x09 \<in> set line)
                 (ErrorCall filename (int linenum) ''whitespace/tab'' 1 ''Tab found; better to use spaces'') @
               report (\<not> found (Search (raw ''[",=><] *$'') previous) \<and>
                       (initial_spaces = 1 \<or> initial_spaces = 3) \<and>
                       \<not> found (Match (raw ''`s*`w+`s*:`s*``?$'') cleansed_line) \<and>
                       \<not> (original \<noteq> line \<and> found (Match (raw ''^`s*""'') line)))
                 (ErrorCall filename (int linenum) ''whitespace/indent'' 3
                   (''Weird number of spaces at line-start.  '' @ ''Are you using a 2-space indent?'')) @
               report (line \<noteq> [] \<and> is_uspace (last line))
                 (ErrorCall filename (int linenum) ''whitespace/end_of_line'' 4
                   ''Line ends in whitespace.  Consider deleting these extra spaces.'')))))\<close>

definition check_length :: "lint_config \<Rightarrow> string \<Rightarrow> nat \<Rightarrow> bool \<Rightarrow> string \<Rightarrow> effect list" where
  "check_length cfg filename linenum header_guard line =
     report (\<not> startswith line ''#include'' \<and> \<not> header_guard \<and>
             \<not> found (Match (raw ''^`s*//.*http(s?)://`S*$'') line) \<and>
             \<not> found (Match (raw ''^`s*//`s*[^`s]*$'') line) \<and>
             \<not> found (Match (raw ''^// `$Id:.*#[0-9]+ `$$'') line) \<and>
             cfg_line_length cfg < GetLineWidth line)
       (ErrorCall filename (int linenum) ''whitespace/line_length'' 2
         (''Lines should be <= '' @ show_int (cfg_line_length cfg) @ '' characters long''))"

definition check_one_command :: "string \<Rightarrow> cleansed_lines \<Rightarrow> nat \<Rightarrow> effect list res" where
  "check_one_command filename clean_lines linenum =
     bind_res (py_nth (cl_elided clean_lines) (int linenum)) (\<lambda>cleansed_line.
     bind_res (GetPreviousNonBlankLine clean_lines linenum) (\<lambda>(prevline, _).
       Inr (report (1 < str_count cleansed_line '';'' \<and>
                    str_find cleansed_line ''for'' = None \<and>
                    (str_find prevline ''for'' = None \<or> str_find prevline '';'' \<noteq> None) \<and>
                    \<not> ((str_find cleansed_line ''case '' \<noteq> None \<or> str_find cleansed_line ''default:'' \<noteq> None) \<and>
                       str_find cleansed_line ''break;'' \<noteq> None))
              (ErrorCall filename (int linenum) ''whitespace/newline'' 0
                ''More than one command on the same line''))))"

definition check_sections :: "string \<Rightarrow> cleansed_lines \<Rightarrow> nat \<Rightarrow> nesting_state \<Rightarrow> effect list res" where
  "check_sections filename clean_lines linenum st =
     (case InnermostClass st of
        None \<Rightarrow> Inr []
      | Some b \<Rightarrow>
          (case kind b of
             ClassBlock classinfo \<Rightarrow> CheckSectionSpacing filename clean_lines b classinfo linenum
           | _ \<Rightarrow> Inr []))"

definition CheckStyle ::
  "lint_config \<Rightarrow> string \<Rightarrow> cleansed_lines \<Rightarrow> nat \<Rightarrow> string \<Rightarrow> nesting_state \<Rightarrow> effect list run" where
  "CheckStyle cfg filename clean_lines linenum file_extension st =
     bind_run (Some (py_nth (cl_lines_without_raw_strings clean_lines) (int linenum))) (\<lambda>line.
     bind_run (Some (check_indent filename clean_lines linenum line)) (\<lambda>indent.
     bind_run (is_header_guard cfg filename file_extension line) (\<lambda>header_guard.
       Some (effects [
         Inr (indent @ check_length cfg filename linenum header_guard line),
         check_one_command filename clean_lines linenum,
         CheckBraces (cfg_line_length cfg) filename clean_lines linenum,
         CheckTrailingSemicolon filename clean_lines linenum,
         CheckEmptyBlockBody filename clean_lines linenum,
         CheckSpacing filename clean_lines linenum st,
         CheckOperatorSpacing filename clean_lines linenum,
         CheckParenthesisSpacing filename clean_lines linenum,
         CheckCommaSpacing filename clean_lines linenum,
         CheckBracesSpacing filename clean_lines linenum st,
         CheckSpacingForFunctionCall filename clean_lines linenum,
         CheckCheck filename clean_lines linenum,
         CheckAltTokens filename clean_lines linenum,
         check_sections filename clean_lines linenum st]))))"

section \<open>The contract\<close>

lemma prev_nonblank_spec:
  "i \<le> length elided \<Longrightarrow> \<exists>l j. prev_nonblank elided i = Inr (l, j) \<and>
     (j = -1 \<and> l = [] \<and> (\<forall>k < i. IsBlankLine (elided ! k)) \<or>
      0 \<le> j \<and> nat j < i \<and> l = elided ! nat j \<and> \<not> IsBlankLine l \<and> (\<forall>k. nat j < k \<and> k < i \<longrightarrow> IsBlankLine (elided ! k)))"
proof (induction elided i rule: prev_nonblank.induct)
  case (2 elided i)
  show ?case
  proof (cases "IsBlankLine (elided ! i)")
    case True
    from 2(1) [of "elided ! i"] 2(2) True obtain l j where
      p: "prev_nonblank elided i = Inr (l, j)"
      "j = -1 \<and> l = [] \<and> (\<forall>k < i. IsBlankLine (elided ! k)) \<or>
      0 \<le> j \<and> nat j < i \<and> l = elided ! nat j \<and> \<not> IsBlankLine l \<and> (\<forall>k. nat j < k \<and> k < i \<longrightarrow> IsBlankLine (elided ! k))"
      by auto
    with True 2(2) show ?thesis by (auto simp: less_Suc_eq)
  next
    case False
    with 2(2) show ?thesis by auto
  qed
qed simp

lemma GetPreviousNonBlankLine_returns:
  assumes "cl_wf c" "n < NumLines c"
  shows "\<exists>l j. GetPreviousNonBlankLine c n = Inr (l, j)"
  using prev_nonblank_spec [of n "cl_elided c"] cl_wf_lengths(1) [OF assms]
  by (auto simp: GetPreviousNonBlankLine_def)

lemma py_nth_Suc [simp]: "Suc i < length xs \<Longrightarrow> py_nth xs (1 + int i) = Inr (xs ! Suc i)"
  using py_nth_nat [of "Suc i" xs] by simp

lemma check_single_statement_ok: "check_ok f (check_single_statement f c n line b cond)"
proof -
  obtain el en ep where cond: "cond = (el, en, ep)" by (cases cond) auto
  show ?thesis
    unfolding check_single_statement_def cond prod.case Let_def
    by (cases "found (Match (raw ''`s*$'') (slice_from el ep)) \<and> en + 1 < length (cl_elided c)") simp_all
qed

lemma search_end:
  assumes "Search p s = Some m" "consumes (rx p)"
  shows "m_start m < m_end m \<and> m_end m \<le> length s"
proof -
  from search_from_SomeD [OF assms(1) [unfolded Search_def re_search_def]] obtain k1 where
    k1: "reach (start_cursor s) k1" "match_at (rx p) k1 = Some m" by blast
  from k1(2) obtain k2 c where k2: "(k2, c) \<in> set (matches (rx p) k1 [])" "m = mk_match k1 (k2, c)"
    by (auto simp: match_at_def split: list.splits)
  from consumes_shorter [OF assms(2) k2(1)] reach_pos [OF matches_reach [OF k2(1)]] reach_pos [OF k1(1)]
    reach_length [OF k1(1)] show ?thesis by (auto simp: k2(2) mk_match_def)
qed

lemma match_consumes:
  assumes "Match p s = Some m" "consumes (rx p)"
  shows "s \<noteq> []"
proof -
  from Match_SomeD [OF assms(1)] obtain k' where "(k', m_caps m) \<in> set (matches (rx p) (start_cursor s) [])" by blast
  from consumes_shorter [OF assms(2) this] show ?thesis by auto
qed

lemma brace_patterns:
  "consumes (rx (raw ''`bif`s*`(''))" "consumes (rx (raw ''`s*(for|while|if)`s*`(''))"
  "consumes (rx (raw ''^`s*`{''))"
  "rx (raw ''^(.*`)`s*)`{'') = Cat Bol (Cat (Group 1 (rx (raw ''.*`)`s*''))) (Class False [Lit CHR ''{'']))"
  "rx (raw ''^(.*(?:else|`)`s*const)`s*)`{'') =
     Cat Bol (Cat (Group 1 (rx (raw ''.*(?:else|`)`s*const)`s*''))) (Class False [Lit CHR ''{'']))"
  "rx (raw ''^(`s*)`{'') = Cat Bol (Cat (Group 1 (rx (raw ''`s*''))) (Class False [Lit CHR ''{'']))"
  "groups_of (rx (raw ''.*`)`s*'')) = []" "groups_of (rx (raw ''.*(?:else|`)`s*const)`s*'')) = []"
  "groups_of (rx (raw ''`s*'')) = []"
  by code_simp+

lemma check_if_else_ok:
  assumes "cl_wf c" "n < NumLines c"
  shows "check_ok f (check_if_else f c n (cl_elided c ! n))"
proof -
  let ?l = "cl_elided c ! n"
  have "\<exists>r. CloseExpression (cl_elided c) n (m_end m - 1) = Inr r" if "Search (raw ''`bif`s*`('') ?l = Some m" for m
    using search_end [OF that brace_patterns(1)]
    by (intro CloseExpression_returns cl_wf_lengths [OF assms]) auto
  then show ?thesis
    by (fastforce simp: check_if_else_def check_single_statement_ok split: option.splits)
qed

lemma check_else_braces_ok:
  assumes "cl_wf c" "n < NumLines c"
  shows "check_ok f (check_else_braces f c n (cl_elided c ! n))"
proof -
  let ?l = "cl_elided c ! n"
  have "\<exists>r. CloseExpression (cl_elided c) n q = Inr r" if "str_find_from ?l ''('' i = Some q" for i q
    using that str_find_bound [of "drop i ?l" "''(''"]
    by (intro CloseExpression_returns cl_wf_lengths [OF assms]) (auto simp: str_find_from_def split: if_splits)
  then show ?thesis
    by (fastforce simp: check_else_braces_def Let_def split: option.splits)
qed

lemma CheckBraces_ok:
  assumes "cl_wf c" "n < NumLines c"
  shows "check_ok f (CheckBraces w f c n)"
proof -
  from GetPreviousNonBlankLine_returns [OF assms] obtain l j where g: "GetPreviousNonBlankLine c n = Inr (l, j)" by blast
  show ?thesis
    unfolding CheckBraces_def cl_wf_nth [OF assms] bind_res_simps Let_def g prod.case
    by (simp add: check_if_else_ok [OF assms] check_else_braces_ok [OF assms])
qed

lemma block_column_returns:
  assumes "cl_wf c" "n < NumLines c"
  shows "\<exists>r. block_column c n (cl_elided c ! n) = Inr r \<and> (\<forall>col. r = Some col \<longrightarrow> col < length (cl_elided c ! n))"
proof -
  let ?l = "cl_elided c ! n"
  note n = cl_wf_lengths(1) [OF assms]
  have len: "length (grp m 1) < length ?l" if "?l = grp m 1 @ x # v" for m x v
    using arg_cong [OF that, of length] by simp
  show ?thesis
  proof (cases "Match (raw ''^(.*`)`s*)`{'') ?l")
    case (Some m)
    from group_then_char [OF disjI2 [OF brace_patterns(4)] brace_patterns(7) _ Some, of Empty] len
    have lt: "length (grp m 1) < length ?l" by auto
    let ?q = "case rfind_char (CHR '')'') (grp m 1) of Some p \<Rightarrow> p | None \<Rightarrow> 0"
    have "?q < length ?l" using lt
      by (auto simp: rfind_char_def split: option.splits)
    from ReverseCloseExpression_returns [OF n this] obtain t n' p where
      r: "ReverseCloseExpression (cl_elided c) n ?q = Inr (t, n', p)" "n' \<le> n" by blast
    have pn: "py_nth (cl_elided c) (int (n' - 1)) = Inr (cl_elided c ! (n' - 1))"
      using r(2) n by (intro py_nth_nat) simp
    show ?thesis using lt
      unfolding block_column_def Let_def Some option.case r(1) bind_res_simps prod.case pn by auto
  next
    case None
    show ?thesis
    proof (cases "Match (raw ''^(.*(?:else|`)`s*const)`s*)`{'') ?l")
      case (Some m)
      from group_then_char [OF disjI2 [OF brace_patterns(5)] brace_patterns(8) _ Some, of Empty] len
      have "length (grp m 1) < length ?l" by auto
      then show ?thesis unfolding block_column_def Let_def None Some option.case by simp
    next
      case no: None
      from GetPreviousNonBlankLine_returns [OF assms] obtain l j where g: "GetPreviousNonBlankLine c n = Inr (l, j)" by blast
      have "length (grp m 1) < length ?l" if "Match (raw ''^(`s*)`{'') ?l = Some m" for m
        using group_then_char [OF disjI2 [OF brace_patterns(6)] brace_patterns(9) _ that, of Empty] len by auto
      then show ?thesis
        unfolding block_column_def Let_def None no option.case g bind_res_simps prod.case by auto
    qed
  qed
qed

lemma CheckTrailingSemicolon_ok:
  assumes "cl_wf c" "n < NumLines c"
  shows "check_ok f (CheckTrailingSemicolon f c n)"
proof -
  from block_column_returns [OF assms] obtain r where
    r: "block_column c n (cl_elided c ! n) = Inr r" "\<And>col. r = Some col \<Longrightarrow> col < length (cl_elided c ! n)" by blast
  show ?thesis
  proof (cases r)
    case (Some col)
    from CloseExpression_returns [OF cl_wf_lengths(1) [OF assms] r(2) [OF Some]] obtain el en ep where
      ce: "CloseExpression (cl_elided c) n col = Inr (el, en, ep)" by auto
    have "en < length (cl_raw_lines c)" if "-1 < ep"
      using CloseExpression_progress [OF ce] that assms(1) by (auto simp: cl_wf_def)
    then show ?thesis
      unfolding CheckTrailingSemicolon_def cl_wf_nth [OF assms] bind_res_simps r(1) Some option.case ce prod.case
      using py_nth_pred [of en "cl_raw_lines c"] by auto
  qed (simp add: CheckTrailingSemicolon_def cl_wf_nth [OF assms] r(1))
qed

lemma opening_brace_position:
  "opening_brace elided n frag = Some (n', frag') \<Longrightarrow> n < length elided \<Longrightarrow>
   n' < length elided \<and> (n' = n \<and> frag' = frag \<or> n < n' \<and> frag' = elided ! n') \<and>
   found (Search (raw ''^`s*`{'') frag')"
proof (induction elided n frag rule: opening_brace.induct)
  case (1 elided n frag)
  show ?case
  proof (cases "found (Search (raw ''^`s*`{'') frag)")
    case True
    with "1.prems" show ?thesis by (subst (asm) opening_brace.simps) simp
  next
    case False
    with "1.prems"(1) have "\<not> found (Search (raw ''^(?!`s*$)'') frag)" "\<not> length elided \<le> n + 1"
      "opening_brace elided (n + 1) (elided ! (n + 1)) = Some (n', frag')"
      by (subst (asm) opening_brace.simps, simp split: if_splits)+
    with "1.IH" [OF False] show ?thesis by auto
  qed
qed

lemma check_empty_if_ok:
  assumes wf: "cl_wf c" and n: "n < NumLines c" and ep: "0 \<le> ep" "ep \<le> int (length (cl_elided c ! n))"
  shows "check_ok f (check_empty_if f c n (cl_elided c ! n) ep)"
proof -
  let ?e = "cl_elided c"
  note lens = cl_wf_lengths [OF wf]
  have main: "\<exists>r. CloseExpression ?e n' (if n' = n then b + nat ep else b) = Inr r \<and> n' < length (cl_raw_lines c)"
    if o: "opening_brace ?e n (slice_from (?e ! n) ep) = Some (n', frag)"
      and b: "b = (case str_find frag ''{'' of Some p \<Rightarrow> p | None \<Rightarrow> 0)" for n' frag b
  proof -
    from opening_brace_position [OF o lens(1) [OF n]] have
      p: "n' < length ?e" "n' = n \<and> frag = slice_from (?e ! n) ep \<or> n < n' \<and> frag = ?e ! n'"
      "found (Search (raw ''^`s*`{'') frag)" by auto
    from p(3) obtain m where "Search (raw ''^`s*`{'') frag = Some m" by auto
    from search_end [OF this brace_patterns(3)] have "0 < length frag" by auto
    moreover have "q < length frag" if "str_find frag ''{'' = Some q" for q
      using str_find_bound [OF that] by simp
    ultimately have bl: "b < length frag" by (auto simp: b split: option.splits)
    have "(if n' = n then b + nat ep else b) < length (?e ! n')"
      using p(2) bl ep by (auto simp: slice_from_def)
    from CloseExpression_returns [OF p(1) this] p(1) wf show ?thesis by (auto simp: cl_wf_def)
  qed
  show ?thesis
  proof (cases "opening_brace ?e n (slice_from (?e ! n) ep)")
    case (Some nf)
    obtain n' frag where nf: "nf = (n', frag)" by (cases nf)
    let ?b = "case str_find frag ''{'' of Some p \<Rightarrow> p | None \<Rightarrow> 0"
    from main [OF Some [unfolded nf] refl] obtain cl cn cp where
      ce: "CloseExpression ?e n' (if n' = n then ?b + nat ep else ?b) = Inr (cl, cn, cp)"
      and raw: "n' < length (cl_raw_lines c)" by auto
    show ?thesis
      unfolding check_empty_if_def Let_def Some nf option.case prod.case ce bind_res_simps py_nth_nat [OF raw]
      by simp
  qed (simp add: check_empty_if_def)
qed

lemma CheckEmptyBlockBody_ok:
  assumes "cl_wf c" "n < NumLines c"
  shows "check_ok f (CheckEmptyBlockBody f c n)"
proof (cases "Match (raw ''`s*(for|while|if)`s*`('') (cl_elided c ! n)")
  case (Some m)
  let ?l = "cl_elided c ! n"
  let ?q = "case str_find ?l ''('' of Some p \<Rightarrow> p | None \<Rightarrow> 0"
  from match_consumes [OF Some brace_patterns(2)] str_find_bound [of ?l "''(''"] have "?q < length ?l"
    by (auto split: option.splits)
  from CloseExpression_returns [OF cl_wf_lengths(1) [OF assms] this] obtain el en ep where
    ce: "CloseExpression (cl_elided c) n ?q = Inr (el, en, ep)" by auto
  have "check_ok f (check_empty_if f c en el ep)" if "0 \<le> ep"
  proof -
    from CloseExpression_progress [OF ce] that have
      p: "en < length (cl_elided c)" "el = cl_elided c ! en" "ep \<le> int (length el)" by auto
    with assms(1) that check_empty_if_ok [of c en ep f] show ?thesis by (simp add: cl_wf_def NumLines_def)
  qed
  then show ?thesis
    unfolding CheckEmptyBlockBody_def cl_wf_nth [OF assms] bind_res_simps Some option.case ce prod.case by simp
qed (simp add: CheckEmptyBlockBody_def cl_wf_nth [OF assms])

definition check_tokens :: "string list" where
  "check_tokens = [''<<'', ''<<='', ''>>'', ''>>='', ''->*'', ''->'', ''&&'', ''||'', ''=='', ''!='', ''>='', ''>'', ''<='', ''<'', ''('']"

lemma token_groups:
  "groups_of (rx CHECK_TOKEN) = [(1, alt_all (map word_rx check_tokens)), (2, Star True Dot)]"
  "groups_of (rx ALT_TOKEN_REPLACEMENT_PATTERN) = [(1, alt_all (map word_rx (map fst ALT_TOKEN_REPLACEMENT)))]"
  "mandatory 1 (rx CHECK_TOKEN)" "mandatory 1 (rx ALT_TOKEN_REPLACEMENT_PATTERN)"
  by code_simp+

lemma check_token_word: "Match CHECK_TOKEN s = Some m \<Longrightarrow> grp m 1 \<in> set check_tokens"
  unfolding Match_def re_match_def
  by (erule captured_word) (auto simp: token_groups simp del: One_nat_def)

lemma check_parse_operator:
  "check_parse lhs e = Some (l, Some op, r) \<Longrightarrow> op \<in> set (map fst OP_REPLACEMENT)"
proof (induction lhs e rule: check_parse.induct)
  case (1 lhs e)
  note run = "1.prems" [unfolded check_parse.simps [of lhs e]]
  show ?case
  proof (cases "Match CHECK_TOKEN e")
    case (Some m)
    from check_token_word [OF Some] have t: "grp m 1 \<in> set check_tokens" .
    show ?thesis
    proof (cases "grp m 1 = ''(''")
      case True
      with run Some "1.IH"(3) [OF _ Some True] show ?thesis by (auto split: if_splits scan.splits)
    next
      case False
      with run Some t "1.IH"(4) [OF _ Some False] show ?thesis
        by (auto simp: check_tokens_def OP_REPLACEMENT_def split: if_splits)
    qed
  next
    case None
    with run "1.IH"(1,2) [OF _ None] show ?thesis by (auto split: if_splits option.splits)
  qed
qed

lemma check_replacement_total:
  assumes "macro \<in> set CHECK_MACROS" "op \<in> set (map fst OP_REPLACEMENT)"
  shows "CHECK_REPLACEMENT macro op \<noteq> None"
proof -
  have "list_all (\<lambda>macro. list_all (\<lambda>op. CHECK_REPLACEMENT macro op \<noteq> None) (map fst OP_REPLACEMENT)) CHECK_MACROS"
    by code_simp
  with assms show ?thesis unfolding list_all_iff by blast
qed

lemma macro_pattern:
  "macro \<in> set CHECK_MACROS \<Longrightarrow>
     rx (raw ''^(.*`b'' @ macro @ raw ''`s*)`('') =
       Cat Bol (Cat (Group 1 (rx (raw ''.*`b'' @ macro @ raw ''`s*''))) (Class False [Lit CHR ''(''])) \<and>
     groups_of (rx (raw ''.*`b'' @ macro @ raw ''`s*'')) = []"
proof -
  have "list_all (\<lambda>macro. rx (raw ''^(.*`b'' @ macro @ raw ''`s*)`('') =
       Cat Bol (Cat (Group 1 (rx (raw ''.*`b'' @ macro @ raw ''`s*''))) (Class False [Lit CHR ''(''])) \<and>
     groups_of (rx (raw ''.*`b'' @ macro @ raw ''`s*'')) = []) CHECK_MACROS" by code_simp
  then show "macro \<in> set CHECK_MACROS \<Longrightarrow> ?thesis" by (simp add: list_all_iff)
qed

lemma find_macro_position:
  "find_macro ms line = Some (macro, col) \<Longrightarrow> set ms \<subseteq> set CHECK_MACROS \<Longrightarrow>
   macro \<in> set CHECK_MACROS \<and> col < length line"
proof (induction ms line rule: find_macro.induct)
  case (2 macro' ms line)
  show ?case
  proof (cases "str_find line macro' = None \<or> Match (raw ''^(.*`b'' @ macro' @ raw ''`s*)`('') line = None")
    case True
    with 2 show ?thesis by (auto split: option.splits)
  next
    case False
    then obtain m where m: "Match (raw ''^(.*`b'' @ macro' @ raw ''`s*)`('') line = Some m" by auto
    with False "2.prems" have e: "macro = macro'" "col = length (grp m 1)" "macro' \<in> set CHECK_MACROS" by auto
    note p = macro_pattern [OF e(3)]
    from group_then_char [OF disjI2 [OF conjunct1 [OF p]] conjunct2 [OF p] _ m, of Empty] obtain x v where
      "line = grp m 1 @ x # v" by auto
    from arg_cong [OF this, of length] e show ?thesis by simp
  qed
qed simp

lemma check_operands_ok:
  assumes "macro \<in> set CHECK_MACROS"
  shows "check_ok f (check_operands f n macro e)"
proof (cases "\<exists>l op r. check_parse [] e = Some (l, Some op, r)")
  case True
  then obtain l op r where p: "check_parse [] e = Some (l, Some op, r)" by blast
  from check_replacement_total [OF assms check_parse_operator [OF p]] obtain rep where
    "CHECK_REPLACEMENT macro op = Some rep" by blast
  then show ?thesis by (simp add: check_operands_def p)
next
  case False
  then show ?thesis by (auto simp: check_operands_def split: option.splits)
qed

lemma CheckCheck_ok:
  assumes "cl_wf c" "n < NumLines c"
  shows "check_ok f (CheckCheck f c n)"
proof (cases "FindCheckMacro (cl_elided c ! n)")
  case (Some mc)
  obtain macro col where mc: "mc = (macro, col)" by (cases mc)
  from find_macro_position [of CHECK_MACROS "cl_elided c ! n" macro col] Some mc
  have m: "macro \<in> set CHECK_MACROS" "col < length (cl_elided c ! n)" by (simp_all add: FindCheckMacro_def)
  from CloseExpression_returns [OF cl_wf_lengths(1) [OF assms] m(2)] obtain el en ep where
    ce: "CloseExpression (cl_elided c) n col = Inr (el, en, ep)" by auto
  have "\<exists>e. check_expression (cl_elided c) n col el en ep = Inr e" if "0 \<le> ep"
  proof -
    from CloseExpression_progress [OF ce] that have "en < length (cl_elided c)" by auto
    then have "py_lines (cl_elided c) [n + 1..<en] = Inr (map ((!) (cl_elided c)) [n + 1..<en])"
      by (intro py_lines_nth) auto
    then show ?thesis using cl_wf_lengths(1) [OF assms] by (simp add: check_expression_def)
  qed
  then show ?thesis
    unfolding CheckCheck_def Let_def cl_wf_nth [OF assms] bind_res_simps Some mc option.case prod.case ce
    using check_operands_ok [OF m(1)] by (auto simp: not_less)
qed (simp add: CheckCheck_def cl_wf_nth [OF assms])

lemma alt_token_calls_ok:
  "\<forall>m \<in> set ms. grp m 1 \<in> set (map fst ALT_TOKEN_REPLACEMENT) \<Longrightarrow> check_ok f (alt_token_calls f n ms)"
proof (induction f n ms rule: alt_token_calls.induct)
  case (2 f n m ms)
  then have "map_of ALT_TOKEN_REPLACEMENT (grp m 1) \<noteq> None" by (simp add: map_of_eq_None_iff)
  with 2 show ?case by (auto split: option.splits)
qed simp

lemma CheckAltTokens_ok:
  assumes "cl_wf c" "n < NumLines c"
  shows "check_ok f (CheckAltTokens f c n)"
proof -
  have "grp m 1 \<in> set (map fst ALT_TOKEN_REPLACEMENT)"
    if "m \<in> set (finditer_from (rx ALT_TOKEN_REPLACEMENT_PATTERN) k)" for m k
    using finditer_word [OF that] by (elim exE, elim captured_word) (auto simp: token_groups simp del: One_nat_def)
  then have "check_ok f (alt_token_calls f n (finditer_from (rx ALT_TOKEN_REPLACEMENT_PATTERN) k))" for k
    by (intro alt_token_calls_ok) blast
  then show ?thesis unfolding CheckAltTokens_def cl_wf_nth [OF assms] bind_res_simps by simp
qed

definition guard_defined :: "lint_config \<Rightarrow> string \<Rightarrow> bool" where
  "guard_defined cfg filename \<longleftrightarrow> (\<exists>v. GetHeaderGuardCPPVariable (cfg_env cfg) (cfg_root cfg)
     (cfg_root_debug cfg) filename = Some (Inr v))"

lemma check_indent_ok:
  assumes "cl_wf c" "n < NumLines c"
  shows "\<exists>es. check_indent f c n line = Inr es \<and> calls_ok f es"
proof -
  from py_nth_pred [OF cl_wf_lengths(4) [OF assms]] obtain l where
    l: "py_nth (cl_lines_without_raw_strings c) (int n - 1) = Inr l" by blast
  have "check_ok f (check_indent f c n line)"
    unfolding check_indent_def cl_wf_nth [OF assms] l by (cases "0 < n") (simp_all add: Let_def)
  then show ?thesis by (simp add: check_ok_def)
qed

lemma check_one_command_ok:
  assumes "cl_wf c" "n < NumLines c"
  shows "check_ok f (check_one_command f c n)"
proof -
  from GetPreviousNonBlankLine_returns [OF assms] obtain l j where g: "GetPreviousNonBlankLine c n = Inr (l, j)" by blast
  show ?thesis unfolding check_one_command_def cl_wf_nth [OF assms] bind_res_simps g prod.case by simp
qed

lemma check_sections_ok:
  assumes "cl_wf c" "n < NumLines c"
  shows "check_ok f (check_sections f c n st)"
  using CheckSectionSpacing_ok [OF assms]
  by (simp add: check_sections_def split: option.splits block_kind.splits)

lemmas style_checks_ok = CheckBraces_ok CheckTrailingSemicolon_ok CheckEmptyBlockBody_ok CheckSpacing_ok
  CheckOperatorSpacing_ok CheckParenthesisSpacing_ok CheckCommaSpacing_ok CheckSpacingForFunctionCall_ok
  CheckCheck_ok CheckAltTokens_ok check_one_command_ok check_sections_ok

lemma CheckStyle_ok:
  assumes "cl_wf c" "n < NumLines c" "stack_in c st" "guard_defined cfg f"
  shows "run_ok f (CheckStyle cfg f c n ext st)"
proof -
  let ?l = "cl_lines_without_raw_strings c ! n"
  from check_indent_ok [OF assms(1,2)] obtain es where
    i: "check_indent f c n ?l = Inr es" "calls_ok f es" by blast
  from assms(4) obtain g where g: "is_header_guard cfg f ext ?l = Some (Inr g)"
    by (cases "IsHeaderExtension cfg ext") (auto simp: is_header_guard_def guard_defined_def)
  show ?thesis
    unfolding CheckStyle_def cl_wf_nth [OF assms(1,2)] bind_run_simps i(1) g run_ok_Some check_ok_effects
    using i(2) by (simp add: style_checks_ok [OF assms(1,2)] CheckBracesSpacing_ok [OF assms(1,2,3)] check_length_def)
qed

end
