(* ===== verification/Class_Checks.thy ===== *)
theory Class_Checks
  imports Check_Tools
begin

text \<open>
  \<open>CheckForNonStandardConstructs\<close>: constructs that older compilers accept, and constructors
  of one argument that are not marked explicit.
\<close>

section \<open>Arguments of a constructor\<close>

definition open_argument :: "string \<Rightarrow> bool" where
  "open_argument arg \<longleftrightarrow> str_count arg ''>'' < str_count arg ''<'' \<or> str_count arg '')'' < str_count arg ''(''"

text \<open>
  The inner loop: append the following arguments until the brackets are closed. Without a
  following argument \<open>constructor_args[i + 1]\<close> raises.
\<close>

fun collapse_arg :: "string \<Rightarrow> string list \<Rightarrow> (string \<times> string list) res" where
  "collapse_arg arg rest_args =
     (if open_argument arg then
        (case rest_args of
           [] \<Rightarrow> Inl IndexError
         | a # as \<Rightarrow> collapse_arg (arg @ '','' @ a) as)
      else Inr (arg, rest_args))"

declare collapse_arg.simps [simp del]

lemma collapse_arg_length: "collapse_arg arg as = Inr (arg', as') \<Longrightarrow> length as' \<le> length as"
proof (induction arg as rule: collapse_arg.induct)
  case (1 arg as)
  then show ?case
    by (subst (asm) (2) collapse_arg.simps) (fastforce split: if_splits list.splits)
qed

function collapse_args :: "string list \<Rightarrow> string list res" where
  "collapse_args [] = Inr []"
| "collapse_args (arg # as) =
     bind_res (collapse_arg arg as) (\<lambda>(arg', as').
       bind_res (collapse_args as') (\<lambda>rest_args. Inr (arg' # rest_args)))"
  by pat_completeness auto
termination
  by (relation "measure length") (auto dest: collapse_arg_length)

section \<open>Explicit constructors\<close>

definition CONSTRUCTOR :: "string \<Rightarrow> string" where
  "CONSTRUCTOR base_classname =
     raw (''`s+(?:(?:inline|constexpr)`s+)*(explicit`s+)?'' @ ''(?:(?:inline|constexpr)`s+)*'') @
     re_escape base_classname @ raw (''`s*'' @ ''`(((?:[^()]|`([^()]*`))*)`)'')"

definition COPY_ARGUMENT :: "string \<Rightarrow> string" where
  "COPY_ARGUMENT base_classname =
     raw ''(const`s+)?'' @ re_escape base_classname @
     raw ''(`s*<[^>]*>)?(`s+const)?`s*(?:<`w+>`s*)?&''"

definition check_constructor :: "string \<Rightarrow> nat \<Rightarrow> string \<Rightarrow> string \<Rightarrow> effect list res" where
  "check_constructor filename linenum base_classname line =
     (case Match (CONSTRUCTOR base_classname) line of
        None \<Rightarrow> Inr []
      | Some m \<Rightarrow>
          (let is_marked_explicit = (grp m 1 \<noteq> [])
           in bind_res (collapse_args (if grp m 2 = [] then [] else split_on (CHR '','') (grp m 2)))
             (\<lambda>constructor_args.
              let defaulted_args = filter (\<lambda>arg. CHR ''='' \<in> set arg) constructor_args;
                  n = length constructor_args;
                  noarg_constructor = (n = 0 \<or> (n = 1 \<and> strip (hd constructor_args) = ''void''));
                  onearg_constructor = ((n = 1 \<and> \<not> noarg_constructor) \<or>
                    (1 \<le> n \<and> \<not> noarg_constructor \<and> n \<le> length defaulted_args + 1));
                  initializer_list_constructor = (onearg_constructor \<and>
                    found (Search (raw ''`bstd`s*::`s*initializer_list`b'') (hd constructor_args)));
                  copy_constructor = (onearg_constructor \<and>
                    found (Match (COPY_ARGUMENT base_classname) (strip (hd constructor_args))));
                  err = (\<lambda>message. [ErrorCall filename (int linenum) ''runtime/explicit'' 5 message])
              in if \<not> is_marked_explicit \<and> onearg_constructor \<and>
                    \<not> initializer_list_constructor \<and> \<not> copy_constructor
                 then (if defaulted_args \<noteq> []
                       then Inr (err (''Constructors callable with one argument '' @
                                      ''should be marked explicit.''))
                       else Inr (err ''Single-parameter constructors should be marked explicit.''))
                 else if is_marked_explicit \<and> \<not> onearg_constructor \<and> noarg_constructor
                 then Inr (err ''Zero-parameter constructors should not be marked explicit.'')
                 else Inr [])))"

section \<open>The check\<close>

definition STORAGE_CLASS :: string where
  "STORAGE_CLASS = raw (''`b(const|volatile|void|char|short|int|long'' @
     ''|float|double|signed|unsigned'' @ ''|schar|u?int8|u?int16|u?int32|u?int64)'' @
     ''`s+(register|static|extern|typedef)`b'')"

definition nonstandard_calls :: "string \<Rightarrow> nat \<Rightarrow> string \<Rightarrow> string \<Rightarrow> effect list" where
  \<open>nonstandard_calls filename linenum uncommented line =
     (let err = (\<lambda>category confidence message. ErrorCall filename (int linenum) category confidence message);
          unescaped = str_replace uncommented [backslash, backslash] []
      in report (found (Search (raw ''printf`s*`(.*".*%[-+ ]?`d*q'') uncommented))
           (err ''runtime/printf_format'' 3 ''%q in format strings is deprecated.  Use %ll instead.'') @
         report (found (Search (raw ''printf`s*`(.*".*%`d+`$'') uncommented))
           (err ''runtime/printf_format'' 2 ''%N$ formats are unconventional.  Try rewriting to avoid them.'') @
         report (found (Search (raw ''("|`').*``(%|`[|`(|{)'') unescaped))
           (err ''build/printf_format'' 3 ''%, [, (, and { are undefined character escapes.  Unescape them.'') @
         report (found (Search STORAGE_CLASS line))
           (err ''build/storage_class'' 5
             (''Storage-class specifier (static, extern, typedef, etc) should be '' @
              ''at the beginning of the declaration.'')) @
         report (found (Match (raw ''`s*#`s*endif`s*[^/`s]+'') line))
           (err ''build/endif_comment'' 5
             ''Uncommented text after #endif is non-standard.  Use a comment.'') @
         report (found (Match (raw ''`s*class`s+(`w+`s*::`s*)+`w+`s*;'') line))
           (err ''build/forward_decl'' 5
             ''Inner-style forward declarations are invalid.  Remove this line.'') @
         report (found (Search (raw ''(`w+|[+-]?`d+(`.`d*)?)`s*(<|>)`?=?`s*(`w+|[+-]?`d+)(`.`d*)?'') line))
           (err ''build/deprecated'' 3
             ''>? and <? (max and min) operators are non-standard and deprecated.'') @
         report (found (Search (raw ''^`s*const`s*string`s*&`s*`w+`s*;'') line))
           (err ''runtime/member_string_references'' 2
             (''const string& members are dangerous. It is much better to use '' @
              ''alternatives, such as pointers or simple constants.'')))\<close>

definition CheckForNonStandardConstructs ::
  "string \<Rightarrow> cleansed_lines \<Rightarrow> nat \<Rightarrow> nesting_state \<Rightarrow> effect list res" where
  "CheckForNonStandardConstructs filename clean_lines linenum st =
     bind_res (py_nth (cl_lines clean_lines) (int linenum)) (\<lambda>uncommented.
     bind_res (py_nth (cl_elided clean_lines) (int linenum)) (\<lambda>line.
       effects [
         Inr (nonstandard_calls filename linenum uncommented line),
         (case InnermostClass st of
            None \<Rightarrow> Inr []
          | Some b \<Rightarrow>
              if \<not> seen_open_brace b then Inr []
              else (case kind b of
                  ClassBlock classinfo \<Rightarrow>
                    check_constructor filename linenum (last (str_split (class_name classinfo) ''::'')) line
                | _ \<Rightarrow> Inr []))]))"

section \<open>Properties\<close>

lemma count_append_single: "str_count (s @ t) [c] = str_count s [c] + str_count t [c]"
proof (induction s)
  case (Cons x s)
  then show ?case
    by (subst (1 2) str_count.simps) (auto simp: startswith_def)
next
  case Nil
  show ?case by (subst (2) str_count.simps) simp
qed

lemma collapse_arg_raises: "collapse_arg arg as = Inl e \<Longrightarrow> e = IndexError"
proof (induction arg as rule: collapse_arg.induct)
  case (1 arg as)
  then show ?case by (subst (asm) (2) collapse_arg.simps) (auto split: if_splits list.splits)
qed

lemma collapse_arg_join:
  "collapse_arg arg as = Inr (arg', as') \<Longrightarrow>
     str_join '','' (arg # as) = str_join '','' (arg' # as') \<and> \<not> open_argument arg'"
proof (induction arg as rule: collapse_arg.induct)
  case (1 arg as)
  show ?case
  proof (cases "open_argument arg")
    case True
    with 1(2) obtain a bs where as: "as = a # bs" "collapse_arg (arg @ '','' @ a) bs = Inr (arg', as')"
      by (subst (asm) collapse_arg.simps) (auto split: list.splits)
    from 1(1) [OF True as(1,2)] show ?thesis by (cases bs) (auto simp: as(1))
  next
    case False
    with 1(2) show ?thesis by (subst (asm) collapse_arg.simps) simp
  qed
qed

lemma collapse_args_result:
  "collapse_args as = Inr bs \<Longrightarrow>
     str_join '','' as = str_join '','' bs \<and> (\<forall>b \<in> set bs. \<not> open_argument b)"
proof (induction as arbitrary: bs rule: collapse_args.induct)
  case (2 arg as)
  then obtain arg' as' bs' where
    c: "collapse_arg arg as = Inr (arg', as')" "collapse_args as' = Inr bs'" "bs = arg' # bs'" by auto
  from c(2) have "as' = [] \<longleftrightarrow> bs' = []" by (cases as') auto
  with collapse_arg_join [OF c(1)] 2(1) [OF c(1) refl c(2)] c(3) show ?case
    by (cases as'; cases bs') (auto simp: str_join_Cons)
qed simp

lemma collapse_args_raises: "collapse_args as = Inl e \<Longrightarrow> e = IndexError"
proof (induction as rule: collapse_args.induct)
  case (2 arg as)
  then show ?case using collapse_arg_raises [of arg as e]
    by (cases "collapse_arg arg as") (auto simp: bind_res_def split: sum.splits)
qed simp

lemma count_join:
  "str_count (str_join '','' as) [c] = (\<Sum>a\<leftarrow>as. str_count a [c]) + (if c = CHR '','' then length as - 1 else 0)"
proof (induction as rule: induct_list012)
  case (3 a b as)
  have "str_count ('','' ) [c] = (if c = CHR '','' then 1 else 0)"
    by (subst str_count.simps) (simp add: startswith_def str_count.simps)
  with 3 show ?case by (simp add: count_append_single [of a] count_append_single [of "'',''"] del: append_Cons)
qed (simp_all add: str_count.simps)

text \<open>Text with more opening than closing brackets cannot be divided into closed arguments.\<close>

lemma collapse_args_unclosed:
  assumes "open_argument (str_join '','' as)"
  shows "collapse_args as = Inl IndexError"
proof (cases "collapse_args as")
  case (Inr bs)
  from collapse_args_result [OF this] have j: "str_join '','' as = str_join '','' bs"
    and c: "\<forall>b \<in> set bs. str_count b ''<'' \<le> str_count b ''>'' \<and> str_count b ''('' \<le> str_count b '')''"
    by (auto simp: open_argument_def)
  from c have "(\<Sum>b\<leftarrow>bs. str_count b ''<'') \<le> (\<Sum>b\<leftarrow>bs. str_count b ''>'')"
    "(\<Sum>b\<leftarrow>bs. str_count b ''('') \<le> (\<Sum>b\<leftarrow>bs. str_count b '')'')"
    by (auto intro!: sum_list_mono)
  with assms show ?thesis unfolding j open_argument_def count_join by simp
next
  case (Inl e)
  with collapse_args_raises [OF Inl] show ?thesis by simp
qed

lemma check_constructor_safe: "check_safe f (check_constructor f n name line)"
proof (cases "Match (CONSTRUCTOR name) line")
  case (Some m)
  let ?as = "if grp m 2 = [] then [] else split_on (CHR '','') (grp m 2)"
  show ?thesis
  proof (cases "collapse_args ?as")
    case (Inl e)
    with collapse_args_raises [OF Inl] show ?thesis unfolding check_constructor_def Some option.case Let_def by simp
  next
    case (Inr bs)
    show ?thesis unfolding check_constructor_def Some option.case Let_def Inr bind_res_simps
      by (simp add: Let_def)
  qed
qed (simp add: check_constructor_def)

lemma CheckForNonStandardConstructs_safe:
  assumes "cl_wf c" "n < NumLines c"
  shows "check_safe f (CheckForNonStandardConstructs f c n st)"
  unfolding CheckForNonStandardConstructs_def cl_wf_nth [OF assms] bind_res_simps
  by (rule check_safe_effects)
    (simp add: nonstandard_calls_def Let_def check_constructor_safe split: option.splits block_kind.splits)

text \<open>
  C39: the arguments of a constructor. If collapsing them returns, the arguments joined are the
  text, and in each one every opening angle bracket and parenthesis has a closing one; the only
  exception is \<open>IndexError\<close>, and it is raised whenever the text has more opening than
  closing brackets, so that a default argument with a shift or a comparison stops the linter.
\<close>

theorem constructor_arguments:
  "(case collapse_args (split_on (CHR '','') text) of
      Inr args \<Rightarrow> str_join '','' args = text \<and> (\<forall>arg \<in> set args. \<not> open_argument arg)
    | Inl e \<Rightarrow> e = IndexError) \<and>
   (open_argument text \<longrightarrow> collapse_args (split_on (CHR '','') text) = Inl IndexError)"
proof (intro conjI impI)
  show "case collapse_args (split_on (CHR '','') text) of
      Inr args \<Rightarrow> str_join '','' args = text \<and> (\<forall>arg \<in> set args. \<not> open_argument arg)
    | Inl e \<Rightarrow> e = IndexError"
    using collapse_args_result [of "split_on (CHR '','') text"] collapse_args_raises [of "split_on (CHR '','') text"]
    by (auto simp: join_split_on split: sum.splits)
next
  assume "open_argument text"
  then show "collapse_args (split_on (CHR '','') text) = Inl IndexError"
    using collapse_args_unclosed [of "split_on (CHR '','') text"] by (simp add: join_split_on)
qed

theorem constructor_arguments_witness:
  "collapse_args (split_on (CHR '','') ''map<int, int> m, int shift = 1 << 3'') = Inl IndexError \<and>
   check_constructor ''a.cc'' 3 ''A'' ''  A(int shift = 1 << 3);'' = Inl IndexError"
proof -
  have "open_argument ''map<int, int> m, int shift = 1 << 3''" by code_simp
  with constructor_arguments [of "''map<int, int> m, int shift = 1 << 3''"]
  have "collapse_args (split_on (CHR '','') ''map<int, int> m, int shift = 1 << 3'') = Inl IndexError" by blast
  moreover have "check_constructor ''a.cc'' 3 ''A'' ''  A(int shift = 1 << 3);'' = Inl IndexError" by code_simp
  ultimately show ?thesis by blast
qed

end
