(* ===== verification/Casts.thy ===== *)
theory Casts
  imports Spacing
begin

text \<open>
  Checks of casts and of references: \<open>CheckCasts\<close> with \<open>CheckCStyleCast\<close>, and
  \<open>CheckForNonConstReference\<close> with the functions that look back for the start of a declaration.
\<close>

section \<open>C-style casts\<close>

definition ExpectingFunctionArgs :: "cleansed_lines \<Rightarrow> nat \<Rightarrow> bool res" where
  "ExpectingFunctionArgs clean_lines linenum =
     bind_res (py_nth (cl_elided clean_lines) (int linenum)) (\<lambda>line.
       if found (Match (raw ''^`s*MOCK_(CONST_)?METHOD`d+(_T)?`('') line) then Inr True
       else if 2 \<le> linenum then
         bind_res (py_nth (cl_elided clean_lines) (int (linenum - 1))) (\<lambda>before.
         bind_res (py_nth (cl_elided clean_lines) (int (linenum - 2))) (\<lambda>before2.
           Inr (found (Match (raw ''^`s*MOCK_(?:CONST_)?METHOD`d+(?:_T)?`((?:`S+,)?`s*$'') before) \<or>
                found (Match (raw ''^`s*MOCK_(?:CONST_)?METHOD`d+(?:_T)?`(`s*$'') before2) \<or>
                found (Search (raw ''`bstd::m?function`s*`<`s*$'') before))))
       else Inr False)"

text \<open>The result says whether an error was emitted.\<close>

definition CheckCStyleCast ::
  "string \<Rightarrow> cleansed_lines \<Rightarrow> nat \<Rightarrow> string \<Rightarrow> string \<Rightarrow> (bool \<times> effect list) res" where
  "CheckCStyleCast filename clean_lines linenum cast_type pattern =
     bind_res (py_nth (cl_elided clean_lines) (int linenum)) (\<lambda>line.
       case Search pattern line of
         None \<Rightarrow> Inr (False, [])
       | Some m \<Rightarrow>
           (let start = (case group_start m 1 of Some i \<Rightarrow> int i | None \<Rightarrow> -1);
                context0 = slice_to line (start - 1)
            in if found (Match (raw ''.*`b(?:sizeof|alignof|alignas|[_A-Z][_A-Z0-9]*)`s*$'') context0)
               then Inr (False, [])
               else bind_res (py_lines (cl_elided clean_lines) [linenum - 5 + 1..<linenum]) (\<lambda>before.
                 let ctxt = concat before @ context0
                 in if found (Match (raw ''.*`b[_A-Z][_A-Z0-9]*`s*`((?:`([^()]*`)|[^()])*$'') ctxt)
                    then Inr (False, [])
                    else if endswith ctxt '' operator++'' \<or> endswith ctxt '' operator--''
                    then Inr (False, [])
                    else if found (Match (raw ''^`s*(?:;|const`b|throw`b|final`b|override`b|[=>{),]|->)'')
                                     (drop (m_end m) line))
                    then Inr (False, [])
                    else Inr (True, [ErrorCall filename (int linenum) ''readability/casting'' 4
                      (''Using C-style cast.  Use '' @ cast_type @ ''<'' @ grp m 1 @ ''>(...) instead'')]))))"

section \<open>Casts\<close>

definition FUNCTION_CAST :: string where
  "FUNCTION_CAST = raw (''(`bnew`s+(?:const`s+)?|`S<`s*(?:const`s+)?)?`b'' @
     ''(int|float|double|bool|char|int32|uint32|int64|uint64)'' @ ''(`([^)].*)'')"

definition ADDRESS_OF_CAST :: string where
  "ADDRESS_OF_CAST = raw (''(?:[^`w]&`(([^)*][^)]*)`)[`w(])|'' @
     ''(?:[^`w]&(static|dynamic|down|reinterpret)_cast`b)'')"

definition CAST_BEFORE_TEMPLATE :: string where
  "CAST_BEFORE_TEMPLATE = raw ''^(.*&(?:static|dynamic|down|reinterpret)_cast`b)<''"

definition function_cast_calls :: "string \<Rightarrow> nat \<Rightarrow> string \<Rightarrow> mobj \<Rightarrow> effect list" where
  "function_cast_calls filename linenum line m =
     report (group m 1 = None \<and>
             \<not> (grp m 3 \<noteq> [] \<and>
                (found (Match (raw ''`((?:[^() ]+::`s*`*`s*)?[^() ]+`)`s*`('') (grp m 3)) \<or>
                 startswith (grp m 3) ''(*)'')) \<and>
             \<not> found (Match (raw ''`s*using`s+`S+`s*=`s*'' @ grp m 2) line) \<and>
             \<not> found (Search (raw ''new`(`S+`)`s*'' @ grp m 2) line))
       (ErrorCall filename (int linenum) ''readability/casting'' 4
         (''Using deprecated casting style.  '' @ ''Use static_cast<'' @ grp m 2 @ ''>(...) instead''))"

text \<open>
  The address of a cast. \<open>elided[y1][x1]\<close> is read without a check that the line goes on
  after the angle bracket.
\<close>

definition address_of_dereferenced :: "cleansed_lines \<Rightarrow> nat \<Rightarrow> string \<Rightarrow> bool res" where
  "address_of_dereferenced clean_lines linenum line =
     (let elided = cl_elided clean_lines
      in case Match CAST_BEFORE_TEMPLATE line of
        None \<Rightarrow> Inr False
      | Some m \<Rightarrow>
          bind_res (CloseExpression elided linenum (length (grp m 1))) (\<lambda>(_, y1, x1).
            if x1 < 0 then Inr False
            else bind_res (py_nth elided (int y1)) (\<lambda>line1.
            bind_res (py_nth line1 x1) (\<lambda>char.
              if char \<noteq> CHR ''('' then Inr False
              else bind_res (CloseExpression elided y1 (nat x1)) (\<lambda>(_, y2, x2).
                if x2 < 0 then Inr False
                else bind_res (py_nth elided (int y2)) (\<lambda>line2.
                bind_res (if y2 + 1 < NumLines clean_lines then py_nth elided (int (y2 + 1)) else Inr [])
                  (\<lambda>next_line.
                     Inr (found (Match (raw ''`s*(?:->|`[)'') (slice_from line2 x2 @ next_line))))))))))"

definition check_address_of_cast :: "string \<Rightarrow> cleansed_lines \<Rightarrow> nat \<Rightarrow> string \<Rightarrow> effect list res" where
  "check_address_of_cast filename clean_lines linenum line =
     (if found (Search ADDRESS_OF_CAST line) then
        bind_res (address_of_dereferenced clean_lines linenum line) (\<lambda>parenthesis_error.
          Inr [if parenthesis_error
               then ErrorCall filename (int linenum) ''readability/casting'' 4
                 (''Are you taking an address of something dereferenced '' @
                  ''from a cast?  Wrapping the dereferenced expression in '' @
                  ''parentheses will make the binding more obvious'')
               else ErrorCall filename (int linenum) ''runtime/casting'' 4
                 (''Are you taking an address of a cast?  '' @
                  ''This is dangerous: could be a temp var.  '' @
                  ''Take the address before doing the cast, rather than after'')])
      else Inr [])"

definition CheckCasts :: "string \<Rightarrow> cleansed_lines \<Rightarrow> nat \<Rightarrow> effect list res" where
  \<open>CheckCasts filename clean_lines linenum =
     bind_res (py_nth (cl_elided clean_lines) (int linenum)) (\<lambda>line.
     bind_res (ExpectingFunctionArgs clean_lines linenum) (\<lambda>expecting_function.
       let m = (if expecting_function then None else Search FUNCTION_CAST line)
       in if (case m of None \<Rightarrow> False | Some m \<Rightarrow> found (Match (raw ''`([^()]+`)`s*`['') (grp m 3)))
          then Inr []
          else effects [
            Inr (case m of None \<Rightarrow> [] | Some m \<Rightarrow> function_cast_calls filename linenum line m),
            if expecting_function then Inr []
            else bind_res (CheckCStyleCast filename clean_lines linenum ''static_cast''
                   (raw ''`((int|float|double|bool|char|u?int(16|32|64))`)'')) (\<lambda>(_, es). Inr es),
            bind_res (CheckCStyleCast filename clean_lines linenum ''const_cast''
                (raw ''`((char`s?`*+`s?)`)`s*"'')) (\<lambda>(emitted, es).
              if emitted then Inr es
              else bind_res (CheckCStyleCast filename clean_lines linenum ''reinterpret_cast''
                     (raw ''`((`w+`s?`*+`s?)`)'')) (\<lambda>(_, es'). Inr (es @ es'))),
            check_address_of_cast filename clean_lines linenum line]))\<close>

section \<open>References\<close>

definition RE_PATTERN_IDENT :: string where
  "RE_PATTERN_IDENT = raw ''[_a-zA-Z]`w*''"

definition RE_PATTERN_TYPE :: string where
  "RE_PATTERN_TYPE = raw (
     ''(?:const`s+)?(?:typename`s+|class`s+|struct`s+|union`s+|enum`s+)?'' @
     ''(?:`w|'' @ ''`s*<(?:<(?:<[^<>]*>|[^<>])*>|[^<>])*>|'' @ ''::)+'')"

definition RE_PATTERN_REF_PARAM :: string where
  "RE_PATTERN_REF_PARAM =
     ''('' @ RE_PATTERN_TYPE @ raw ''(?:`s*(?:`bconst`b|[*]))*`s*'' @
     raw ''&`s*'' @ RE_PATTERN_IDENT @ raw '')`s*(?:=[^,()]+)?[,)]''"

definition RE_PATTERN_CONST_REF_PARAM :: string where
  "RE_PATTERN_CONST_REF_PARAM =
     raw ''(?:.*`s*`bconst`s*&`s*'' @ RE_PATTERN_IDENT @
     raw ''|const`s+'' @ RE_PATTERN_TYPE @ raw ''`s*&`s*'' @ RE_PATTERN_IDENT @ '')''"

definition RE_PATTERN_REF_STREAM_PARAM :: string where
  "RE_PATTERN_REF_STREAM_PARAM =
     raw ''(?:.*stream`s*&`s*'' @ RE_PATTERN_IDENT @ '')''"

text \<open>The indices of the current line and of the nine lines before it, from the last.\<close>

definition recent_lines :: "nat \<Rightarrow> nat list" where
  "recent_lines linenum = rev [Suc linenum - 10..<Suc linenum]"

fun derived_loop :: "string list \<Rightarrow> nat list \<Rightarrow> bool res" where
  "derived_loop elided [] = Inr False"
| "derived_loop elided (i # is) =
     bind_res (py_nth elided (int i)) (\<lambda>text.
       case Match (raw ''^([^()]*`w+)`('') text of
         None \<Rightarrow> derived_loop elided is
       | Some m \<Rightarrow>
           bind_res (CloseExpression elided i (length (grp m 1))) (\<lambda>(line, _, closing_paren).
             Inr (0 \<le> closing_paren \<and> found (Search (raw ''`boverride`b'') (slice_from line closing_paren)))))"

definition IsDerivedFunction :: "cleansed_lines \<Rightarrow> nat \<Rightarrow> bool res" where
  "IsDerivedFunction clean_lines linenum = derived_loop (cl_elided clean_lines) (recent_lines linenum)"

fun out_of_line_loop :: "string list \<Rightarrow> nat list \<Rightarrow> bool res" where
  "out_of_line_loop elided [] = Inr False"
| "out_of_line_loop elided (i # is) =
     bind_res (py_nth elided (int i)) (\<lambda>text.
       if found (Match (raw ''^([^()]*`w+)`('') text)
       then Inr (found (Match (raw ''^[^()]*`w+::`w+`('') text))
       else out_of_line_loop elided is)"

definition IsOutOfLineMethodDefinition :: "cleansed_lines \<Rightarrow> nat \<Rightarrow> bool res" where
  "IsOutOfLineMethodDefinition clean_lines linenum =
     out_of_line_loop (cl_elided clean_lines) (recent_lines linenum)"

fun initializer_loop :: "string list \<Rightarrow> nat \<Rightarrow> nat list \<Rightarrow> bool res" where
  "initializer_loop elided linenum [] = Inr False"
| "initializer_loop elided linenum (i # is) =
     bind_res (py_nth elided (int i)) (\<lambda>text.
       let line = (if i = linenum then
                     (case Match (raw ''^(.*)`{`s*$'') text of Some m \<Rightarrow> grp m 1 | None \<Rightarrow> text)
                   else text)
       in if found (Search (raw ''`s:`s*`w+[({]'') line) then Inr True
          else if found (Search (raw ''`}`s*,`s*$'') line) then Inr True
          else if found (Search (raw ''[{};]`s*$'') line) then Inr False
          else initializer_loop elided linenum is)"

definition IsInitializerList :: "cleansed_lines \<Rightarrow> nat \<Rightarrow> bool res" where
  "IsInitializerList clean_lines linenum =
     initializer_loop (cl_elided clean_lines) linenum (rev [2..<Suc linenum])"

text \<open>A line joined with the part of its type, or of its template arguments, on the lines before.\<close>

definition join_type :: "cleansed_lines \<Rightarrow> nat \<Rightarrow> string \<Rightarrow> string res" where
  "join_type clean_lines linenum line =
     (let elided = cl_elided clean_lines
      in if linenum \<le> 1 then Inr line
         else bind_res (py_nth elided (int (linenum - 1))) (\<lambda>before.
           let previous =
                 (if found (Match (raw ''`s*::(?:[`w<>]|::)+`s*&`s*`S'') line)
                  then Search (raw ''`b((?:const`s*)?(?:[`w<>]|::)+[`w<>])`s*$'') before
                  else if found (Match (raw ''`s*[a-zA-Z_]([`w<>]|::)+`s*&`s*`S'') line)
                  then Search (raw ''`b((?:const`s*)?(?:[`w<>]|::)+::)`s*$'') before
                  else None)
           in case previous of
                Some m \<Rightarrow> Inr (grp m 1 @ lstrip line)
              | None \<Rightarrow>
                  (case rfind_char CHR ''>'' line of
                     None \<Rightarrow> Inr line
                   | Some endpos \<Rightarrow>
                       bind_res (ReverseCloseExpression elided linenum endpos) (\<lambda>(_, startline, startpos).
                         if -1 < startpos \<and> startline < linenum
                         then bind_res (py_lines elided [startline..<linenum + 1]) (\<lambda>pieces.
                           Inr (concat (map strip pieces)))
                         else Inr line))))"

text \<open>The lines before, while they end a part of a list: is one the start of initializers?\<close>

fun colon_loop :: "string list \<Rightarrow> nat list \<Rightarrow> bool res" where
  "colon_loop elided [] = Inr False"
| "colon_loop elided (i # is) =
     bind_res (py_nth elided (int i)) (\<lambda>previous_line.
       if \<not> found (Search (raw ''[),]`s*$'') previous_line) then Inr False
       else if found (Match (raw ''^`s*:`s+`S'') previous_line) then Inr True
       else colon_loop elided is)"

definition WHITELISTED_FUNCTIONS :: string where
  "WHITELISTED_FUNCTIONS = raw (''(?:[sS]wap(?:<`w:+>)?|'' @ ''operator`s*[<>][<>]|'' @
     ''static_assert|COMPILE_ASSERT'' @ '')`s*`('')"

definition whitelisted :: "cleansed_lines \<Rightarrow> nat \<Rightarrow> string \<Rightarrow> bool res" where
  "whitelisted clean_lines linenum line =
     (if found (Search WHITELISTED_FUNCTIONS line) then Inr True
      else if \<not> found (Search (raw ''`S+`([^)]*$'') line) then
        bind_res (py_lines (cl_elided clean_lines) (rev [linenum - 2..<linenum])) (\<lambda>before.
          Inr (list_ex (\<lambda>l. found (Search WHITELISTED_FUNCTIONS l)) before))
      else Inr False)"

definition reference_calls :: "string \<Rightarrow> nat \<Rightarrow> string \<Rightarrow> effect list" where
  "reference_calls filename linenum line =
     (let decls = ReplaceAll ''{[^}]*}'' '' '' line
      in concat (map (\<lambda>m.
           report (\<not> found (Match RE_PATTERN_CONST_REF_PARAM (grp m 1)) \<and>
                   \<not> found (Match RE_PATTERN_REF_STREAM_PARAM (grp m 1)))
             (ErrorCall filename (int linenum) ''runtime/references'' 2
               (''Is this a non-const reference? '' @ ''If so, make const or use a pointer: '' @
                ReplaceAll '' *<'' ''<'' (grp m 1))))
         (finditer_from (rx RE_PATTERN_REF_PARAM) (start_cursor decls))))"

definition CheckForNonConstReference ::
  "string \<Rightarrow> cleansed_lines \<Rightarrow> nat \<Rightarrow> nesting_state \<Rightarrow> effect list res" where
  "CheckForNonConstReference filename clean_lines linenum st =
     bind_res (py_nth (cl_elided clean_lines) (int linenum)) (\<lambda>line0.
       if \<not> str_in ''&'' line0 then Inr []
       else bind_res (IsDerivedFunction clean_lines linenum) (\<lambda>derived.
         if derived then Inr []
         else bind_res (IsOutOfLineMethodDefinition clean_lines linenum) (\<lambda>out_of_line.
           if out_of_line then Inr []
           else bind_res (join_type clean_lines linenum line0) (\<lambda>line.
             if (case previous_stack_top st of None \<Rightarrow> False | Some b \<Rightarrow> \<not> is_class b \<and> \<not> is_namespace b)
             then Inr []
             else bind_res (colon_loop (cl_elided clean_lines) (rev [linenum - 10 + 1..<linenum])) (\<lambda>initializers.
               if initializers then Inr []
               else if found (Search (raw ''```s*$'') line) then Inr []
               else bind_res (IsInitializerList clean_lines linenum) (\<lambda>initializer_list.
                 if initializer_list then Inr []
                 else bind_res (whitelisted clean_lines linenum line) (\<lambda>allowed.
                   if allowed then Inr [] else Inr (reference_calls filename linenum line))))))))"

section \<open>The contract\<close>

lemma CheckCStyleCast_raises: "index_only (CheckCStyleCast f c n t p)"
  unfolding CheckCStyleCast_def Let_def
  by (intro index_only_rules) (auto intro!: index_only_rules split: option.splits)

lemma CheckCStyleCast_calls:
  "CheckCStyleCast f c n t p = Inr (b, es) \<Longrightarrow> calls_ok f es"
  unfolding CheckCStyleCast_def Let_def
  by (auto simp: bind_res_def split: sum.splits option.splits if_splits)

lemma ExpectingFunctionArgs_raises: "index_only (ExpectingFunctionArgs c n)"
  unfolding ExpectingFunctionArgs_def
  by (intro index_only_rules) (auto intro!: index_only_rules)

lemma address_of_dereferenced_raises: "index_only (address_of_dereferenced c n line)"
  unfolding address_of_dereferenced_def Let_def
  by (auto intro!: index_only_rules split: option.splits)

lemma check_address_of_cast_safe: "check_safe f (check_address_of_cast f c n line)"
  unfolding check_address_of_cast_def
  by (auto intro!: check_safe_bind address_of_dereferenced_raises)

lemma cast_safe:
  assumes "\<And>b es. calls_ok f es \<Longrightarrow> check_safe f (k (b, es))"
  shows "check_safe f (bind_res (CheckCStyleCast f c n t p) k)"
proof (cases "CheckCStyleCast f c n t p")
  case (Inl e)
  with CheckCStyleCast_raises [of f c n t p] show ?thesis by simp
next
  case (Inr r)
  with CheckCStyleCast_calls [of f c n t p] assms show ?thesis by (cases r) simp
qed

lemma calls_ok_safe: "calls_ok f es \<Longrightarrow> check_safe f (Inr es)"
  by simp

lemma cast_alone_safe: "check_safe f (bind_res (CheckCStyleCast f c n t p) (\<lambda>(_, es). Inr es))"
  by (rule cast_safe) simp

lemma cast_pair_safe:
  "check_safe f (bind_res (CheckCStyleCast f c n t p) (\<lambda>(emitted, es).
     if emitted then Inr es
     else bind_res (CheckCStyleCast f c n t' p') (\<lambda>(_, es'). Inr (es @ es'))))"
  by (rule cast_safe) (auto intro!: cast_safe)

lemma function_cast_calls_ok: "calls_ok f (function_cast_calls f n line m)"
  by (simp add: function_cast_calls_def)

lemma CheckCasts_safe: "check_safe f (CheckCasts f c n)"
  unfolding CheckCasts_def Let_def
proof (intro check_safe_bind index_only_nth ExpectingFunctionArgs_raises, goal_cases)
  case (1 line expecting)
  let ?m = "if expecting then None else Search FUNCTION_CAST line"
  show ?case
  proof (cases "case ?m of None \<Rightarrow> False | Some m \<Rightarrow> found (Match (raw ''`([^()]+`)`s*`['') (grp m 3))")
    case False
    show ?thesis unfolding if_not_P [OF False]
      by (rule check_safe_effects)
        (auto simp: function_cast_calls_ok check_address_of_cast_safe cast_alone_safe cast_pair_safe split: option.splits)
  qed simp
qed

lemma index_only_reverse: "index_only (ReverseCloseExpression elided n c)"
  unfolding ReverseCloseExpression_def by (intro index_only_rules) simp

lemma derived_loop_raises: "index_only (derived_loop elided is)"
proof (induction "is")
  case (Cons i "is")
  show ?case unfolding derived_loop.simps
    by (intro index_only_rules) (auto intro!: index_only_rules Cons split: option.splits)
qed simp

lemma out_of_line_loop_raises: "index_only (out_of_line_loop elided is)"
proof (induction "is")
  case (Cons i "is")
  show ?case unfolding out_of_line_loop.simps by (intro index_only_rules) (simp add: Cons)
qed simp

lemma initializer_loop_raises: "index_only (initializer_loop elided n is)"
proof (induction "is")
  case (Cons i "is")
  show ?case unfolding initializer_loop.simps Let_def by (intro index_only_rules) (simp add: Cons)
qed simp

lemma colon_loop_raises: "index_only (colon_loop elided is)"
proof (induction "is")
  case (Cons i "is")
  show ?case unfolding colon_loop.simps by (intro index_only_rules) (simp add: Cons)
qed simp

lemma join_type_raises: "index_only (join_type c n line)"
  unfolding join_type_def Let_def
  by (auto intro!: index_only_rules index_only_reverse split: option.splits)

lemma whitelisted_raises: "index_only (whitelisted c n line)"
  unfolding whitelisted_def by (auto intro!: index_only_rules)

lemma reference_calls_ok: "calls_ok f (reference_calls f n line)"
  by (auto simp: reference_calls_def Let_def calls_ok_concat)

lemma declaration_raises:
  "index_only (IsDerivedFunction c n)" "index_only (IsOutOfLineMethodDefinition c n)"
  "index_only (IsInitializerList c n)"
  unfolding IsDerivedFunction_def IsOutOfLineMethodDefinition_def IsInitializerList_def
  by (rule derived_loop_raises out_of_line_loop_raises initializer_loop_raises)+

lemma CheckForNonConstReference_safe: "check_safe f (CheckForNonConstReference f c n st)"
  unfolding CheckForNonConstReference_def
  by (auto intro!: check_safe_bind index_only_nth declaration_raises colon_loop_raises
      join_type_raises whitelisted_raises simp: reference_calls_ok)

text \<open>
  C40: the address of a cast whose template argument ends the line. \<open>CheckCasts\<close> reads the
  character after the closing angle bracket without checking that there is one: on a line that
  takes the address of a named cast, if \<open>CloseExpression\<close> ends at the length of a line,
  the check of that line raises \<open>IndexError\<close>, and it raises no other exception on any line.
\<close>

theorem cast_at_end_of_line:
  assumes "found (Search ADDRESS_OF_CAST line)" "Match CAST_BEFORE_TEMPLATE line = Some m"
    and "CloseExpression (cl_elided c) n (length (grp m 1)) = Inr (text, y, x)" "0 \<le> x" "y < length (cl_elided c)"
  shows "index_only (check_address_of_cast f c n line) \<and>
    (int (length (cl_elided c ! y)) \<le> x \<longrightarrow> check_address_of_cast f c n line = Inl IndexError)"
proof
  show "index_only (check_address_of_cast f c n line)"
    using check_address_of_cast_safe [of f c n line] by (cases "check_address_of_cast f c n line") simp_all
  have "py_nth (cl_elided c ! y) x = Inl IndexError" if "int (length (cl_elided c ! y)) \<le> x"
    using that assms(4) by (simp add: py_nth_def)
  then show "int (length (cl_elided c ! y)) \<le> x \<longrightarrow> check_address_of_cast f c n line = Inl IndexError"
    using assms by (simp add: check_address_of_cast_def address_of_dereferenced_def Let_def)
qed

theorem cast_at_end_of_line_witness:
  "check_address_of_cast ''a.cc''
     \<lparr>cl_elided = [''p = &static_cast<int*>'', ''(q);''], cl_lines = [], cl_raw_lines = [], cl_num_lines = 2,
      cl_lines_without_raw_strings = []\<rparr> 0 ''p = &static_cast<int*>'' = Inl IndexError"
    (is "check_address_of_cast _ ?c _ ?line = _")
proof -
  have "\<exists>m. Match CAST_BEFORE_TEMPLATE ?line = Some m \<and> length (grp m 1) = 16"
    by (rule exI [of _ "the (Match CAST_BEFORE_TEMPLATE ?line)"]) code_simp
  then obtain m where m: "Match CAST_BEFORE_TEMPLATE ?line = Some m" "length (grp m 1) = 16" by blast
  have s: "found (Search ADDRESS_OF_CAST ?line)" by code_simp
  have "CloseExpression (cl_elided ?c) 0 16 = Inr (?line, 0, 22)" by code_simp
  then have "CloseExpression (cl_elided ?c) 0 (length (grp m 1)) = Inr (?line, 0, 22)"
    unfolding m(2) .
  from cast_at_end_of_line [OF s m(1) this, of "''a.cc''"] show ?thesis by simp
qed

end
