(* ===== verification/Includes.thy ===== *)
theory Includes
  imports Check_Tools Include_State
begin

text \<open>
  \<open>_DropCommonSuffixes\<close>, \<open>_ClassifyInclude\<close> and \<open>CheckIncludeLine\<close>: which kind of header
  an include names, and the checks of an include line with its effect on the include state.
\<close>

section \<open>Tables\<close>

definition CPP_HEADERS :: "string list" where
  "CPP_HEADERS = [
     ''algobase.h'', ''algo.h'', ''alloc.h'', ''builtinbuf.h'', ''bvector.h'', ''complex.h'',
     ''defalloc.h'', ''deque.h'', ''editbuf.h'', ''fstream.h'', ''function.h'', ''hash_map'',
     ''hash_map.h'', ''hash_set'', ''hash_set.h'', ''hashtable.h'', ''heap.h'', ''indstream.h'',
     ''iomanip.h'', ''iostream.h'', ''istream.h'', ''iterator.h'', ''list.h'', ''map.h'',
     ''multimap.h'', ''multiset.h'', ''ostream.h'', ''pair.h'', ''parsestream.h'',
     ''pfstream.h'', ''procbuf.h'', ''pthread_alloc'', ''pthread_alloc.h'', ''rope'',
     ''rope.h'', ''ropeimpl.h'', ''set.h'', ''slist'', ''slist.h'', ''stack.h'',
     ''stdiostream.h'', ''stl_alloc.h'', ''stl_relops.h'', ''streambuf.h'', ''stream.h'',
     ''strfile.h'', ''strstream.h'', ''tempbuf.h'', ''tree.h'', ''type_traits.h'', ''vector.h'',
     ''algorithm'', ''array'', ''atomic'', ''bitset'', ''chrono'', ''codecvt'', ''complex'',
     ''condition_variable'', ''deque'', ''exception'', ''forward_list'', ''fstream'',
     ''functional'', ''future'', ''initializer_list'', ''iomanip'', ''ios'', ''iosfwd'',
     ''iostream'', ''istream'', ''iterator'', ''limits'', ''list'', ''locale'', ''map'',
     ''memory'', ''mutex'', ''new'', ''numeric'', ''ostream'', ''queue'', ''random'', ''ratio'',
     ''regex'', ''scoped_allocator'', ''set'', ''sstream'', ''stack'', ''stdexcept'',
     ''streambuf'', ''string'', ''strstream'', ''system_error'', ''thread'', ''tuple'',
     ''typeindex'', ''typeinfo'', ''type_traits'', ''unordered_map'', ''unordered_set'',
     ''utility'', ''valarray'', ''vector'', ''cassert'', ''ccomplex'', ''cctype'', ''cerrno'',
     ''cfenv'', ''cfloat'', ''cinttypes'', ''ciso646'', ''climits'', ''clocale'', ''cmath'',
     ''csetjmp'', ''csignal'', ''cstdalign'', ''cstdarg'', ''cstdbool'', ''cstddef'',
     ''cstdint'', ''cstdio'', ''cstdlib'', ''cstring'', ''ctgmath'', ''ctime'', ''cuchar'',
     ''cwchar'', ''cwctype'']"

definition THIRD_PARTY_HEADERS_PATTERN :: string where
  "THIRD_PARTY_HEADERS_PATTERN = raw ''^(?:[^/]*[A-Z][^/]*`.h|lua`.h|lauxlib`.h|lualib`.h)$''"

definition RE_FIRST_COMPONENT :: string where
  "RE_FIRST_COMPONENT = ''^[^-_.]+''"

definition COMMON_SUFFIXES :: "string list" where
  "COMMON_SUFFIXES = [''test.cc'', ''regtest.cc'', ''unittest.cc'', ''inl.h'', ''impl.h'', ''internal.h'']"

section \<open>Classification\<close>

fun drop_suffix :: "string list \<Rightarrow> string \<Rightarrow> string" where
  "drop_suffix [] filename = fst (splitext filename)"
| "drop_suffix (s # ss) filename =
     (if endswith filename s \<and> length s < length filename \<and>
         filename ! (length filename - length s - 1) \<in> {CHR ''-'', CHR ''_''}
      then take (length filename - length s - 1) filename
      else drop_suffix ss filename)"

definition DropCommonSuffixes :: "string \<Rightarrow> string" where
  "DropCommonSuffixes filename = drop_suffix COMMON_SUFFIXES filename"

text \<open>The decision for an include in quotes, from the name of the file in its repository.\<close>

definition classify_quoted :: "string \<Rightarrow> string \<Rightarrow> header_type" where
  "classify_quoted repository_name include =
     (let (target_dir, target_base) = path_split (DropCommonSuffixes repository_name);
          (include_dir, include_base) = path_split (DropCommonSuffixes include)
      in if target_base = include_base \<and>
            (include_dir = target_dir \<or> include_dir = normpath (target_dir @ ''/../public''))
         then LIKELY_MY_HEADER
         else (case (re_match (rx RE_FIRST_COMPONENT) target_base, re_match (rx RE_FIRST_COMPONENT) include_base) of
             (Some t, Some i) \<Rightarrow> if grp t 0 = grp i 0 then POSSIBLE_MY_HEADER else OTHER_HEADER
           | _ \<Rightarrow> OTHER_HEADER))"

text \<open>The name of the file in its repository; \<open>None\<close> when the search does not end.\<close>

definition repository_run :: "lint_config \<Rightarrow> string \<Rightarrow> string run" where
  "repository_run cfg filename = map_option Inr (RepositoryName (cfg_env cfg) filename)"

definition ClassifyInclude :: "lint_config \<Rightarrow> string \<Rightarrow> string \<Rightarrow> bool \<Rightarrow> header_type run" where
  "ClassifyInclude cfg filename include is_system =
     (if is_system then
        Some (Inr (if include \<in> set CPP_HEADERS then CPP_SYS_HEADER else C_SYS_HEADER))
      else bind_run (repository_run cfg filename) (\<lambda>name. Some (Inr (classify_quoted name include))))"

section \<open>Include lines\<close>

definition check_include_order ::
  "lint_config \<Rightarrow> string \<Rightarrow> cleansed_lines \<Rightarrow> nat \<Rightarrow> string \<Rightarrow> bool \<Rightarrow> include_state \<Rightarrow>
   (include_state \<times> effect list) run" where
  \<open>check_include_order cfg filename clean_lines linenum include is_system st =
     bind_run (Some (append_include include (int linenum) st)) (\<lambda>st.
     bind_run (ClassifyInclude cfg filename include is_system) (\<lambda>header.
     bind_run (Some (CheckNextIncludeOrder header st)) (\<lambda>(error_message, st).
     bind_run (if error_message \<noteq> [] then
                 bind_run (map_option Inr (BaseName (cfg_env cfg) filename)) (\<lambda>base.
                   Some (Inr [ErrorCall filename (int linenum) ''build/include_order'' 4
                     (error_message @ ''. Should be: '' @ base @ ''.h, c system, c++ system, other.'')]))
               else Some (Inr [])) (\<lambda>order_errors.
       let canonical_include = CanonicalizeAlphabeticalOrder include
       in bind_run (Some (IsInAlphabeticalOrder st (cl_elided clean_lines) (int linenum) canonical_include))
            (\<lambda>in_order.
               Some (Inr (SetLastHeader canonical_include st,
                 order_errors @
                 report (\<not> in_order)
                   (ErrorCall filename (int linenum) ''build/include_alpha'' 4
                     (''Include "'' @ include @ ''" not in alphabetical order'')))))))))\<close>

definition record_include ::
  "lint_config \<Rightarrow> string \<Rightarrow> cleansed_lines \<Rightarrow> nat \<Rightarrow> string \<Rightarrow> bool \<Rightarrow> include_state \<Rightarrow>
   (include_state \<times> effect list) run" where
  \<open>record_include cfg filename clean_lines linenum include is_system st =
     (let duplicate_line = FindHeader include st;
          err = (\<lambda>message. [ErrorCall filename (int linenum) ''build/include'' 4 message])
      in if 0 \<le> duplicate_line then
           Some (Inr (st, err (''"'' @ include @ ''" already included at '' @ filename @ '':'' @
                               show_int duplicate_line)))
         else bind_run (if endswith include ''.cc'' then
                          bind_run (repository_run cfg filename)
                            (\<lambda>name. Some (Inr (dirname name \<noteq> dirname include)))
                        else Some (Inr False)) (\<lambda>foreign_source.
           if foreign_source then
             Some (Inr (st, err ''Do not include .cc files from other packages''))
           else if found (re_match (rx THIRD_PARTY_HEADERS_PATTERN) include) then Some (Inr (st, []))
           else check_include_order cfg filename clean_lines linenum include is_system st))\<close>

definition CheckIncludeLine ::
  "lint_config \<Rightarrow> string \<Rightarrow> cleansed_lines \<Rightarrow> nat \<Rightarrow> include_state \<Rightarrow> (include_state \<times> effect list) run" where
  \<open>CheckIncludeLine cfg filename clean_lines linenum st =
     bind_run (Some (py_nth (cl_lines clean_lines) (int linenum))) (\<lambda>line.
       let directory = (case Match (raw ''#include`s*"([^/]+`.h)"'') line of
             None \<Rightarrow> []
           | Some m \<Rightarrow> report (\<not> found (re_match (rx THIRD_PARTY_HEADERS_PATTERN) (grp m 1)))
               (ErrorCall filename (int linenum) ''build/include'' 4
                 ''Include the directory when naming .h files''))
       in case re_search (rx RE_PATTERN_INCLUDE) line of
            None \<Rightarrow> Some (Inr (st, directory))
          | Some m \<Rightarrow>
              bind_run (record_include cfg filename clean_lines linenum (grp m 2) (grp m 1 = ''<'') st)
                (\<lambda>(st, es). Some (Inr (st, directory @ es))))\<close>

section \<open>Properties\<close>

definition repository_known :: "lint_config \<Rightarrow> string \<Rightarrow> bool" where
  "repository_known cfg filename \<longleftrightarrow> RepositoryName (cfg_env cfg) filename \<noteq> None"

lemma ClassifyInclude_returns: "repository_known cfg f \<Longrightarrow> \<exists>h. ClassifyInclude cfg f i s = Some (Inr h)"
  by (auto simp: ClassifyInclude_def repository_run_def repository_known_def)

lemma IsInAlphabeticalOrder_returns:
  assumes "cl_wf c" "n < NumLines c"
  shows "\<exists>b. IsInAlphabeticalOrder st (cl_elided c) (int n) h = Inr b"
proof -
  from py_nth_pred [OF cl_wf_lengths(1) [OF assms]] obtain l where
    l: "py_nth (cl_elided c) (int n - 1) = Inr l" by blast
  then show ?thesis by (cases "str_less h (last_header st)") (auto simp: IsInAlphabeticalOrder_def l)
qed

lemma check_include_order_ok:
  assumes "include_wf st" "cl_wf c" "n < NumLines c" "repository_known cfg f"
  shows "\<exists>st1 st' es. append_include i (int n) st = Inr st1 \<and> include_list st' = include_list st1 \<and>
    check_include_order cfg f c n i s st = Some (Inr (st', es)) \<and> include_wf st' \<and> calls_ok f es"
proof -
  from append_include_wf [OF assms(1)] obtain st1 where
    a: "append_include i (int n) st = Inr st1" "include_wf st1" by blast
  from ClassifyInclude_returns [OF assms(4)] obtain h where h: "ClassifyInclude cfg f i s = Some (Inr h)" by blast
  from CheckNext_wf [OF a(2), of h] obtain msg st2 where o: "CheckNextIncludeOrder h st1 = Inr (msg, st2)"
    and wf2: "include_wf st2" and l2: "include_list st2 = include_list st1" by blast
  from assms(4) have "BaseName (cfg_env cfg) f \<noteq> None"
    by (simp add: repository_known_def BaseName_def Split_def)
  then obtain b where b: "BaseName (cfg_env cfg) f = Some b" by blast
  from IsInAlphabeticalOrder_returns [OF assms(2,3)] obtain ord where
    ord: "IsInAlphabeticalOrder st2 (cl_elided c) (int n) (CanonicalizeAlphabeticalOrder i) = Inr ord" by blast
  show ?thesis
    unfolding check_include_order_def a(1) bind_run_simps h o prod.case b option.map Let_def ord
    using wf2 l2 by (cases "msg = []") (auto simp: include_wf_def SetLastHeader_def)
qed

lemma CheckIncludeLine_ok:
  assumes "include_wf st" "cl_wf c" "n < NumLines c" "repository_known cfg f"
  shows "\<exists>st' es. CheckIncludeLine cfg f c n st = Some (Inr (st', es)) \<and> include_wf st' \<and> calls_ok f es"
proof -
  have rec: "\<exists>st' es. record_include cfg f c n i s st = Some (Inr (st', es)) \<and> include_wf st' \<and> calls_ok f es" for i s
    using check_include_order_ok [OF assms, of i s] assms(1,4)
    by (cases "endswith i ''.cc''") (auto simp: record_include_def repository_run_def repository_known_def Let_def)
  show ?thesis
  proof (cases "re_search (rx RE_PATTERN_INCLUDE) (cl_lines c ! n)")
    case None
    then show ?thesis
      unfolding CheckIncludeLine_def cl_wf_nth [OF assms(2,3)] bind_run_simps Let_def
      using assms(1) by (auto split: option.splits)
  next
    case (Some m)
    from rec [of "grp m 2" "grp m 1 = ''<''"] obtain st' es where
      r: "record_include cfg f c n (grp m 2) (grp m 1 = ''<'') st = Some (Inr (st', es))" "include_wf st'" "calls_ok f es"
      by blast
    show ?thesis
      unfolding CheckIncludeLine_def cl_wf_nth [OF assms(2,3)] bind_run_simps Let_def Some option.case r(1) prod.case
      using r(2,3) by (auto split: option.splits)
  qed
qed

lemma FindHeader_new: "h \<notin> fst ` set (concat (include_list st)) \<Longrightarrow> FindHeader h st = -1"
proof -
  assume "h \<notin> fst ` set (concat (include_list st))"
  then have "find (\<lambda>f. fst f = h) (concat (include_list st)) = None" by (force simp: find_None_iff)
  then show ?thesis by (simp add: FindHeader_def)
qed

text \<open>
  C38: a header is recorded once. When a header that is not recorded is included and neither
  a source file nor excluded as third party, it is recorded at its line; including it again on
  any line, with the state of the includes kept, gives exactly one error, which names the
  first line, and leaves the state as it is.
\<close>

theorem duplicate_include_reported:
  assumes "include_wf st" "cl_wf c" "n < NumLines c" "repository_known cfg f"
    and new: "header \<notin> fst ` set (concat (include_list st))"
    and kind: "\<not> endswith header ''.cc''" "re_match (rx THIRD_PARTY_HEADERS_PATTERN) header = None"
  shows "\<exists>st' es. record_include cfg f c n header is_system st = Some (Inr (st', es)) \<and>
    FindHeader header st' = int n \<and>
    record_include cfg f c n' header is_system' st' =
      Some (Inr (st', [ErrorCall f (int n') ''build/include'' 4
        ([dquote] @ header @ [dquote] @ '' already included at '' @ f @ '':'' @ show_int (int n))]))"
proof -
  from check_include_order_ok [OF assms(1-4), of header is_system] obtain st1 st' es where
    r: "append_include header (int n) st = Inr st1" "include_list st' = include_list st1"
    "check_include_order cfg f c n header is_system st = Some (Inr (st', es))" by blast
  from FindHeader_append [OF r(1), of header] new r(2)
  have found1: "FindHeader header st' = int n" by (simp add: FindHeader_def)
  have "record_include cfg f c n header is_system st = Some (Inr (st', es))"
    using FindHeader_new [OF new] kind r(3) by (simp add: record_include_def Let_def)
  moreover have "record_include cfg f c n' header is_system' st' =
      Some (Inr (st', [ErrorCall f (int n') ''build/include'' 4
        ([dquote] @ header @ [dquote] @ '' already included at '' @ f @ '':'' @ show_int (int n))]))"
    by (simp add: record_include_def Let_def found1 dquote_def)
  ultimately show ?thesis using found1 by blast
qed

theorem duplicate_include_reported_witness:
  "\<exists>st' es. record_include (default_config \<lparr>getcwd = ''/w'', exists = (\<lambda>_. False)\<rparr>) ''a.cc''
       \<lparr>cl_elided = [[]], cl_lines = [[]], cl_raw_lines = [[]], cl_num_lines = 1, cl_lines_without_raw_strings = [[]]\<rparr>
       0 ''b/c.h'' False IncludeState_init = Some (Inr (st', es)) \<and> FindHeader ''b/c.h'' st' = 0"
proof -
  let ?cfg = "default_config \<lparr>getcwd = ''/w'', exists = (\<lambda>_. False)\<rparr>"
  let ?c = "\<lparr>cl_elided = [[]], cl_lines = [[]], cl_raw_lines = [[]], cl_num_lines = 1, cl_lines_without_raw_strings = [[]]\<rparr>"
  have h: "include_wf IncludeState_init" "cl_wf ?c" "0 < NumLines ?c" "repository_known ?cfg ''a.cc''"
    "''b/c.h'' \<notin> fst ` set (concat (include_list IncludeState_init))"
    by (rule include_wf_init, simp_all add: cl_wf_def NumLines_def repository_known_def RepositoryName_def
        default_config_def IncludeState_init_def)
  have k: "\<not> endswith ''b/c.h'' ''.cc''" "re_match (rx THIRD_PARTY_HEADERS_PATTERN) ''b/c.h'' = None" by code_simp+
  from duplicate_include_reported [OF h k, of False 5 False] show ?thesis by auto
qed

end
