(* ===== verification/Function_State.thy ===== *)
theory Function_State
  imports Regex_Semantics
begin

text \<open>
  Class \<open>_FunctionState\<close>: the function being read and the length of its body.
\<close>

section \<open>State and operations\<close>

record function_state =
  in_a_function :: bool
  lines_in_function :: nat
  current_function :: string

definition FunctionState_init :: function_state where
  "FunctionState_init =
     \<lparr>in_a_function = False, lines_in_function = 0, current_function = []\<rparr>"

definition Begin :: "string \<Rightarrow> function_state \<Rightarrow> function_state" where
  "Begin function_name st =
     st\<lparr>in_a_function := True, lines_in_function := 0, current_function := function_name\<rparr>"

definition Count :: "function_state \<Rightarrow> function_state" where
  "Count st = (if in_a_function st then st\<lparr>lines_in_function := lines_in_function st + 1\<rparr> else st)"

definition End :: "function_state \<Rightarrow> function_state" where
  "End st = st\<lparr>in_a_function := False\<rparr>"

definition NORMAL_TRIGGER :: nat where "NORMAL_TRIGGER = 250"

definition TEST_TRIGGER :: nat where "TEST_TRIGGER = 400"

definition base_trigger :: "string \<Rightarrow> nat" where
  "base_trigger function_name =
     (if Match ''T(EST|est)'' function_name \<noteq> None then TEST_TRIGGER else NORMAL_TRIGGER)"

text \<open>
  \<open>lines > base * 2**verbose\<close>, where \<open>2**verbose\<close> is a fraction for a negative level, and
  the value that \<open>%d\<close> prints for the right-hand side.
\<close>

definition exceeds :: "nat \<Rightarrow> nat \<Rightarrow> int \<Rightarrow> bool" where
  "exceeds n base v \<longleftrightarrow> (if 0 \<le> v then base * 2 ^ nat v < n else base < n * 2 ^ nat (- v))"

definition trigger :: "nat \<Rightarrow> int \<Rightarrow> nat" where
  "trigger base v = (if 0 \<le> v then base * 2 ^ nat v else base div 2 ^ nat (- v))"

text \<open>\<open>int(math.log(n, 2))\<close> for a positive \<open>n\<close>; \<open>math.log\<close> of zero raises.\<close>

fun log2 :: "nat \<Rightarrow> nat" where
  "log2 n = (if n \<le> 1 then 0 else Suc (log2 (n div 2)))"

declare log2.simps [simp del]

definition Check :: "int \<Rightarrow> string \<Rightarrow> int \<Rightarrow> function_state \<Rightarrow> effect list res" where
  "Check verbose filename linenum st =
     (if \<not> in_a_function st then Inr []
      else
        (let base = base_trigger (current_function st);
             n = lines_in_function st
         in if exceeds n base verbose then
              (if n div base = 0 then Inl (ValueError ''math domain error'')
               else
                 (let error_level = min 5 (log2 (n div base))
                  in Inr [ErrorCall filename linenum ''readability/fn_size'' (int error_level)
                       (''Small and focused functions are preferred: '' @ current_function st @
                        '' has '' @ show_nat n @ '' non-comment lines'' @
                        '' (error triggered by exceeding '' @ show_nat (trigger base verbose) @
                        '' lines).'')]))
            else Inr []))"

section \<open>Laws\<close>

lemma log2_bounds: "0 < n \<Longrightarrow> 2 ^ log2 n \<le> n \<and> n < 2 ^ Suc (log2 n)"
proof (induction n rule: log2.induct)
  case (1 n)
  show ?case
  proof (cases "n \<le> 1")
    case True
    with "1.prems" show ?thesis by (simp add: log2.simps)
  next
    case False
    then have "0 < n div 2" by simp
    with "1.IH" [OF False] have "2 ^ log2 (n div 2) \<le> n div 2 \<and> n div 2 < 2 ^ Suc (log2 (n div 2))"
      by blast
    with False show ?thesis by (auto simp: log2.simps [of n])
  qed
qed

lemma log2_mono: "2 ^ k \<le> n \<Longrightarrow> k \<le> log2 n"
proof (rule ccontr)
  assume "2 ^ k \<le> n" and "\<not> k \<le> log2 n"
  then have "Suc (log2 n) \<le> k" and pos: "0 < n"
    by (simp_all add: order_less_le_trans [of 0 "2 ^ k"])
  then have "(2::nat) ^ Suc (log2 n) \<le> 2 ^ k" by (intro power_increasing) simp_all
  with \<open>2 ^ k \<le> n\<close> log2_bounds [OF pos] show False by linarith
qed

lemma base_trigger_pos: "0 < base_trigger f"
  by (simp add: base_trigger_def TEST_TRIGGER_def NORMAL_TRIGGER_def)

lemma exceeds_level:
  assumes "0 \<le> v" and "exceeds n base v" and "0 < base"
  shows "0 < n div base \<and> nat v \<le> log2 (n div base)"
proof -
  from assms have "base * 2 ^ nat v \<le> n" by (simp add: exceeds_def)
  then have q: "2 ^ nat v \<le> n div base"
    using assms(3) by (simp add: less_eq_div_iff_mult_less_eq mult.commute)
  moreover have "(0::nat) < 2 ^ nat v" by simp
  ultimately have "0 < n div base" by linarith
  with q show ?thesis by (simp add: log2_mono)
qed

text \<open>A run of the counter over the lines of one function.\<close>

lemma Count_pow:
  "in_a_function st \<Longrightarrow> (Count ^^ n) st = st\<lparr>lines_in_function := lines_in_function st + n\<rparr>"
  by (induction n) (simp_all add: Count_def)

lemma Count_idle: "\<not> in_a_function st \<Longrightarrow> (Count ^^ n) st = st"
  by (induction n) (simp_all add: Count_def)

text \<open>
  C30: the function size check. For a function of \<open>n\<close> counted lines and a verbosity level of
  zero or more, \<open>Check\<close> never raises: it reports nothing up to \<open>base * 2 ^ verbose\<close> lines,
  base 250 or, for a test, 400, and one error above, of a level that is at most 5 and, as long
  as the verbosity is at most 5, at least the verbosity, so that the error is not dropped for
  its confidence.
\<close>

theorem function_size_check:
  assumes "0 \<le> verbose"
  shows "if n \<le> base_trigger f * 2 ^ nat verbose
    then Check verbose filename linenum ((Count ^^ n) (Begin f st)) = Inr []
    else \<exists>level message. Check verbose filename linenum ((Count ^^ n) (Begin f st)) =
        Inr [ErrorCall filename linenum ''readability/fn_size'' level message] \<and>
      min 5 verbose \<le> level \<and> level \<le> 5"
proof -
  let ?b = "base_trigger f"
  have st: "in_a_function ((Count ^^ n) (Begin f st))" "lines_in_function ((Count ^^ n) (Begin f st)) = n"
    "current_function ((Count ^^ n) (Begin f st)) = f"
    by (simp_all add: Count_pow Begin_def)
  show ?thesis
  proof (cases "n \<le> ?b * 2 ^ nat verbose")
    case True
    then have "\<not> exceeds n ?b verbose" using assms by (simp add: exceeds_def)
    with True st show ?thesis by (simp add: Check_def Let_def)
  next
    case False
    then have x: "exceeds n ?b verbose" using assms by (simp add: exceeds_def)
    from exceeds_level [OF assms x base_trigger_pos] have
      q: "0 < n div ?b" "nat verbose \<le> log2 (n div ?b)" by auto
    then have "min 5 verbose \<le> int (min 5 (log2 (n div ?b)))" by (auto simp: min_def)
    with False x q st show ?thesis by (auto simp: Check_def Let_def)
  qed
qed

theorem function_size_check_witness:
  "Check 0 ''f.cc'' 9 ((Count ^^ 250) (Begin ''f'' FunctionState_init)) = Inr []"
proof -
  have "base_trigger ''f'' = 250" by code_simp
  then show ?thesis using function_size_check [of 0 250 "''f''" "''f.cc''" 9 FunctionState_init] by simp
qed

end
