(* ===== verification/Language.thy ===== *)
theory Language
  imports Casts Includes Function_State
begin

text \<open>
  The remaining checks of a line: global strings, \<open>printf\<close>, integer types, arrays of variable
  length, the length of functions, \<open>virtual\<close> and \<open>override\<close>, features of C++11 and C++14,
  and \<open>CheckLanguage\<close>, which calls several of them and threads the state of the includes.
\<close>

section \<open>Text between brackets\<close>

definition matching_punctuation :: "char \<Rightarrow> char option" where
  "matching_punctuation c =
     (if c = CHR ''('' then Some CHR '')'' else if c = CHR ''{'' then Some CHR ''}''
      else if c = CHR ''['' then Some CHR '']'' else None)"

definition closing_punctuation :: "char \<Rightarrow> bool" where
  "closing_punctuation c \<longleftrightarrow> c \<in> {CHR '')'', CHR ''}'', CHR '']''}"

text \<open>
  The loop over the text from \<open>position\<close>, with the stack of the closing brackets expected:
  the position at which the stack is empty.
\<close>

fun punctuation_loop :: "string \<Rightarrow> string \<Rightarrow> nat \<Rightarrow> nat option" where
  "punctuation_loop [] text position = Some position"
| "punctuation_loop (p # ps) [] position = None"
| "punctuation_loop (p # ps) (c # cs) position =
     (if c = p then punctuation_loop ps cs (Suc position)
      else if closing_punctuation c then None
      else (case matching_punctuation c of
              Some d \<Rightarrow> punctuation_loop (d # p # ps) cs (Suc position)
            | None \<Rightarrow> punctuation_loop (p # ps) cs (Suc position)))"

definition GetTextInside :: "string \<Rightarrow> regex \<Rightarrow> string option res" where
  "GetTextInside text start_pattern =
     (case re_search start_pattern text of
        None \<Rightarrow> Inr None
      | Some m \<Rightarrow>
          (if m_end m = 0 then Inl AssertionError
           else case matching_punctuation (text ! (m_end m - 1)) of
             None \<Rightarrow> Inl AssertionError
           | Some d \<Rightarrow>
               (case punctuation_loop [d] (drop (m_end m) text) (m_end m) of
                  None \<Rightarrow> Inr None
                | Some position \<Rightarrow> Inr (Some (drop (m_end m) (take (position - 1) text))))))"

section \<open>Globals and printf\<close>

definition GLOBAL_STRING :: string where
  "GLOBAL_STRING = raw (''((?:|static +)(?:|const +))(?::*std::)?string( +const)? +'' @
     ''([a-zA-Z0-9_:]+)`b(.*)'')"

definition CheckGlobalStatic :: "string \<Rightarrow> cleansed_lines \<Rightarrow> nat \<Rightarrow> effect list res" where
  \<open>CheckGlobalStatic filename clean_lines linenum =
     bind_res (py_nth (cl_elided clean_lines) (int linenum)) (\<lambda>line0.
     bind_res (if linenum + 1 < NumLines clean_lines \<and> \<not> found (Search ''[;({]'' line0)
               then bind_res (py_nth (cl_elided clean_lines) (int (linenum + 1))) (\<lambda>next_line.
                      Inr (line0 @ strip next_line))
               else Inr line0) (\<lambda>line.
       Inr (
         (case Match GLOBAL_STRING line of
            None \<Rightarrow> []
          | Some m \<Rightarrow>
              if \<not> found (Search (raw ''`bstring`b(`s+const)?`s*[`*`&]`s*(const`s+)?`w'') line) \<and>
                 \<not> found (Search (raw ''`boperator`W'') line) \<and>
                 \<not> found (Match (raw ''`s*(<.*>)?(::[a-zA-Z0-9_]+)*`s*`(([^"]|$)'') (grp m 4))
              then [ErrorCall filename (int linenum) ''runtime/string'' 4
                      (if found (Search (raw ''`bconst`b'') line)
                       then ''For a static/global string constant, use a C style string '' @
                            ''instead: "'' @ grp m 1 @ ''char'' @ grp m 2 @ '' '' @ grp m 3 @ ''[]".''
                       else ''Static/global string variables are not permitted.'')]
              else []) @
         report (found (Search (raw ''`b([A-Za-z0-9_]*_)`(`1`)'') line) \<or>
                 found (Search (raw ''`b([A-Za-z0-9_]*_)`(CHECK_NOTNULL`(`1`)`)'') line))
           (ErrorCall filename (int linenum) ''runtime/init'' 4
             ''You seem to be initializing a member variable with itself.''))))\<close>

definition CheckPrintf :: "string \<Rightarrow> cleansed_lines \<Rightarrow> nat \<Rightarrow> effect list res" where
  "CheckPrintf filename clean_lines linenum =
     bind_res (py_nth (cl_elided clean_lines) (int linenum)) (\<lambda>line.
       Inr (
         (case Search (raw ''snprintf`s*`(([^,]*),`s*([0-9]*)`s*,'') line of
            None \<Rightarrow> []
          | Some m \<Rightarrow> report (grp m 2 \<noteq> ''0'')
              (ErrorCall filename (int linenum) ''runtime/printf'' 3
                (''If you can, use sizeof('' @ grp m 1 @ '') instead of '' @ grp m 2 @
                 '' as the 2nd arg '' @ ''to snprintf.''))) @
         report (found (Search (raw ''`bsprintf`s*`('') line))
           (ErrorCall filename (int linenum) ''runtime/printf'' 5 ''Never use sprintf. Use snprintf instead.'') @
         (case Search (raw ''`b(strcpy|strcat)`s*`('') line of
            None \<Rightarrow> []
          | Some m \<Rightarrow> [ErrorCall filename (int linenum) ''runtime/printf'' 4
              (''Almost always, snprintf is better than '' @ grp m 1)])))"

section \<open>The checks of CheckLanguage\<close>

definition PRINTF_CALL :: regex where
  "PRINTF_CALL = ignore_case (rx (raw ''`b(string)?printf`s*`(''))"

definition PRINTF_NAME :: regex where
  "PRINTF_NAME = ignore_case (rx (raw ''`b((?:string)?printf)`s*`(''))"

text \<open>A format string that is not a literal: \<open>printf(foo)\<close>.\<close>

definition check_printf_args :: "string \<Rightarrow> nat \<Rightarrow> string \<Rightarrow> effect list res" where
  \<open>check_printf_args filename linenum line =
     bind_res (GetTextInside line PRINTF_CALL) (\<lambda>printf_args.
       case printf_args of
         None \<Rightarrow> Inr []
       | Some args \<Rightarrow>
           if args = [] then Inr []
           else (case Match (raw ''([`w.`->()]+)$'') args of
                   None \<Rightarrow> Inr []
                 | Some m \<Rightarrow>
                     if grp m 1 = ''__VA_ARGS__'' then Inr []
                     else (case re_search PRINTF_NAME line of
                             None \<Rightarrow> Inl AttributeError
                           | Some fm \<Rightarrow> Inr [ErrorCall filename (int linenum) ''runtime/printf'' 4
                               (''Potential format string bug. Do '' @ grp fm 1 @ ''("%s", '' @ grp m 1 @
                                '') instead.'')])))\<close>

definition int_type_calls :: "string \<Rightarrow> nat \<Rightarrow> string \<Rightarrow> effect list" where
  \<open>int_type_calls filename linenum line =
     (if found (Search (raw ''`bshort port`b'') line) then
        report (\<not> found (Search (raw ''`bunsigned short port`b'') line))
          (ErrorCall filename (int linenum) ''runtime/int'' 4 ''Use "unsigned short" for ports, not "short"'')
      else (case Search (raw ''`b(short|long(?! +double)|long long)`b'') line of
              None \<Rightarrow> []
            | Some m \<Rightarrow> [ErrorCall filename (int linenum) ''runtime/int'' 4
                (''Use int16/int64/etc, rather than the C type '' @ grp m 1)]))\<close>

text \<open>\<open>re.split\<close>, for a pattern without groups.\<close>

function re_split_from :: "regex \<Rightarrow> string \<Rightarrow> cursor \<Rightarrow> string list" where
  "re_split_from r acc k =
     (if rest k = [] then [rev acc]
      else case matches r k [] of
        [] \<Rightarrow> re_split_from r (hd (rest k) # acc) (advance k)
      | kc # _ \<Rightarrow>
          if length (rest (fst kc)) < length (rest k)
          then rev acc # re_split_from r [] (fst kc)
          else re_split_from r (hd (rest k) # acc) (advance k))"
  by pat_completeness auto
termination
  by (relation "measure (\<lambda>(r, acc, k). length (rest k))") (auto simp: advance_def split: list.splits)

declare re_split_from.simps [simp del]

definition SIZE_SEPARATOR :: string where
  "SIZE_SEPARATOR = raw ''`s|`+|`-|`*|`/|<<|>>]''"

text \<open>The loop over the tokens of the size of an array: is the size a constant?\<close>

fun constant_size :: "string list \<Rightarrow> bool \<Rightarrow> bool" where
  "constant_size [] skip_next = True"
| "constant_size (tok # toks) skip_next =
     (if skip_next then constant_size toks False
      else if found (Search (raw ''sizeof`(.+`)'') tok) then constant_size toks False
      else if found (Search (raw ''arraysize`(`w+`)'') tok) then constant_size toks False
      else
        (let tok = rstrip_by ((=) CHR '')'') (lstrip_by ((=) CHR ''('') tok)
         in if tok = [] then constant_size toks False
            else if found (Match (raw ''`d+'') tok) then constant_size toks False
            else if found (Match (raw ''0[xX][0-9a-fA-F]+'') tok) then constant_size toks False
            else if found (Match (raw ''k[A-Z0-9]`w*'') tok) then constant_size toks False
            else if found (Match (raw ''(.+::)?k[A-Z0-9]`w*'') tok) then constant_size toks False
            else if found (Match (raw ''(.+::)?[A-Z][A-Z0-9_]*'') tok) then constant_size toks False
            else if startswith tok ''sizeof'' then constant_size toks True
            else False))"

definition array_calls :: "string \<Rightarrow> nat \<Rightarrow> string \<Rightarrow> effect list" where
  "array_calls filename linenum line =
     (case Match (raw ''`s*(.+::)?(`w+) [a-z]`w*`[(.+)];'') line of
        None \<Rightarrow> []
      | Some m \<Rightarrow>
          report (grp m 2 \<noteq> ''return'' \<and> grp m 2 \<noteq> ''delete'' \<and> str_find (grp m 3) '']'' = None \<and>
                  \<not> constant_size (re_split_from (rx SIZE_SEPARATOR) [] (start_cursor (grp m 3))) False)
            (ErrorCall filename (int linenum) ''runtime/arrays'' 1
              (''Do not use variable-length arrays.  Use an appropriately named '' @
               ''('' @ [squote] @ ''k'' @ [squote] @ '' followed by CamelCase) compile-time constant for the size.'')))"

definition language_calls :: "string \<Rightarrow> nat \<Rightarrow> string \<Rightarrow> effect list" where
  \<open>language_calls filename linenum line =
     (case Search (raw ''memset`s*`(([^,]*),`s*([^,]*),`s*0`s*`)'') line of
        None \<Rightarrow> []
      | Some m \<Rightarrow>
          report (\<not> found (Match (''^'' @ [squote, squote] @ ''|-?[0-9]+|0x[0-9A-Fa-f]$'') (grp m 2)))
            (ErrorCall filename (int linenum) ''runtime/memset'' 4
              (''Did you mean "memset('' @ grp m 1 @ '', 0, '' @ grp m 2 @ '')"?''))) @
     report (found (Search (raw ''`busing namespace`b'') line))
       (ErrorCall filename (int linenum) ''build/namespaces'' 5
         (''Do not use namespace using-directives.  '' @ ''Use using-declarations instead.'')) @
     array_calls filename linenum line\<close>

definition operator_calls :: "string \<Rightarrow> nat \<Rightarrow> string \<Rightarrow> effect list" where
  \<open>operator_calls filename linenum line =
     report (found (Search (raw ''`boperator`s*&`s*`(`s*`)'') line))
       (ErrorCall filename (int linenum) ''runtime/operator'' 4
         ''Unary operator& is dangerous.  Do not use it.'') @
     report (found (Search (raw ''`}`s*if`s*`('') line))
       (ErrorCall filename (int linenum) ''readability/braces'' 4
         ''Did you mean "else if"? If not, start a new line for "if".'')\<close>

definition unnamed_namespace_calls :: "lint_config \<Rightarrow> string \<Rightarrow> nat \<Rightarrow> string \<Rightarrow> string \<Rightarrow> effect list" where
  "unnamed_namespace_calls cfg filename linenum file_extension line =
     report (IsHeaderExtension cfg file_extension \<and> found (Search (raw ''`bnamespace`s*{'') line) \<and>
             last line \<noteq> backslash)
       (ErrorCall filename (int linenum) ''build/namespaces'' 4
         (''Do not use unnamed namespaces in header files.  See '' @
          ''https://google-styleguide.googlecode.com/svn/trunk/cppguide.xml#Namespaces'' @
          '' for more information.''))"

text \<open>
  \<open>CheckLanguage\<close> on a line that is not an include. The absolute path of the file is computed
  there too, and not used.
\<close>

definition language_line ::
  "lint_config \<Rightarrow> string \<Rightarrow> cleansed_lines \<Rightarrow> nat \<Rightarrow> string \<Rightarrow> string \<Rightarrow> effect list res" where
  "language_line cfg filename clean_lines linenum file_extension line =
     effects [
       CheckCasts filename clean_lines linenum,
       CheckGlobalStatic filename clean_lines linenum,
       CheckPrintf filename clean_lines linenum,
       Inr (int_type_calls filename linenum line),
       Inr (operator_calls filename linenum line),
       check_printf_args filename linenum line,
       Inr (language_calls filename linenum line),
       Inr (unnamed_namespace_calls cfg filename linenum file_extension line)]"

definition CheckLanguage ::
  "lint_config \<Rightarrow> string \<Rightarrow> cleansed_lines \<Rightarrow> nat \<Rightarrow> string \<Rightarrow> include_state \<Rightarrow>
    (include_state \<times> effect list) run" where
  "CheckLanguage cfg filename clean_lines linenum file_extension st =
     bind_run (Some (py_nth (cl_elided clean_lines) (int linenum))) (\<lambda>line.
       if line = [] then Some (Inr (st, []))
       else if found (re_search (rx RE_PATTERN_INCLUDE) line)
       then CheckIncludeLine cfg filename clean_lines linenum st
       else Some (
         bind_res (case Match (raw ''^`s*#`s*(if|ifdef|ifndef|elif|else|endif)`b'') line of
                     None \<Rightarrow> Inr st
                   | Some m \<Rightarrow> ResetSection (grp m 1) st) (\<lambda>st.
         bind_res (language_line cfg filename clean_lines linenum file_extension line) (\<lambda>es.
           Inr (st, es)))))"

section \<open>Function lengths\<close>

text \<open>The search for the start of the body: the text joined up to the line that decides.\<close>

datatype body_search = NoBody | Declaration | Body string

fun body_loop :: "string list \<Rightarrow> string \<Rightarrow> body_search" where
  "body_loop [] joined_line = NoBody"
| "body_loop (start_line # ls) joined_line =
     (let joined_line = joined_line @ '' '' @ lstrip start_line
      in if found (Search ''(;|})'' start_line) then Declaration
         else if found (Search ''{'' start_line) then Body joined_line
         else body_loop ls joined_line)"

definition FUNCTION_START :: string where
  "FUNCTION_START = raw ''(`w(`w|::|`*|`&|`s)*)`(''"

definition starting_func :: "string \<Rightarrow> bool res" where
  "starting_func line =
     (case Match FUNCTION_START line of
        None \<Rightarrow> Inr False
      | Some m \<Rightarrow>
          bind_res (py_nth (split_ws (grp m 1)) (-1)) (\<lambda>function_name.
            Inr (function_name = ''TEST'' \<or> function_name = ''TEST_F'' \<or>
                 \<not> found (Match (raw ''[A-Z_]+$'') function_name))))"

definition function_title :: "string \<Rightarrow> string \<Rightarrow> string res" where
  "function_title line joined_line =
     (case Search (raw ''((`w|:)*)`('') line of
        None \<Rightarrow> Inl AttributeError
      | Some m \<Rightarrow>
          if found (Match ''TEST'' (grp m 1))
          then (case Search (raw ''(`(.*`))'') joined_line of
                  Some p \<Rightarrow> Inr (grp m 1 @ grp p 1)
                | None \<Rightarrow> Inr (grp m 1))
          else Inr (grp m 1 @ ''()''))"

definition CheckForFunctionLengths ::
  "int \<Rightarrow> string \<Rightarrow> cleansed_lines \<Rightarrow> nat \<Rightarrow> function_state \<Rightarrow> (function_state \<times> effect list) res" where
  "CheckForFunctionLengths verbose filename clean_lines linenum st =
     bind_res (py_nth (cl_lines clean_lines) (int linenum)) (\<lambda>line.
     bind_res (starting_func line) (\<lambda>starting.
       if starting then
         (case body_loop (drop linenum (take (NumLines clean_lines) (cl_lines clean_lines))) [] of
            NoBody \<Rightarrow> Inr (st, [ErrorCall filename (int linenum) ''readability/fn_size'' 5
                        ''Lint failed to find start of function body.''])
          | Declaration \<Rightarrow> Inr (st, [])
          | Body joined_line \<Rightarrow>
              bind_res (function_title line joined_line) (\<lambda>function_name. Inr (Begin function_name st, [])))
       else if found (Match (raw ''^`}`s*$'') line) then
         bind_res (Check verbose filename (int linenum) st) (\<lambda>es. Inr (End st, es))
       else if \<not> found (Match (raw ''^`s*$'') line) then Inr (Count st, [])
       else Inr (st, [])))"

section \<open>Inheritance and library features\<close>

definition CheckMakePairUsesDeduction :: "string \<Rightarrow> cleansed_lines \<Rightarrow> nat \<Rightarrow> effect list res" where
  "CheckMakePairUsesDeduction filename clean_lines linenum =
     bind_res (py_nth (cl_elided clean_lines) (int linenum)) (\<lambda>line.
       Inr (report (found (re_search (rx (raw ''`bmake_pair`s*<'')) line))
         (ErrorCall filename (int linenum) ''build/explicit_make_pair'' 4
           (''For C++11-compatibility, omit template arguments from make_pair'' @
            '' OR use pair directly OR if appropriate, construct a pair directly''))))"

text \<open>The end of the parameter list that opens on one of the lines, or \<open>(-1, -1)\<close>.\<close>

fun parameter_list_end :: "string list \<Rightarrow> nat \<Rightarrow> nat list \<Rightarrow> (int \<times> int) res" where
  "parameter_list_end elided start_col [] = Inr (-1, -1)"
| "parameter_list_end elided start_col (start_line # is) =
     bind_res (py_nth elided (int start_line)) (\<lambda>text.
       case Match (raw ''^([^(]*)`('') (drop start_col text) of
         Some m \<Rightarrow>
           bind_res (CloseExpression elided start_line (start_col + length (grp m 1)))
             (\<lambda>(_, end_line, end_col). Inr (int end_line, end_col))
       | None \<Rightarrow> parameter_list_end elided 0 is)"

fun override_loop :: "string \<Rightarrow> nat \<Rightarrow> string list \<Rightarrow> nat \<Rightarrow> nat list \<Rightarrow> effect list res" where
  "override_loop filename linenum elided end_col [] = Inr []"
| \<open>override_loop filename linenum elided end_col (i # is) =
     bind_res (py_nth elided (int i)) (\<lambda>text.
       let line = drop end_col text;
           es = (case Search (raw ''`b(override|final)`b'') line of
                   None \<Rightarrow> []
                 | Some m \<Rightarrow> [ErrorCall filename (int linenum) ''readability/inheritance'' 4
                     (''"virtual" is redundant since function is '' @
                      ''already declared as "'' @ grp m 1 @ ''"'')])
       in if found (Search (raw ''[^`w]`s*$'') line) then Inr es
          else bind_res (override_loop filename linenum elided 0 is) (\<lambda>es'. Inr (es @ es')))\<close>

definition CheckRedundantVirtual :: "string \<Rightarrow> cleansed_lines \<Rightarrow> nat \<Rightarrow> effect list res" where
  "CheckRedundantVirtual filename clean_lines linenum =
     bind_res (py_nth (cl_elided clean_lines) (int linenum)) (\<lambda>line.
       case Match (raw ''^(.*)(`bvirtual`b)(.*)$'') line of
         None \<Rightarrow> Inr []
       | Some virtual \<Rightarrow>
           if found (Search (raw ''`b(public|protected|private)`s+$'') (grp virtual 1)) \<or>
              found (Match (raw ''^`s+(public|protected|private)`b'') (grp virtual 3))
           then Inr []
           else if found (Match (raw ''^.*[^:]:[^:].*$'') line) then Inr []
           else bind_res (parameter_list_end (cl_elided clean_lines) (length (grp virtual 2))
                  [linenum..<min (linenum + 3) (NumLines clean_lines)]) (\<lambda>(end_line, end_col).
             if end_col < 0 then Inr []
             else override_loop filename linenum (cl_elided clean_lines) (nat end_col)
                    [nat end_line..<min (nat end_line + 3) (NumLines clean_lines)]))"

definition CheckRedundantOverrideOrFinal :: "string \<Rightarrow> cleansed_lines \<Rightarrow> nat \<Rightarrow> effect list res" where
  \<open>CheckRedundantOverrideOrFinal filename clean_lines linenum =
     bind_res (py_nth (cl_elided clean_lines) (int linenum)) (\<lambda>line.
     bind_res (case rfind_char CHR '')'' line of
                 Some declarator_end \<Rightarrow> Inr (Some (drop declarator_end line))
               | None \<Rightarrow>
                   if 1 < linenum then
                     bind_res (py_nth (cl_elided clean_lines) (int (linenum - 1))) (\<lambda>before.
                       Inr (if rfind_char CHR '')'' before \<noteq> None then Some line else None))
                   else Inr None) (\<lambda>fragment.
       Inr (case fragment of
              None \<Rightarrow> []
            | Some text \<Rightarrow>
                report (found (Search (raw ''`boverride`b'') text) \<and> found (Search (raw ''`bfinal`b'') text))
                  (ErrorCall filename (int linenum) ''readability/inheritance'' 4
                    (''"override" is redundant since function is '' @ ''already declared as "final"'')))))\<close>

definition INCLUDE_PATTERN :: string where
  \<open>INCLUDE_PATTERN = raw ''`s*#`s*include`s+[<"]([^<"]+)[">]''\<close>

definition FlagCxx11Features :: "string \<Rightarrow> cleansed_lines \<Rightarrow> nat \<Rightarrow> effect list res" where
  "FlagCxx11Features filename clean_lines linenum =
     bind_res (py_nth (cl_elided clean_lines) (int linenum)) (\<lambda>line.
       Inr (
         (case Match INCLUDE_PATTERN line of
            None \<Rightarrow> []
          | Some include \<Rightarrow>
              report (startswith (grp include 1) ''tr1/'')
                (ErrorCall filename (int linenum) ''build/c++tr1'' 5
                  (''C++ TR1 headers such as <'' @ grp include 1 @ ''> are unapproved.'')) @
              report (grp include 1 \<in> {''cfenv'', ''condition_variable'', ''fenv.h'', ''future'', ''mutex'',
                  ''thread'', ''chrono'', ''ratio'', ''regex'', ''system_error''})
                (ErrorCall filename (int linenum) ''build/c++11'' 5
                  (''<'' @ grp include 1 @ ''> is an unapproved C++11 header.''))) @
         (if found (Match (raw ''`s*#'') line) \<and> \<not> found (Match (raw ''`s*#`s*define`b'') line) then []
          else concat (map (\<lambda>top_name.
            report (found (Search (raw ''`bstd::'' @ top_name @ raw ''`b'') line))
              (ErrorCall filename (int linenum) ''build/c++11'' 5
                (''std::'' @ top_name @ '' is an unapproved C++11 class or function.  Send c-style '' @
                 ''an example of where it would make your code more readable, and '' @
                 ''they may let you use it.'')))
            [''alignment_of'', ''aligned_union'']))))"

definition FlagCxx14Features :: "string \<Rightarrow> cleansed_lines \<Rightarrow> nat \<Rightarrow> effect list res" where
  "FlagCxx14Features filename clean_lines linenum =
     bind_res (py_nth (cl_elided clean_lines) (int linenum)) (\<lambda>line.
       Inr (case Match INCLUDE_PATTERN line of
              None \<Rightarrow> []
            | Some include \<Rightarrow>
                report (grp include 1 \<in> {''scoped_allocator'', ''shared_mutex''})
                  (ErrorCall filename (int linenum) ''build/c++14'' 5
                    (''<'' @ grp include 1 @ ''> is an unapproved C++14 header.''))))"

section \<open>The contract\<close>

lemma printf_regexes:
  "no_backref PRINTF_CALL" "no_backref PRINTF_NAME"
  "parts (ungroup PRINTF_CALL) = parts (ungroup PRINTF_NAME)"
  "parts (ungroup PRINTF_CALL) = butlast (parts (ungroup PRINTF_CALL)) @ [Class False [Lit CHR ''('', Lit CHR ''('']]"
  by code_simp+

lemma check_printf_args_ok: "check_ok f (check_printf_args f n line)"
proof (cases "re_search PRINTF_CALL line")
  case None
  then show ?thesis by (simp add: check_printf_args_def GetTextInside_def)
next
  case (Some m)
  from re_search_rel [OF printf_regexes(1) Some] obtain k k' where
    k: "reach (start_cursor line) k" "reach k k'" "(k, k') \<in> rx_rel PRINTF_CALL" "m_end m = pos k'" by blast
  from ends_with_char [OF printf_regexes(1) k(3,1,2) printf_regexes(4)] k(4)
  have e: "0 < m_end m" "line ! (m_end m - 1) = CHR ''(''" by (auto simp: class_has_def)
  from k(3) have "k \<in> Domain (rx_rel PRINTF_NAME)"
    unfolding parts_rel [of PRINTF_CALL] printf_regexes(3) parts_rel [of PRINTF_NAME] by blast
  from re_search_found [OF printf_regexes(2) k(1) this] obtain fm where
    fm: "re_search PRINTF_NAME line = Some fm" by blast
  show ?thesis
    unfolding check_printf_args_def GetTextInside_def Some fm option.case e(2)
    using e(1) by (simp add: matching_punctuation_def split: option.splits)
qed

lemma function_patterns:
  "no_backref (rx FUNCTION_START)" "no_backref (rx (raw ''((`w|:)*)`(''))"
  "parts (ungroup (rx FUNCTION_START)) = butlast (parts (ungroup (rx FUNCTION_START))) @ [Class False [Lit CHR ''('']]"
  "parts (ungroup (rx (raw ''((`w|:)*)`(''))) = [Star True (Group 2 (Alt (Class False [Word]) (Class False [Lit CHR '':'']))), Class False [Lit CHR ''(''] ]"
  by code_simp+

lemma function_title_returns:
  assumes "Match FUNCTION_START line = Some m"
  shows "\<exists>t. function_title line joined = Inr t"
proof -
  from re_search_rel [OF function_patterns(1) re_match_search [OF assms [unfolded Match_def]]] obtain k k' where
    k: "reach (start_cursor line) k" "reach k k'" "(k, k') \<in> rx_rel (rx FUNCTION_START)" by blast
  from ends_with_char [OF function_patterns(1) k(3,1,2) function_patterns(3)]
  obtain i where i: "i < length line" "line ! i = CHR ''(''" by (cases "pos k'") (auto simp: class_has_def Suc_le_eq)
  let ?k = "cursor_at line i"
  have "rest ?k = CHR ''('' # drop (Suc i) line"
    using Cons_nth_drop_Suc [OF i(1)] i(2) by (simp add: cursor_at_def)
  from char_relI [OF this, of "class_has False [Lit CHR ''('']"]
  have "?k \<in> Domain (rx_rel (rx (raw ''((`w|:)*)`('')))"
    unfolding parts_rel [of "rx (raw ''((`w|:)*)`('')"] function_patterns(4) by (auto simp: class_has_def)
  from re_search_found [OF function_patterns(2) reach_cursor_at this] i(1) show ?thesis
    by (auto simp: function_title_def Search_def split: option.splits)
qed

lemma CheckGlobalStatic_safe: "check_safe f (CheckGlobalStatic f c n)"
  unfolding CheckGlobalStatic_def
  by (intro check_safe_bind index_only_nth) (auto intro!: index_only_rules split: option.splits)

lemma CheckPrintf_safe: "check_safe f (CheckPrintf f c n)"
  unfolding CheckPrintf_def by (intro check_safe_bind index_only_nth) (simp split: option.splits)

lemma language_calls_ok:
  "calls_ok f (int_type_calls f n line)" "calls_ok f (operator_calls f n line)"
  "calls_ok f (language_calls f n line)" "calls_ok f (unnamed_namespace_calls cfg f n ext line)"
  by (simp_all add: int_type_calls_def operator_calls_def language_calls_def array_calls_def
      unnamed_namespace_calls_def split: option.splits)

lemma language_line_safe: "check_safe f (language_line cfg f c n ext line)"
  unfolding language_line_def
  by (rule check_safe_effects)
    (auto simp: CheckCasts_safe CheckGlobalStatic_safe CheckPrintf_safe language_calls_ok
      check_ok_safe [OF check_printf_args_ok])

lemma CheckLanguage_safe:
  assumes "include_wf st" "cl_wf c" "n < NumLines c" "repository_known cfg f"
  shows "CheckLanguage cfg f c n ext st = Some (Inl IndexError) \<or>
    (\<exists>st' es. CheckLanguage cfg f c n ext st = Some (Inr (st', es)) \<and> include_wf st' \<and> calls_ok f es)"
proof -
  let ?line = "cl_elided c ! n"
  let ?reset = "case Match (raw ''^`s*#`s*(if|ifdef|ifndef|elif|else|endif)`b'') ?line of
      None \<Rightarrow> Inr st | Some m \<Rightarrow> ResetSection (grp m 1) st"
  have "\<exists>st'. ?reset = Inr st' \<and> include_wf st'"
    using ResetSection_wf [OF assms(1)] assms(1) by (auto split: option.splits)
  then obtain st' where st': "?reset = Inr st'" "include_wf st'" by blast
  show ?thesis
  proof (cases "?line = [] \<or> found (re_search (rx RE_PATTERN_INCLUDE) ?line)")
    case True
    with CheckIncludeLine_ok [OF assms] assms(1) show ?thesis
      unfolding CheckLanguage_def cl_wf_nth [OF assms(2,3)] bind_run_simps by auto
  next
    case False
    then show ?thesis
      unfolding CheckLanguage_def cl_wf_nth [OF assms(2,3)] bind_run_simps st'(1)
      using language_line_safe [of f cfg c n ext ?line] st'(2)
      by (cases "language_line cfg f c n ext ?line") auto
  qed
qed

lemma Check_safe: "0 \<le> verbose \<Longrightarrow> check_ok f (Check verbose f n st)"
  using exceeds_level [of verbose "lines_in_function st" "base_trigger (current_function st)"]
  by (auto simp: Check_def Let_def base_trigger_pos)

lemma CheckForFunctionLengths_safe:
  assumes "0 \<le> verbose"
  shows "CheckForFunctionLengths verbose f c n st = Inl IndexError \<or>
    (\<exists>st' es. CheckForFunctionLengths verbose f c n st = Inr (st', es) \<and> calls_ok f es)"
proof (cases "py_nth (cl_lines c) (int n)")
  case (Inl e)
  with index_only_nth [of "cl_lines c" "int n"] show ?thesis by (simp add: CheckForFunctionLengths_def)
next
  case (Inr line)
  show ?thesis
  proof (cases "starting_func line")
    case (Inl e)
    with index_only_nth have "e = IndexError"
      unfolding starting_func_def by (auto simp: py_nth_def bind_res_def split: option.splits if_splits)
    with Inl \<open>py_nth _ _ = Inr line\<close> show ?thesis by (simp add: CheckForFunctionLengths_def)
  next
    case (Inr starting)
    then have "starting \<Longrightarrow> \<exists>m. Match FUNCTION_START line = Some m"
      by (auto simp: starting_func_def split: option.splits)
    with function_title_returns [of line] have t: "starting \<Longrightarrow> \<exists>t. function_title line j = Inr t" for j by blast
    from Check_safe [OF assms, of f "int n" st] obtain es where
      es: "Check verbose f (int n) st = Inr es" "calls_ok f es" by (auto simp: check_ok_def)
    note d = CheckForFunctionLengths_def \<open>py_nth _ _ = Inr line\<close> Inr bind_res_simps es(1)
    show ?thesis
    proof (cases "body_loop (drop n (take (NumLines c) (cl_lines c))) []")
      case (Body j)
      from t [of j] obtain ti where "starting \<Longrightarrow> function_title line j = Inr ti" by blast
      then show ?thesis unfolding d Body using es(2) by auto
    qed (unfold d, use es(2) in auto)
  qed
qed

lemma parameter_list_end_raises: "index_only (parameter_list_end elided col is)"
proof (induction "is" arbitrary: col)
  case (Cons i "is")
  show ?case unfolding parameter_list_end.simps
    by (intro index_only_rules) (auto intro!: index_only_rules Cons split: option.splits)
qed simp

lemma override_loop_safe: "check_safe f (override_loop f n elided col is)"
proof (induction "is" arbitrary: col)
  case (Cons i "is")
  from Cons [of 0] show ?case unfolding override_loop.simps Let_def
    by (intro check_safe_bind index_only_nth; cases "override_loop f n elided 0 is") (auto split: option.splits)
qed simp

lemma inheritance_safe:
  "check_safe f (CheckMakePairUsesDeduction f c n)" "check_safe f (CheckRedundantVirtual f c n)"
  "check_safe f (CheckRedundantOverrideOrFinal f c n)"
  unfolding CheckMakePairUsesDeduction_def CheckRedundantVirtual_def CheckRedundantOverrideOrFinal_def
  by (auto intro!: check_safe_bind index_only_rules parameter_list_end_raises override_loop_safe
      split: option.splits)

lemma FlagCxx_ok:
  assumes "cl_wf c" "n < NumLines c"
  shows "check_ok f (FlagCxx11Features f c n)" "check_ok f (FlagCxx14Features f c n)"
  unfolding FlagCxx11Features_def FlagCxx14Features_def cl_wf_nth [OF assms] bind_res_simps
  by (simp_all split: option.splits)

section \<open>The text inside\<close>

text \<open>The loop is the stack machine of the scanners, with the closing brackets on its stack.\<close>

lemma punctuation_scan:
  assumes "stk \<noteq> []" "list_all is_open stk"
  shows "punctuation_loop (map (\<lambda>a. the (matching_punctuation a)) stk) w i =
    (case bscan is_open is_close closes i w stk of Found e \<Rightarrow> Some e | _ \<Rightarrow> None)"
  using assms
proof (induction w arbitrary: i stk)
  case Nil
  then show ?case by (cases stk) simp_all
next
  case (Cons c w)
  then obtain a st where st: "stk = a # st" "is_open a" "list_all is_open st" by (cases stk) auto
  have pop: "c = the (matching_punctuation a) \<longleftrightarrow> closes a c" "closing_punctuation c = is_close c"
    using st(2) by (auto simp: is_open_def is_close_def closes_def matching_punctuation_def closing_punctuation_def)
  have push: "(matching_punctuation c \<noteq> None) = is_open c" "closes a c \<Longrightarrow> is_close c" "is_open c \<Longrightarrow> \<not> is_close c"
    by (auto simp: is_open_def is_close_def closes_def matching_punctuation_def)
  show ?case
  proof (cases "is_open c")
    case True
    with push(1) obtain d where d: "matching_punctuation c = Some d" by auto
    from Cons.IH [of "c # stk" "Suc i"] True st d push pop show ?thesis by auto
  next
    case False
    with push(1) have n: "matching_punctuation c = None" by simp
    show ?thesis
    proof (cases "is_close c")
      case True
      with Cons.IH [of st "Suc i"] False st pop push show ?thesis by (cases st) auto
    next
      case no: False
      with Cons.IH [of stk "Suc i"] False st n pop push show ?thesis by auto
    qed
  qed
qed

text \<open>
  C6: the text inside brackets. Where the start pattern matches and ends with an opening
  bracket, \<open>_GetTextInside\<close> returns, and it returns a text exactly if this is balanced and
  the closing bracket of the start follows it: whatever brackets the text nests, and of the
  three kinds. Otherwise the result is \<open>None\<close>.
\<close>

theorem text_inside_correct:
  assumes "re_search start_pattern text = Some m" "0 < m_end m" "is_open (text ! (m_end m - 1))"
  shows "\<exists>result. GetTextInside text start_pattern = Inr result \<and>
    (\<forall>t. result = Some t \<longleftrightarrow>
      (\<exists>b v. drop (m_end m) text = t @ b # v \<and> balanced_text t \<and> closes (text ! (m_end m - 1)) b))"
proof -
  let ?a = "text ! (m_end m - 1)" and ?w = "drop (m_end m) text"
  from assms(3) obtain d where d: "matching_punctuation ?a = Some d"
    by (auto simp: is_open_def matching_punctuation_def)
  let ?p = "punctuation_loop [d] ?w (m_end m)"
  have "?p = (case bscan is_open is_close closes (m_end m) ?w [?a] of Found e \<Rightarrow> Some e | _ \<Rightarrow> None)"
    using punctuation_scan [of "[?a]" ?w "m_end m"] assms(3) d by simp
  moreover have "bscan is_open is_close closes (m_end m) ?w [?a] =
      bscan is_open is_close closes (m_end m - 1) (?a # ?w) []"
    using assms(2,3) by simp
  ultimately have q: "?p = (case bscan is_open is_close closes (m_end m - 1) (?a # ?w) [] of
      Found e \<Rightarrow> Some e | _ \<Rightarrow> None)" by (simp only:)
  have "?p = Some e \<longleftrightarrow> bscan is_open is_close closes (m_end m - 1) (?a # ?w) [] = Found e" for e
    unfolding q by (cases "bscan is_open is_close closes (m_end m - 1) (?a # ?w) []") (simp_all only: scan.case scan.simps option.simps)
  moreover have "m_end m - 1 + k + 2 = m_end m + k + 1" for k using assms(2) by simp
  ultimately have p: "?p = Some e \<longleftrightarrow>
      (\<exists>u b v. ?w = u @ b # v \<and> balanced_text u \<and> closes ?a b \<and> e = m_end m + length u + 1)" for e
    using fwd.bscan_expression [OF assms(3), of "m_end m - 1" ?w e] by (simp only:)
  have g: "GetTextInside text start_pattern =
      Inr (map_option (\<lambda>position. drop (m_end m) (take (position - 1) text)) ?p)"
    using assms(1,2) d by (cases ?p) (simp_all add: GetTextInside_def)
  have t: "drop (m_end m) (take (m_end m + length u + 1 - 1) text) = u" if "?w = u @ v" for u v
    using that by (simp add: drop_take)
  show ?thesis
  proof (rule exI, rule conjI [OF g], intro allI iffI)
    fix t0 assume "map_option (\<lambda>position. drop (m_end m) (take (position - 1) text)) ?p = Some t0"
    then obtain e where "?p = Some e" "t0 = drop (m_end m) (take (e - 1) text)" by auto
    with p [of e] t show "\<exists>b v. ?w = t0 @ b # v \<and> balanced_text t0 \<and> closes ?a b" by auto
  next
    fix t0 assume "\<exists>b v. ?w = t0 @ b # v \<and> balanced_text t0 \<and> closes ?a b"
    then obtain b v where w: "?w = t0 @ b # v" "balanced_text t0" "closes ?a b" by blast
    then have "?p = Some (m_end m + length t0 + 1)" using p by blast
    with t [OF w(1)] show "map_option (\<lambda>position. drop (m_end m) (take (position - 1) text)) ?p = Some t0" by simp
  qed
qed

theorem text_inside_correct_witness:
  "\<exists>result. GetTextInside ''  printf(a(), b[c]);'' PRINTF_CALL = Inr result \<and>
     (\<exists>b v. ''a(), b[c]);'' = ''a(), b[c]'' @ b # v) \<and> result = Some ''a(), b[c]''"
proof -
  let ?s = "''  printf(a(), b[c]);''"
  have "\<exists>m. re_search PRINTF_CALL ?s = Some m \<and> m_end m = 9"
    by (rule exI [of _ "the (re_search PRINTF_CALL ?s)"]) code_simp
  then obtain m where m: "re_search PRINTF_CALL ?s = Some m" "m_end m = 9" by blast
  have e: "GetTextInside ?s PRINTF_CALL = Inr (Some ''a(), b[c]'')" by code_simp
  have "is_open (?s ! (m_end m - 1))" unfolding m(2) by code_simp
  with text_inside_correct [OF m(1)] m(2) e show ?thesis by auto
qed

end
