(* ===== verification/Include_Use.thy ===== *)
theory Include_Use
  imports Includes "HOL-Library.AList"
begin

text \<open>
  Include what you use: the headers that a file needs for the templates and functions of the
  standard library that it mentions, the includes of the header of the same module, and the
  report of what is missing.
\<close>

section \<open>Tables\<close>

definition HEADERS_CONTAINING_TEMPLATES :: "(string \<times> string list) list" where
  "HEADERS_CONTAINING_TEMPLATES = [
    (''<deque>'', [''deque'']),
    (''<functional>'', [''unary_function'', ''binary_function'',
      ''plus'', ''minus'', ''multiplies'', ''divides'', ''modulus'',
      ''negate'',
      ''equal_to'', ''not_equal_to'', ''greater'', ''less'',
      ''greater_equal'', ''less_equal'',
      ''logical_and'', ''logical_or'', ''logical_not'',
      ''unary_negate'', ''not1'', ''binary_negate'', ''not2'',
      ''bind1st'', ''bind2nd'',
      ''pointer_to_unary_function'',
      ''pointer_to_binary_function'',
      ''ptr_fun'',
      ''mem_fun_t'', ''mem_fun'', ''mem_fun1_t'', ''mem_fun1_ref_t'',
      ''mem_fun_ref_t'',
      ''const_mem_fun_t'', ''const_mem_fun1_t'',
      ''const_mem_fun_ref_t'', ''const_mem_fun1_ref_t'',
      ''mem_fun_ref'']),
    (''<limits>'', [''numeric_limits'']),
    (''<list>'', [''list'']),
    (''<map>'', [''map'', ''multimap'']),
    (''<memory>'', [''allocator'', ''make_shared'', ''make_unique'', ''shared_ptr'',
      ''unique_ptr'', ''weak_ptr'']),
    (''<queue>'', [''queue'', ''priority_queue'']),
    (''<set>'', [''set'', ''multiset'']),
    (''<stack>'', [''stack'']),
    (''<string>'', [''char_traits'', ''basic_string'']),
    (''<tuple>'', [''tuple'']),
    (''<unordered_map>'', [''unordered_map'', ''unordered_multimap'']),
    (''<unordered_set>'', [''unordered_set'', ''unordered_multiset'']),
    (''<utility>'', [''pair'']),
    (''<vector>'', [''vector'']),
    (''<hash_map>'', [''hash_map'', ''hash_multimap'']),
    (''<hash_set>'', [''hash_set'', ''hash_multiset'']),
    (''<slist>'', [''slist''])]"

definition HEADERS_MAYBE_TEMPLATES :: "(string \<times> string list) list" where
  "HEADERS_MAYBE_TEMPLATES = [
    (''<algorithm>'', [''copy'', ''max'', ''min'', ''min_element'', ''sort'', ''transform'']),
    (''<utility>'', [''forward'', ''make_pair'', ''move'', ''swap''])]"

text \<open>A pattern, the name that is reported and the header.\<close>

definition re_pattern_headers_maybe_templates :: "(string \<times> string \<times> string) list" where
  "re_pattern_headers_maybe_templates =
     concat (map (\<lambda>(header, templates).
       map (\<lambda>template. (raw ''[^>.]`b'' @ template @ raw ''(<.*?>)?`([^`)]'', template, header)) templates)
       HEADERS_MAYBE_TEMPLATES)"

definition re_pattern_templates :: "(string \<times> string \<times> string) list" where
  "re_pattern_templates =
     concat (map (\<lambda>(header, templates).
       map (\<lambda>template. (raw ''(`<|`b)'' @ template @ raw ''`s*`<'', template @ ''<>'', header)) templates)
       HEADERS_CONTAINING_TEMPLATES)"

section \<open>What a line requires\<close>

text \<open>A name that is not in a namespace other than \<open>std\<close>, by the first match on the line.\<close>

definition in_std :: "string \<Rightarrow> mobj option \<Rightarrow> bool" where
  "in_std line m \<longleftrightarrow> (case m of None \<Rightarrow> False | Some matched \<Rightarrow>
     (let before = take (m_start matched) line
      in endswith before ''std::'' \<or> \<not> endswith before ''::''))"

text \<open>The assignments to \<open>required\<close> at one line: the header and the name, in order.\<close>

definition line_required :: "string \<Rightarrow> (string \<times> string) list" where
  "line_required line =
     (if line = [] \<or> hd line = CHR ''#'' then []
      else
        (if in_std line (Search (raw ''`bstring`b'') line) then [(''<string>'', ''string'')] else []) @
        concat (map (\<lambda>(pattern, template, header).
          if found (Search pattern line) then [(header, template)] else [])
          re_pattern_headers_maybe_templates) @
        (if str_in ''<'' line then
           concat (map (\<lambda>(pattern, template, header).
             if in_std line (Search pattern line) then [(header, template)] else [])
             re_pattern_templates)
         else []))"

definition required_headers :: "string list \<Rightarrow> (string \<times> nat \<times> string) list" where
  "required_headers elided =
     fold (\<lambda>(linenum, line). fold (\<lambda>(header, template). AList.update header (linenum, template)) (line_required line))
       (enumerate 0 elided) []"

section \<open>The header of the same module\<close>

definition drop_end :: "string \<Rightarrow> string \<Rightarrow> string" where
  "drop_end s t = slice_to s (- int (length t))"

definition same_place :: "string \<Rightarrow> string" where
  "same_place filename = str_replace (str_replace filename ''/public/'' ''/'') ''/internal/'' ''/''"

definition FilesBelongToSameModule :: "os_env \<Rightarrow> string \<Rightarrow> string \<Rightarrow> (bool \<times> string) option" where
  "FilesBelongToSameModule env filename_cc filename_h =
     Option.bind (IsSource env filename_cc) (\<lambda>is_source.
       if \<not> is_source then Some (False, [])
       else Option.bind (Extension env filename_cc) (\<lambda>extension.
       Option.bind (BaseName env filename_cc) (\<lambda>basename.
         let cc = drop_end filename_cc extension;
             cc = (case Search TEST_FILE_SUFFIX basename of Some m \<Rightarrow> drop_end cc (grp m 1) | None \<Rightarrow> cc);
             cc = same_place cc
         in if \<not> endswith filename_h ''.h'' then Some (False, [])
            else
              (let h = drop_end filename_h ''.h'';
                   h = (if endswith h ''-inl'' then drop_end h ''-inl'' else h);
                   h = same_place h
               in if endswith cc h then Some (True, drop_end cc h) else Some (False, [])))))"

text \<open>
  What the functions take from outside the program: the lines of a file that can be read, and
  the order in which a dictionary gives its keys.
\<close>

record io_factory =
  io_open :: "string \<Rightarrow> string list option"
  io_keys :: "string list \<Rightarrow> string list"

definition setdefault :: "string \<Rightarrow> int \<Rightarrow> (string \<times> int) list \<Rightarrow> (string \<times> int) list" where
  "setdefault key val d = (if map_of d key = None then AList.update key val d else d)"

definition UpdateIncludeState ::
  "io_factory \<Rightarrow> string \<Rightarrow> (string \<times> int) list \<Rightarrow> bool \<times> (string \<times> int) list" where
  "UpdateIncludeState io filename include_dict =
     (case io_open io filename of
        None \<Rightarrow> (False, include_dict)
      | Some headerfile \<Rightarrow>
          (True, fold (\<lambda>(linenum, line) d.
             case re_search (rx RE_PATTERN_INCLUDE) (CleanseComments line) of
               None \<Rightarrow> d
             | Some m \<Rightarrow> setdefault (grp m 2) (int linenum) d) (enumerate 1 headerfile) include_dict))"

fun module_loop ::
  "os_env \<Rightarrow> io_factory \<Rightarrow> string \<Rightarrow> string list \<Rightarrow> bool \<times> (string \<times> int) list \<Rightarrow>
    (bool \<times> (string \<times> int) list) option" where
  "module_loop env io abs_filename [] st = Some st"
| "module_loop env io abs_filename (header # headers) (header_found, include_dict) =
     Option.bind (FilesBelongToSameModule env abs_filename header) (\<lambda>(same_module, common_path).
       if same_module then
         (case UpdateIncludeState io (common_path @ header) include_dict of
            (read, include_dict') \<Rightarrow>
              module_loop env io abs_filename headers (header_found \<or> read, include_dict'))
       else module_loop env io abs_filename headers (header_found, include_dict))"

section \<open>The report\<close>

text \<open>\<open>header.strip('<>"')\<close>\<close>

definition strip_brackets :: "string \<Rightarrow> string" where
  "strip_brackets s =
     (let bracket = (\<lambda>c. c \<in> {CHR ''<'', CHR ''>'', dquote})
      in rstrip_by bracket (lstrip_by bracket s))"

definition missing_call :: "string \<Rightarrow> string \<Rightarrow> nat \<Rightarrow> string \<Rightarrow> effect" where
  "missing_call filename header linenum template =
     ErrorCall filename (int linenum) ''build/include_what_you_use'' 4
       (''Add #include '' @ header @ '' for '' @ template)"

definition missing_calls ::
  "io_factory \<Rightarrow> string \<Rightarrow> (string \<times> nat \<times> string) list \<Rightarrow> (string \<times> int) list \<Rightarrow> effect list" where
  "missing_calls io filename required include_dict =
     concat (map (\<lambda>header.
       case map_of required header of
         None \<Rightarrow> []
       | Some (linenum, template) \<Rightarrow>
           report (map_of include_dict (strip_brackets header) = None)
             (missing_call filename header linenum template))
       (io_keys io (map fst required)))"

definition CheckForIncludeWhatYouUse ::
  "os_env \<Rightarrow> io_factory \<Rightarrow> string \<Rightarrow> cleansed_lines \<Rightarrow> include_state \<Rightarrow> effect list option" where
  "CheckForIncludeWhatYouUse env io filename clean_lines include_state =
     (let required = required_headers (take (NumLines clean_lines) (cl_elided clean_lines));
          include_dict = fold (\<lambda>(header, linenum). AList.update header linenum)
                           (concat (include_list include_state)) [];
          abs_filename = ReplaceAll (raw ''_flymake`.cc$'') ''.cc'' (FullName env filename)
      in Option.bind (module_loop env io abs_filename (io_keys io (map fst include_dict)) (False, include_dict))
           (\<lambda>(header_found, include_dict').
              if endswith filename ''.cc'' \<and> \<not> header_found then Some []
              else Some (missing_calls io filename required include_dict')))"

section \<open>Properties\<close>

text \<open>The search for the repository of the file, as the search for its own header needs it.\<close>

definition module_known :: "os_env \<Rightarrow> string \<Rightarrow> bool" where
  "module_known env filename \<longleftrightarrow>
     RepositoryName env (ReplaceAll (raw ''_flymake`.cc$'') ''.cc'' (FullName env filename)) \<noteq> None"

lemma FilesBelongToSameModule_returns:
  "RepositoryName env cc \<noteq> None \<Longrightarrow> \<exists>b p. FilesBelongToSameModule env cc h = Some (b, p)"
  by (auto simp: FilesBelongToSameModule_def IsSource_def Extension_def BaseName_def Split_def Let_def)

lemma module_loop_returns:
  "RepositoryName env cc \<noteq> None \<Longrightarrow> \<exists>b d. module_loop env io cc hs st = Some (b, d)"
proof (induction hs arbitrary: st)
  case Nil
  then show ?case by (cases st) simp
next
  case (Cons h hs)
  from FilesBelongToSameModule_returns [OF Cons.prems, of h] obtain b p where
    "FilesBelongToSameModule env cc h = Some (b, p)" by blast
  with Cons.IH [OF Cons.prems] show ?case by (cases st) (auto split: prod.splits)
qed

lemma CheckForIncludeWhatYouUse_ok:
  assumes "module_known env f"
  shows "\<exists>es. CheckForIncludeWhatYouUse env io f c st = Some es \<and> calls_ok f es"
proof -
  let ?d = "fold (\<lambda>(header, linenum). AList.update header linenum) (concat (include_list st)) []"
  have "calls_ok f (missing_calls io f req d)" for req d
    by (auto simp: missing_calls_def missing_call_def calls_ok_concat split: option.splits)
  then show ?thesis
    using module_loop_returns [OF assms [unfolded module_known_def], of io "io_keys io (map fst ?d)" "(False, ?d)"]
    by (auto simp: CheckForIncludeWhatYouUse_def Let_def)
qed

lemma update_all:
  "map_of (fold (\<lambda>(h, t). AList.update h (n, t)) us req) h =
     (case map_of (rev us) h of Some t \<Rightarrow> Some (n, t) | None \<Rightarrow> map_of req h)"
proof (induction us arbitrary: req)
  case (Cons u us)
  then show ?case by (cases u) (auto simp: update_conv' map_add_def split: option.splits)
qed simp

lemma distinct_update_all: "distinct (map fst req) \<Longrightarrow>
    distinct (map fst (fold (\<lambda>(h, t). AList.update h (n, t)) us req))"
  by (induction us arbitrary: req) (auto simp: distinct_update split: prod.splits)

lemma required_snoc:
  "required_headers (ls @ [l]) =
     fold (\<lambda>(h, t). AList.update h (length ls, t)) (line_required l) (required_headers ls)"
  by (simp add: required_headers_def enumerate_append_eq)

lemma required_distinct: "distinct (map fst (required_headers ls))"
proof (induction ls rule: rev_induct)
  case Nil
  show ?case by (simp add: required_headers_def)
next
  case (snoc l ls)
  then show ?case by (simp add: required_snoc distinct_update_all)
qed

text \<open>The last line that uses a header, with the name that is reported for it.\<close>

definition last_use :: "string list \<Rightarrow> string \<Rightarrow> nat \<Rightarrow> string \<Rightarrow> bool" where
  "last_use ls header n template \<longleftrightarrow>
     n < length ls \<and> map_of (rev (line_required (ls ! n))) header = Some template \<and>
     (\<forall>i < length ls. n < i \<longrightarrow> header \<notin> fst ` set (line_required (ls ! i)))"

lemma last_use_snoc:
  "last_use (ls @ [l]) h n t \<longleftrightarrow>
     (case map_of (rev (line_required l)) h of
        Some t' \<Rightarrow> n = length ls \<and> t = t'
      | None \<Rightarrow> last_use ls h n t)"
proof (cases "map_of (rev (line_required l)) h")
  case None
  then have "h \<notin> fst ` set (line_required l)" by (simp add: map_of_eq_None_iff)
  with None show ?thesis by (auto simp: last_use_def nth_append less_Suc_eq)
next
  case (Some t')
  then have "h \<in> fst ` set (line_required l)" by (metis map_of_eq_None_iff option.discI set_rev)
  with Some show ?thesis by (auto simp: last_use_def nth_append less_Suc_eq)
qed

lemma required_spec: "map_of (required_headers ls) h = Some (n, t) \<longleftrightarrow> last_use ls h n t"
proof (induction ls rule: rev_induct)
  case Nil
  show ?case by (simp add: required_headers_def last_use_def)
next
  case (snoc l ls)
  then show ?case by (auto simp: required_snoc update_all last_use_snoc split: option.splits)
qed

lemma count_missing:
  assumes "distinct keys" "set keys = dom m" "\<And>h x. m h = Some x \<Longrightarrow> length (c h x) = (if P h then 1 else 0)"
  shows "length (concat (map (\<lambda>h. case m h of None \<Rightarrow> [] | Some x \<Rightarrow> c h x) keys)) = card {h \<in> dom m. P h}"
proof -
  have "length (concat (map (\<lambda>h. case m h of None \<Rightarrow> [] | Some x \<Rightarrow> c h x) keys)) =
      (\<Sum>h\<leftarrow>keys. if P h then 1 else 0)"
    unfolding length_concat map_map
  proof (rule arg_cong [where f = sum_list], rule map_cong [OF refl])
    fix h assume "h \<in> set keys"
    then obtain x where "m h = Some x" using assms(2) by auto
    then show "(length \<circ> (\<lambda>h. case m h of None \<Rightarrow> [] | Some x \<Rightarrow> c h x)) h = (if P h then 1 else 0)"
      using assms(3) by simp
  qed
  also have "\<dots> = (\<Sum>h \<in> dom m. if P h then 1 else 0)"
    using sum_list_distinct_conv_sum_set [OF assms(1)] assms(2) by simp
  also have "\<dots> = card {h \<in> dom m. P h}"
    using assms(2) by (simp add: sum.If_cases Int_def flip: assms(2))
  finally show ?thesis .
qed

section \<open>Which headers count as included\<close>

text \<open>The headers that the lines of a file include, without their comments.\<close>

definition lines_include :: "string list \<Rightarrow> string set" where
  "lines_include ls =
     {grp m 2 | m. \<exists>line \<in> set ls. re_search (rx RE_PATTERN_INCLUDE) (CleanseComments line) = Some m}"

text \<open>The name under which a file looks for its own header.\<close>

definition module_source :: "os_env \<Rightarrow> string \<Rightarrow> string" where
  "module_source env filename = ReplaceAll (raw ''_flymake`.cc$'') ''.cc'' (FullName env filename)"

text \<open>An included header of the same module that can be read, with its lines.\<close>

definition own_header :: "os_env \<Rightarrow> io_factory \<Rightarrow> string \<Rightarrow> string set \<Rightarrow> string \<Rightarrow> string list \<Rightarrow> bool" where
  "own_header env io filename included header ls \<longleftrightarrow> header \<in> included \<and>
     (\<exists>common_path. FilesBelongToSameModule env (module_source env filename) header = Some (True, common_path) \<and>
        io_open io (common_path @ header) = Some ls)"

text \<open>What the file includes, itself or in a header of its module.\<close>

definition file_includes :: "include_state \<Rightarrow> string set" where
  "file_includes st = fst ` set (concat (include_list st))"

definition all_includes :: "os_env \<Rightarrow> io_factory \<Rightarrow> string \<Rightarrow> include_state \<Rightarrow> string set" where
  "all_includes env io filename st = file_includes st \<union>
     {h. \<exists>header ls. own_header env io filename (file_includes st) header ls \<and> h \<in> lines_include ls}"

lemma update_keys: "fst ` set (AList.update k v d) = insert k (fst ` set d)"
  by (simp add: dom_update)

lemma setdefault_keys: "fst ` set (setdefault k v d) = insert k (fst ` set d)"
proof (cases "map_of d k")
  case (Some x)
  then have "k \<in> fst ` set d" by (metis map_of_eq_None_iff option.distinct(1))
  with Some show ?thesis by (auto simp: setdefault_def)
qed (simp add: setdefault_def update_keys)

lemma UpdateIncludeState_keys:
  assumes "io_open io name = Some ls"
  shows "fst (UpdateIncludeState io name d) \<and>
    fst ` set (snd (UpdateIncludeState io name d)) = fst ` set d \<union> lines_include ls"
proof -
  let ?f = "\<lambda>(linenum, line) d. case re_search (rx RE_PATTERN_INCLUDE) (CleanseComments line) of
      None \<Rightarrow> d | Some m \<Rightarrow> setdefault (grp m 2) (int linenum) d"
  have "fst ` set (fold ?f (enumerate n ls) d) = fst ` set d \<union> lines_include ls" for n
  proof (induction ls arbitrary: n d)
    case Nil
    show ?case by (simp add: lines_include_def)
  next
    case (Cons l ls)
    have "lines_include (l # ls) = lines_include ls \<union>
        (case re_search (rx RE_PATTERN_INCLUDE) (CleanseComments l) of None \<Rightarrow> {} | Some m \<Rightarrow> {grp m 2})"
      by (auto simp: lines_include_def split: option.splits)
    with Cons.IH show ?case by (simp add: setdefault_keys split: option.split)
  qed
  with assms show ?thesis by (simp add: UpdateIncludeState_def)
qed

lemma module_loop_keys:
  assumes "RepositoryName env cc \<noteq> None"
  shows "\<exists>b d. module_loop env io cc hs (b0, d0) = Some (b, d) \<and>
    (b \<longleftrightarrow> b0 \<or> (\<exists>h \<in> set hs. \<exists>p ls. FilesBelongToSameModule env cc h = Some (True, p) \<and>
       io_open io (p @ h) = Some ls)) \<and>
    fst ` set d = fst ` set d0 \<union> {x. \<exists>h \<in> set hs. \<exists>p ls. FilesBelongToSameModule env cc h = Some (True, p) \<and>
       io_open io (p @ h) = Some ls \<and> x \<in> lines_include ls}"
proof (induction hs arbitrary: b0 d0)
  case (Cons h hs)
  from FilesBelongToSameModule_returns [OF assms, of h] obtain same p where
    s: "FilesBelongToSameModule env cc h = Some (same, p)" by blast
  show ?case
  proof (cases "same \<and> io_open io (p @ h) \<noteq> None")
    case True
    then obtain ls where o: "io_open io (p @ h) = Some ls" by blast
    obtain d1 where u: "UpdateIncludeState io (p @ h) d0 = (True, d1)"
      "fst ` set d1 = fst ` set d0 \<union> lines_include ls"
      using UpdateIncludeState_keys [OF o, of d0] by (cases "UpdateIncludeState io (p @ h) d0") auto
    from Cons.IH [of True d1] s True o u show ?thesis by auto
  next
    case False
    have "module_loop env io cc (h # hs) (b0, d0) = module_loop env io cc hs (b0, d0)"
      using s False by (auto simp: UpdateIncludeState_def)
    with Cons.IH [of b0 d0] s False show ?thesis by auto
  qed
qed auto

lemma include_dict_keys:
  "fst ` set (fold (\<lambda>(header, linenum). AList.update header linenum) xs d) = fst ` set d \<union> fst ` set xs"
proof (induction xs arbitrary: d)
  case (Cons x xs)
  obtain h n where "x = (h, n)" by (cases x)
  with Cons.IH [of "AList.update h n d"] show ?case by (simp add: update_keys)
qed simp

lemma missing_calls_spec:
  assumes order: "\<And>keys. mset (io_keys io keys) = mset keys"
  shows "set (missing_calls io f (required_headers ls) include_dict) =
      {missing_call f header n template | header n template.
         last_use ls header n template \<and> strip_brackets header \<notin> fst ` set include_dict}"
    and "length (missing_calls io f (required_headers ls) include_dict) =
      card {header. strip_brackets header \<notin> fst ` set include_dict \<and> (\<exists>n template. last_use ls header n template)}"
proof -
  let ?req = "required_headers ls"
  let ?calls = "\<lambda>h. case map_of ?req h of None \<Rightarrow> [] | Some (n, t) \<Rightarrow>
      report (map_of include_dict (strip_brackets h) = None) (missing_call f h n t)"
  have ks: "set (io_keys io (map fst ?req)) = dom (map_of ?req)" "distinct (io_keys io (map fst ?req))"
    using order [of "map fst ?req"] required_distinct [of ls]
    by (metis dom_map_of_conv_image_fst image_set mset_eq_setD, metis mset_eq_imp_distinct_iff)
  have "set (missing_calls io f ?req include_dict) = (\<Union>h \<in> dom (map_of ?req). set (?calls h))"
    unfolding missing_calls_def set_concat set_map image_image ks(1) by simp
  moreover have "e \<in> set (?calls h) \<longleftrightarrow> (\<exists>n t. map_of ?req h = Some (n, t) \<and>
      map_of include_dict (strip_brackets h) = None \<and> e = missing_call f h n t)" for e h
    by (cases "map_of ?req h") (auto simp: report_def)
  ultimately have "e \<in> set (missing_calls io f ?req include_dict) \<longleftrightarrow>
      (\<exists>header n template. last_use ls header n template \<and>
         strip_brackets header \<notin> fst ` set include_dict \<and> e = missing_call f header n template)" for e
    unfolding required_spec [symmetric] map_of_eq_None_iff [symmetric] by (simp only: UN_iff) blast
  then show "set (missing_calls io f ?req include_dict) =
      {missing_call f header n template | header n template.
         last_use ls header n template \<and> strip_brackets header \<notin> fst ` set include_dict}" by blast
  have "length (missing_calls io f ?req include_dict) =
      card {h \<in> dom (map_of ?req). map_of include_dict (strip_brackets h) = None}"
    unfolding missing_calls_def by (rule count_missing [OF ks(2,1)]) (auto simp: report_def)
  moreover have "{h \<in> dom (map_of ?req). map_of include_dict (strip_brackets h) = None} =
      {h. strip_brackets h \<notin> fst ` set include_dict \<and> (\<exists>n template. last_use ls h n template)}"
    by (auto simp: map_of_eq_None_iff simp flip: required_spec)
  ultimately show "length (missing_calls io f ?req include_dict) =
      card {header. strip_brackets header \<notin> fst ` set include_dict \<and> (\<exists>n template. last_use ls header n template)}"
    by simp
qed

text \<open>
  C37: what \<open>CheckForIncludeWhatYouUse\<close> reports. It returns when the repository search for the
  file does. A \<open>.cc\<close> file none of whose included headers is a readable header of its own
  module gets no report at all. For any other file, whatever the order in which the dictionaries
  give their keys, the calls are exactly those for the headers that some line uses and that
  neither the file nor a readable header of its module includes, one for each such header; and
  each names the last line that uses the header and, of the names that require it on that
  line, the last in the order of the tables (\<open>string\<close>, then the functions, then the templates),
  which need not be the latter in the file as the docstring says.
\<close>

theorem missing_headers_reported:
  assumes order: "\<And>keys. mset (io_keys io keys) = mset keys"
    and known: "module_known env f"
  shows "let ls = take (NumLines c) (cl_elided c);
      missing = {header. strip_brackets header \<notin> all_includes env io f st \<and> (\<exists>n template. last_use ls header n template)}
    in \<exists>calls. CheckForIncludeWhatYouUse env io f c st = Some calls \<and>
      (if endswith f ''.cc'' \<and> \<not> (\<exists>header lines. own_header env io f (file_includes st) header lines)
       then calls = []
       else set calls = {missing_call f header n template | header n template.
              header \<in> missing \<and> last_use ls header n template} \<and>
            length calls = card missing)"
proof -
  let ?ls = "take (NumLines c) (cl_elided c)"
  let ?d = "fold (\<lambda>(header, linenum). AList.update header linenum) (concat (include_list st)) []"
  have dict: "fst ` set ?d = file_includes st"
    using include_dict_keys [of "concat (include_list st)" "[]"] by (simp add: file_includes_def)
  have ks: "set (io_keys io (map fst ?d)) = file_includes st"
    using mset_eq_setD [OF order [of "map fst ?d"]] unfolding set_map dict .
  from known have "RepositoryName env (module_source env f) \<noteq> None"
    by (simp add: module_known_def module_source_def)
  note L = module_loop_keys [OF this, of io "io_keys io (map fst ?d)" False ?d, unfolded ks dict]
  obtain b d where
    m1: "module_loop env io (module_source env f) (io_keys io (map fst ?d)) (False, ?d) = Some (b, d)" and
    b: "b \<longleftrightarrow> False \<or> (\<exists>h \<in> file_includes st. \<exists>p ls. FilesBelongToSameModule env (module_source env f) h =
       Some (True, p) \<and> io_open io (p @ h) = Some ls)" and
    d: "fst ` set d = file_includes st \<union> {x. \<exists>h \<in> file_includes st. \<exists>p ls.
       FilesBelongToSameModule env (module_source env f) h = Some (True, p) \<and>
       io_open io (p @ h) = Some ls \<and> x \<in> lines_include ls}"
    using L by (elim exE conjE)
  have m2: "b \<longleftrightarrow> (\<exists>header lines. own_header env io f (file_includes st) header lines)"
    unfolding b own_header_def by blast
  have m3: "fst ` set d = all_includes env io f st"
    unfolding d all_includes_def own_header_def by blast
  have check: "CheckForIncludeWhatYouUse env io f c st =
      Some (if endswith f ''.cc'' \<and> \<not> b then [] else missing_calls io f (required_headers ?ls) d)"
    using m1 by (simp add: CheckForIncludeWhatYouUse_def Let_def module_source_def)
  show ?thesis
  proof (cases "endswith f ''.cc'' \<and> \<not> (\<exists>header lines. own_header env io f (file_includes st) header lines)")
    case True
    with m2 check show ?thesis unfolding Let_def if_P [OF True] by simp
  next
    case False
    let ?calls = "missing_calls io f (required_headers ?ls) d"
    note spec = missing_calls_spec [where io = io and f = f and ls = ?ls and include_dict = d,
        OF order, unfolded m3]
    have "CheckForIncludeWhatYouUse env io f c st = Some ?calls"
      unfolding check using False m2 by (simp only: if_False)
    moreover have "set ?calls = {missing_call f header n template | header n template.
        header \<in> {header. strip_brackets header \<notin> all_includes env io f st \<and>
          (\<exists>n template. last_use ?ls header n template)} \<and> last_use ?ls header n template}"
      unfolding spec(1) by blast
    ultimately show ?thesis unfolding Let_def if_not_P [OF False] using spec(2) by blast
  qed
qed

text \<open>The witness: a header file that uses \<open>string\<close> on its second line and includes \<open>vector\<close>.\<close>

theorem missing_headers_reported_witness:
  "\<exists>calls. CheckForIncludeWhatYouUse \<lparr>getcwd = ''/w'', exists = (\<lambda>_. False)\<rparr>
       \<lparr>io_open = (\<lambda>_. None), io_keys = (\<lambda>keys. keys)\<rparr> ''a.h''
       \<lparr>cl_elided = [[], ''string s''], cl_lines = [[], ''string s''], cl_raw_lines = [[], ''string s''],
         cl_num_lines = 2, cl_lines_without_raw_strings = [[], ''string s'']\<rparr>
       (IncludeState_init\<lparr>include_list := [[(''vector'', 3)]]\<rparr>) = Some calls \<and>
     missing_call ''a.h'' ''<string>'' 1 ''string'' \<in> set calls"
proof -
  let ?env = "\<lparr>getcwd = ''/w'', exists = (\<lambda>_. False)\<rparr>" and ?io = "\<lparr>io_open = (\<lambda>_. None), io_keys = (\<lambda>keys. keys)\<rparr>"
  let ?c = "\<lparr>cl_elided = [[], ''string s''], cl_lines = [[], ''string s''], cl_raw_lines = [[], ''string s''],
         cl_num_lines = 2, cl_lines_without_raw_strings = [[], ''string s'']\<rparr>"
  let ?st = "IncludeState_init\<lparr>include_list := [[(''vector'', 3)]]\<rparr>"
  have l: "line_required ''string s'' = [(''<string>'', ''string'')]" by code_simp
  have s: "strip_brackets ''<string>'' = ''string''" by code_simp
  have ls: "take (NumLines ?c) (cl_elided ?c) = [[], ''string s'']" by (simp add: NumLines_def)
  have "last_use [[], ''string s''] ''<string>'' 1 ''string''"
    by (auto simp: last_use_def l less_Suc_eq)
  moreover have "strip_brackets ''<string>'' \<notin> all_includes ?env ?io ''a.h'' ?st"
    unfolding s by (simp add: all_includes_def file_includes_def own_header_def)
  moreover have "module_known ?env ''a.h''" by (simp add: module_known_def RepositoryName_def)
  moreover have "\<not> endswith ''a.h'' ''.cc''" by code_simp
  ultimately show ?thesis
    using missing_headers_reported [of ?io ?env "''a.h''" ?c ?st] unfolding ls Let_def by auto blast
qed

end
