(* ===== verification/Process.thy ===== *)
theory Process
  imports Braces Class_Checks Language Include_Use
begin

text \<open>
  The driver of the checks: \<open>ProcessLine\<close> runs them on one line and threads the states of the
  includes, of the function and of the nesting, \<open>ProcessFileData\<close> runs it over a file, from
  the list of its lines, between the checks of the whole file.
\<close>

section \<open>One line\<close>

type_synonym check_function = "string \<Rightarrow> cleansed_lines \<Rightarrow> nat \<Rightarrow> effect list res"

text \<open>The three objects that live as long as a file is processed.\<close>

record file_state =
  fs_include :: include_state
  fs_function :: function_state
  fs_nesting :: nesting_state

definition file_state_init :: file_state where
  "file_state_init = \<lparr>fs_include = IncludeState_init, fs_function = FunctionState_init,
     fs_nesting = NestingState_init\<rparr>"

text \<open>The checks of a line that keep no state, after \<open>CheckLanguage\<close>.\<close>

definition stateless_checks ::
  "check_function list \<Rightarrow> string \<Rightarrow> cleansed_lines \<Rightarrow> nat \<Rightarrow> nesting_state \<Rightarrow> effect list res" where
  "stateless_checks extra_check_functions filename clean_lines line nesting =
     effects ([
       CheckForNonConstReference filename clean_lines line nesting,
       CheckForNonStandardConstructs filename clean_lines line nesting,
       CheckVlogArguments filename clean_lines line,
       CheckPosixThreading filename clean_lines line,
       CheckInvalidIncrement filename clean_lines line,
       CheckMakePairUsesDeduction filename clean_lines line,
       CheckRedundantVirtual filename clean_lines line,
       CheckRedundantOverrideOrFinal filename clean_lines line] @
       map (\<lambda>check_fn. check_fn filename clean_lines line) extra_check_functions)"

text \<open>What \<open>ProcessLine\<close> does when the line is not inside an assembler block.\<close>

definition check_code ::
  "lint_config \<Rightarrow> int \<Rightarrow> check_function list \<Rightarrow> string \<Rightarrow> string \<Rightarrow> cleansed_lines \<Rightarrow> nat \<Rightarrow> file_state \<Rightarrow>
    (file_state \<times> effect list) run" where
  "check_code cfg verbose extra_check_functions filename file_extension clean_lines line st =
     bind_run (Some (CheckForFunctionLengths verbose filename clean_lines line (fs_function st))) (\<lambda>(fn, es1).
     bind_run (Some (CheckForMultilineCommentsAndStrings filename clean_lines line)) (\<lambda>es2.
     bind_run (CheckStyle cfg filename clean_lines line file_extension (fs_nesting st)) (\<lambda>es3.
     bind_run (CheckLanguage cfg filename clean_lines line file_extension (fs_include st)) (\<lambda>(inc, es4).
     bind_run (Some (stateless_checks extra_check_functions filename clean_lines line (fs_nesting st))) (\<lambda>es5.
       Some (Inr (st\<lparr>fs_include := inc, fs_function := fn\<rparr>, es1 @ es2 @ es3 @ es4 @ es5)))))))"

definition ProcessLine ::
  "lint_config \<Rightarrow> int \<Rightarrow> check_function list \<Rightarrow> string \<Rightarrow> string \<Rightarrow> cleansed_lines \<Rightarrow> nat \<Rightarrow> file_state \<Rightarrow>
    (file_state \<times> effect list) run" where
  "ProcessLine cfg verbose extra_check_functions filename file_extension clean_lines line st =
     bind_run (Some (py_nth (cl_raw_lines clean_lines) (int line))) (\<lambda>raw.
     bind_run (Some (Update filename clean_lines line (fs_nesting st))) (\<lambda>(nesting, es1).
     bind_run (Some (CheckForNamespaceIndentation filename nesting clean_lines line)) (\<lambda>es2.
       let st = st\<lparr>fs_nesting := nesting\<rparr>;
           es = NolintCall filename raw (int line) # es1 @ es2
       in if InAsmBlock nesting then Some (Inr (st, es))
          else bind_run (check_code cfg verbose extra_check_functions filename file_extension clean_lines line st)
                 (\<lambda>(st, es'). Some (Inr (st, es @ es'))))))"

section \<open>A file\<close>

text \<open>
  The calls of the checks are performed with \<open>Error\<close> in the order in which they are made,
  line by line.
\<close>

definition report_run :: "effect list run \<Rightarrow> lint \<Rightarrow> lint run" where
  "report_run r g = bind_run r (\<lambda>es. Some (perform es g))"

fun process_lines ::
  "lint_config \<Rightarrow> check_function list \<Rightarrow> string \<Rightarrow> string \<Rightarrow> cleansed_lines \<Rightarrow> nat list \<Rightarrow>
    file_state \<times> lint \<Rightarrow> (file_state \<times> lint) run" where
  "process_lines cfg extra_check_functions filename file_extension clean_lines [] (st, g) = Some (Inr (st, g))"
| "process_lines cfg extra_check_functions filename file_extension clean_lines (line # lines) (st, g) =
     bind_run (ProcessLine cfg (verbose_level (cstate g)) extra_check_functions filename file_extension
                 clean_lines line st) (\<lambda>(st, es).
     bind_run (Some (perform es g)) (\<lambda>g.
     bind_run (report_run (Some (FlagCxx11Features filename clean_lines line)) g) (\<lambda>g.
       process_lines cfg extra_check_functions filename file_extension clean_lines lines (st, g))))"

definition FIRST_MARKER :: string where
  "FIRST_MARKER = ''// marker so line numbers and indices both start at 1''"

definition LAST_MARKER :: string where
  "LAST_MARKER = ''// marker so line numbers end in a known way''"

text \<open>The checks of the whole file after its lines.\<close>

definition finish_file ::
  "lint_config \<Rightarrow> io_factory \<Rightarrow> string \<Rightarrow> string \<Rightarrow> string list \<Rightarrow> cleansed_lines \<Rightarrow> file_state \<Rightarrow> lint \<Rightarrow> lint run" where
  "finish_file cfg io filename file_extension lines clean_lines st g =
     bind_run (Some (perform (CheckCompletedBlocks filename (fs_nesting st)) g)) (\<lambda>g.
     bind_run (report_run (map_option Inr
       (CheckForIncludeWhatYouUse (cfg_env cfg) io filename clean_lines (fs_include st))) g) (\<lambda>g.
     bind_run (if IsSourceExtension file_extension
               then report_run (map_option Inr (CheckHeaderFileIncluded (cfg_env cfg) filename (fs_include st))) g
               else Some (Inr g)) (\<lambda>g.
     bind_run (Some (perform (CheckForBadCharacters filename (map (map of_char) lines)) g)) (\<lambda>g.
       Some (perform (CheckForNewlineAtEOF filename lines) g)))))"

definition ProcessFileData ::
  "lint_config \<Rightarrow> io_factory \<Rightarrow> check_function list \<Rightarrow> string \<Rightarrow> string \<Rightarrow> string list \<Rightarrow> lint \<Rightarrow> lint run" where
  "ProcessFileData cfg io extra_check_functions filename file_extension file_lines g =
     (let lines0 = FIRST_MARKER # file_lines @ [LAST_MARKER];
          g = g\<lparr>suppr := ResetNolintSuppressions (suppr g)\<rparr>
      in bind_run (Some (perform (CheckForCopyright filename lines0) g)) (\<lambda>g.
         let g = g\<lparr>suppr := ProcessGlobalSuppresions lines0 (suppr g)\<rparr>;
             (lines, es) = RemoveMultiLineComments filename lines0
         in bind_run (Some (perform es g)) (\<lambda>g.
            bind_run (Some (CleansedLines lines)) (\<lambda>clean_lines.
            bind_run (if IsHeaderExtension cfg file_extension
                      then report_run (CheckForHeaderGuard (cfg_env cfg) (cfg_root cfg) (cfg_root_debug cfg)
                             filename clean_lines) g
                      else Some (Inr g)) (\<lambda>g.
            bind_run (process_lines cfg extra_check_functions filename file_extension clean_lines
                        [0..<NumLines clean_lines] (file_state_init, g)) (\<lambda>(st, g).
              finish_file cfg io filename file_extension lines clean_lines st g))))))"

end
