(* ===== verification/Process_Safety.thy ===== *)
theory Process_Safety
  imports Process
begin

text \<open>
  What the driver guarantees: the nesting state refers to lines of the file only, and a whole
  file is processed without an exception other than \<open>IndexError\<close>, every message being about
  that file, of a known category and of a confidence from 0 to 5.
\<close>

section \<open>Lines of blocks\<close>

text \<open>The lines at which the blocks of a nesting state start, the saved ones included.\<close>

definition start_lines :: "nesting_state \<Rightarrow> nat set" where
  "start_lines st = starting_linenum ` set (all_blocks st)"

lemma start_lines_stack: "starting_linenum ` set (stack st) \<subseteq> start_lines st"
  by (auto simp: start_lines_def all_blocks_def)

lemma renumber_lines [simp]: "starting_linenum ` set (renumber n bs) = starting_linenum ` set bs"
  by (induction n bs rule: renumber.induct) simp_all

lemma lines_push: "start_lines (push_block b st) = insert (starting_linenum b) (start_lines st)"
  by (simp add: start_lines_def push_block_def all_blocks_def)

lemma lines_pop: "start_lines (pop_block st) \<subseteq> start_lines st"
  by (cases "stack st") (auto simp: start_lines_def pop_block_def all_blocks_def)

lemma lines_replace_top:
  "stack st = b # bs \<Longrightarrow> starting_linenum b' = starting_linenum b \<Longrightarrow>
   start_lines (st\<lparr>stack := b' # bs\<rparr>) = start_lines st"
  by (simp add: start_lines_def all_blocks_def)

lemma lines_top: "(\<And>b. starting_linenum (g b) = starting_linenum b) \<Longrightarrow> start_lines (map_top g st) = start_lines st"
  by (cases "stack st") (simp_all add: map_top_def lines_replace_top)

lemma lines_previous: "start_lines (st\<lparr>previous_stack_top := t\<rparr>) = start_lines st"
  by (simp add: start_lines_def all_blocks_def)

lemma start_lines_parts:
  "start_lines st = starting_linenum ` set (stack st) \<union>
     (\<Union>p \<in> set (pp_stack st). starting_linenum ` set (stack_before_if p) \<union> starting_linenum ` set (stack_before_else p))"
  by (auto simp: start_lines_def all_blocks_def)

lemma lines_preprocessor: "start_lines (UpdatePreprocessor line st) \<subseteq> start_lines st"
  unfolding UpdatePreprocessor_def Let_def start_lines_parts
  by (cases "pp_stack st") auto

lemma lines_namespaces: "start_lines (fst (namespace_loop n st line)) \<subseteq> insert n (start_lines st)"
proof (induction n st line rule: namespace_loop.induct)
  case (1 n st line)
  show ?case
  proof (cases "Match NAMESPACE_DECL line")
    case None
    then show ?thesis by (subst namespace_loop.simps) auto
  next
    case (Some m)
    let ?b = "NamespaceInfo_init (next_id st) (group m 1) n"
    have "start_lines (push_block ?b st) = insert n (start_lines st)"
      "start_lines (push_block (?b\<lparr>seen_open_brace := True\<rparr>) st) = insert n (start_lines st)"
      by (simp_all add: lines_push NamespaceInfo_init_def BlockInfo_init_def)
    with "1.IH" [OF Some refl] Some show ?thesis
      by (subst namespace_loop.simps) (auto simp: Let_def split: option.splits)
  qed
qed

lemma lines_class:
  "class_declaration c n st line = Inr (st', line') \<Longrightarrow> start_lines st' \<subseteq> insert n (start_lines st)"
  by (auto simp: class_declaration_def ClassInfo_init_def lines_push BlockInfo_init_def split: option.splits if_splits)

lemma lines_begin: "check_begin c n st = Inr st' \<Longrightarrow> start_lines st' = start_lines st"
  by (auto simp: check_begin_def CheckBegin_def lines_replace_top split: list.splits if_splits block_kind.splits)

lemma lines_access: "start_lines (fst (access_control f n st line)) = start_lines st"
  by (simp add: access_control_def lines_replace_top split: list.splits block_kind.splits option.splits)

lemma lines_open: "start_lines (open_brace n line st) \<subseteq> insert n (start_lines st)"
  by (auto simp: open_brace_def lines_top lines_push ExternCInfo_init_def BlockInfo_init_def)

lemma lines_braces:
  "brace_loop f c n st line = Inr (st', es) \<Longrightarrow> start_lines st' \<subseteq> insert n (start_lines st)"
proof (induction f c n st line arbitrary: es rule: brace_loop.induct)
  case (1 f c n st line)
  note run = "1.prems" [unfolded brace_loop.simps [of f c n st line]]
  show ?case
  proof (cases "Match BRACE_PATTERN line")
    case (Some m)
    show ?thesis
      using "1.IH"(1) [OF Some] "1.IH"(2) [OF Some] "1.IH"(3) [OF Some] "1.IH"(4) [OF Some]
        lines_open [of n line st] lines_pop [of st] run Some
      by (fastforce split: if_splits list.splits)
  qed (use run in auto)
qed

lemma lines_update:
  assumes u: "Update f c n st = Inr (st', es)"
  shows "start_lines st' \<subseteq> insert n (start_lines st)"
proof -
  from u obtain l where l: "py_nth (cl_elided c) (int n) = Inr l" by (auto simp: Update_def)
  define st1 where "st1 = map_top (count_parentheses l)
      (UpdatePreprocessor l (st\<lparr>previous_stack_top := (case stack st of [] \<Rightarrow> None | b # _ \<Rightarrow> Some b)\<rparr>))"
  have "start_lines st1 \<subseteq> start_lines st"
    unfolding st1_def
    using lines_preprocessor [of l "st\<lparr>previous_stack_top := (case stack st of [] \<Rightarrow> None | b # _ \<Rightarrow> Some b)\<rparr>"]
    by (subst lines_top) (auto simp: lines_previous count_parentheses_def Let_def)
  with lines_namespaces [of n st1 l]
  have ns: "start_lines (fst (namespace_loop n st1 l)) \<subseteq> insert n (start_lines st)" by auto
  from u obtain st2 l2 st3 es2 where
    cd: "class_declaration c n (fst (namespace_loop n st1 l)) (snd (namespace_loop n st1 l)) = Inr (st2, l2)"
    and cb: "check_begin c n st2 = Inr st3"
    and bl: "brace_loop f c n (fst (access_control f n st3 l2)) l2 = Inr (st', es2)"
    by (auto simp: Update_def l Let_def case_prod_beta st1_def)
  from lines_braces [OF bl] lines_access [of f n st3 l2] lines_begin [OF cb] lines_class [OF cd] ns
  show ?thesis by auto
qed

section \<open>Calls of the nesting state\<close>

lemma disallow_calls: "disallow_loop f elided name start i seen = Inr es \<Longrightarrow> calls_ok f es"
proof (induction f elided name start i seen arbitrary: es rule: disallow_loop.induct)
  case (1 f elided name start i seen)
  note run = "1.prems" [unfolded disallow_loop.simps [of f elided name start i seen]]
  show ?case
  proof (cases "i \<le> start")
    case False
    with run obtain l where l: "py_nth elided (int i) = Inr l" by auto
    with "1.IH" [OF False] run False show ?thesis by (auto split: option.splits if_splits)
  qed (use run in simp)
qed

lemma CheckEnd_calls:
  assumes "CheckEnd f c n b = Inr es"
  shows "calls_ok f es"
proof (cases "kind b")
  case (ClassBlock d)
  with assms obtain es1 line where
    "disallow_loop f (cl_elided c) (class_name d) (starting_linenum b) (n - 1) False = Inr es1"
    "es = es1 @ (case Match (raw ''^( *)`}'') line of
              Some indent \<Rightarrow>
                if length (grp indent 1) \<noteq> class_indent d
                then [ErrorCall f (int n) ''whitespace/indent'' 3
                       (''Closing brace should be aligned with beginning of '' @ class_parent d)]
                else []
            | None \<Rightarrow> [])"
    by (auto simp: CheckEnd_def CheckEnd_class_def)
  then show ?thesis using disallow_calls by (simp split: option.splits)
next
  case (NamespaceBlock name)
  with assms show ?thesis by (auto simp: CheckEnd_def CheckEnd_namespace_def Let_def split: if_splits)
qed (use assms in \<open>simp_all add: CheckEnd_def\<close>)

lemma braces_calls: "brace_loop f c n st line = Inr (st', es) \<Longrightarrow> calls_ok f es"
proof (induction f c n st line arbitrary: es rule: brace_loop.induct)
  case (1 f c n st line)
  note run = "1.prems" [unfolded brace_loop.simps [of f c n st line]]
  show ?case
  proof (cases "Match BRACE_PATTERN line")
    case (Some m)
    show ?thesis
      using "1.IH"(1) [OF Some] "1.IH"(2) [OF Some] "1.IH"(3) [OF Some] "1.IH"(4) [OF Some] run Some
      by (fastforce split: if_splits list.splits dest: CheckEnd_calls)
  qed (use run in auto)
qed

lemma access_calls: "calls_ok f (snd (access_control f n st line))"
  by (simp add: access_control_def split: list.splits block_kind.splits option.splits)

lemma update_calls: "Update f c n st = Inr (st', es) \<Longrightarrow> calls_ok f es"
  using access_calls [of f n] braces_calls [of f c n]
  by (fastforce simp: Update_def Let_def case_prod_beta)

section \<open>Processing a line\<close>

text \<open>A computation that ends, with \<open>IndexError\<close> or with a result of which \<open>P\<close> holds.\<close>

definition run_safe :: "('a \<Rightarrow> bool) \<Rightarrow> 'a run \<Rightarrow> bool" where
  "run_safe P r \<longleftrightarrow> r = Some (Inl IndexError) \<or> (\<exists>x. r = Some (Inr x) \<and> P x)"

lemma run_safe_Inr [simp]: "run_safe P (Some (Inr x)) = P x"
  by (simp add: run_safe_def)

lemma run_safe_bind:
  "run_safe P m \<Longrightarrow> (\<And>x. P x \<Longrightarrow> run_safe Q (k x)) \<Longrightarrow> run_safe Q (bind_run m k)"
  unfolding run_safe_def [of P] by (elim disjE exE conjE) (simp_all add: run_safe_def)

lemma run_safe_mono: "run_safe P r \<Longrightarrow> (\<And>x. P x \<Longrightarrow> Q x) \<Longrightarrow> run_safe Q r"
  by (auto simp: run_safe_def)

lemma run_safe_check: "run_safe (calls_ok f) (Some r) = check_safe f r"
  by (cases r) (auto simp: run_safe_def)

lemma run_safe_ok: "run_ok f r \<Longrightarrow> run_safe (calls_ok f) r"
  by (auto simp: run_safe_def run_ok_def)

lemma first_checks_ok:
  assumes "cl_wf c" "n < NumLines c"
  shows "check_ok f (CheckForMultilineCommentsAndStrings f c n)" "check_ok f (CheckVlogArguments f c n)"
    "check_ok f (CheckPosixThreading f c n)" "check_ok f (CheckInvalidIncrement f c n)"
  unfolding CheckForMultilineCommentsAndStrings_def CheckVlogArguments_def CheckPosixThreading_def
    CheckInvalidIncrement_def cl_wf_nth [OF assms] bind_res_simps
  by (auto simp: Let_def calls_ok_concat)

lemma stateless_checks_safe:
  assumes "cl_wf c" "n < NumLines c" and "\<forall>check \<in> set extra. \<forall>c n. check_safe f (check f c n)"
  shows "check_safe f (stateless_checks extra f c n st)"
  unfolding stateless_checks_def using assms(3)
  by (intro check_safe_effects)
    (auto simp: CheckForNonConstReference_safe CheckForNonStandardConstructs_safe [OF assms(1,2)]
      check_ok_safe [OF first_checks_ok(2) [OF assms(1,2)]] check_ok_safe [OF first_checks_ok(3) [OF assms(1,2)]]
      check_ok_safe [OF first_checks_ok(4) [OF assms(1,2)]] inheritance_safe)

text \<open>The invariant of the states between two lines.\<close>

definition file_wf :: "cleansed_lines \<Rightarrow> file_state \<Rightarrow> bool" where
  "file_wf c st \<longleftrightarrow> include_wf (fs_include st) \<and> start_lines (fs_nesting st) \<subseteq> {..<NumLines c}"

lemma file_wf_stack: "file_wf c st \<Longrightarrow> stack_in c (fs_nesting st)"
  using start_lines_stack [of "fs_nesting st"] by (auto simp: file_wf_def stack_in_def list_all_iff)

lemma file_wf_init: "file_wf c file_state_init"
  by (simp add: file_wf_def file_state_init_def include_wf_init start_lines_def NestingState_init_def all_blocks_def)

lemma check_code_safe:
  assumes "cl_wf c" "n < NumLines c" "file_wf c st" "0 \<le> verbose" "guard_defined cfg f" "repository_known cfg f"
    and "\<forall>check \<in> set extra. \<forall>c n. check_safe f (check f c n)"
  shows "run_safe (\<lambda>(st', es). file_wf c st' \<and> calls_ok f es) (check_code cfg verbose extra f ext c n st)"
proof -
  have wf: "include_wf (fs_include st)" using assms(3) by (simp add: file_wf_def)
  have 1: "run_safe (\<lambda>(_, es). calls_ok f es) (Some (CheckForFunctionLengths verbose f c n (fs_function st)))"
    using CheckForFunctionLengths_safe [OF assms(4), of f c n "fs_function st"] by (auto simp: run_safe_def)
  have 2: "run_safe (calls_ok f) (Some (CheckForMultilineCommentsAndStrings f c n))"
    using first_checks_ok(1) [OF assms(1,2), of f] by (simp add: run_safe_ok)
  have 3: "run_safe (calls_ok f) (CheckStyle cfg f c n ext (fs_nesting st))"
    by (rule run_safe_ok, rule CheckStyle_ok [OF assms(1,2) file_wf_stack [OF assms(3)] assms(5)])
  have 4: "run_safe (\<lambda>(inc, es). include_wf inc \<and> calls_ok f es) (CheckLanguage cfg f c n ext (fs_include st))"
    using CheckLanguage_safe [OF wf assms(1,2,6), of ext] by (auto simp: run_safe_def)
  have 5: "run_safe (calls_ok f) (Some (stateless_checks extra f c n (fs_nesting st)))"
    unfolding run_safe_check by (rule stateless_checks_safe [OF assms(1,2,7)])
  show ?thesis unfolding check_code_def
    by (rule run_safe_bind [OF 1], clarify, rule run_safe_bind [OF 2], rule run_safe_bind [OF 3],
        rule run_safe_bind [OF 4], clarify, rule run_safe_bind [OF 5])
      (use assms(3) in \<open>simp add: file_wf_def\<close>)
qed

lemma ProcessLine_safe:
  assumes "cl_wf c" "n < NumLines c" "file_wf c st" "0 \<le> verbose" "guard_defined cfg f" "repository_known cfg f"
    and "\<forall>check \<in> set extra. \<forall>c n. check_safe f (check f c n)"
  shows "run_safe (\<lambda>(st', es). file_wf c st' \<and> calls_ok f es) (ProcessLine cfg verbose extra f ext c n st)"
proof -
  from Update_returns [OF assms(1,2)] obtain nst es1 where
    u: "Update f c n (fs_nesting st) = Inr (nst, es1)" by fastforce
  from CheckForNamespaceIndentation_ok [OF assms(1,2), of f nst] obtain es2 where
    i: "CheckForNamespaceIndentation f nst c n = Inr es2" "calls_ok f es2" by (auto simp: check_ok_def)
  let ?st = "st\<lparr>fs_nesting := nst\<rparr>"
  have wf: "file_wf c ?st"
    using lines_update [OF u] assms(2,3) by (auto simp: file_wf_def)
  have es1: "calls_ok f es1" by (rule update_calls [OF u])
  show ?thesis
    unfolding ProcessLine_def cl_wf_nth [OF assms(1,2)] bind_run_simps u prod.case i(1) Let_def
    using wf i(2) es1 run_safe_bind [OF check_code_safe [OF assms(1,2) wf assms(4-7), of ext],
        of "\<lambda>(st', es). file_wf c st' \<and> calls_ok f es"
           "\<lambda>(st, es'). Some (Inr (st, (NolintCall f (cl_raw_lines c ! n) (int n) # es1 @ es2) @ es'))"]
    by auto
qed

section \<open>Performing calls\<close>

definition settings ::
  "cpplint_state \<Rightarrow> int \<times> string list \<times> string list \<times> string \<times> bool \<times> string" where
  "settings st = (verbose_level st, filters st, filters_backup st, counting st, quiet st, output_format st)"

definition message_ok :: "string \<Rightarrow> string \<Rightarrow> string \<Rightarrow> bool" where
  "message_ok fmt filename s \<longleftrightarrow> (\<exists>linenum category confidence message.
     s = format_error fmt filename linenum category confidence message \<and>
     known_category category \<and> 0 \<le> confidence \<and> confidence \<le> 5)"

text \<open>
  What processing does to the state: the settings stay, messages are added, and each of them
  counts as one error.
\<close>

definition reported :: "string \<Rightarrow> lint \<Rightarrow> lint \<Rightarrow> bool" where
  "reported filename g g' \<longleftrightarrow> settings (cstate g') = settings (cstate g) \<and>
     (\<exists>messages. stderr g' = stderr g @ messages \<and>
        error_count (cstate g') = error_count (cstate g) + length messages \<and>
        (\<forall>s \<in> set messages. message_ok (output_format (cstate g)) filename s))"

lemma reported_refl [simp]: "reported f g g"
  by (simp add: reported_def)

lemma reported_trans: "reported f g g1 \<Longrightarrow> reported f g1 g2 \<Longrightarrow> reported f g g2"
  by (auto simp: reported_def settings_def)

lemma reported_suppr [simp]: "reported f g (g'\<lparr>suppr := s\<rparr>) = reported f g g'"
  by (simp add: reported_def)

lemma reported_wf: "reported f g g' \<Longrightarrow> lint_wf g \<Longrightarrow> lint_wf g'"
  by (simp add: reported_def settings_def lint_wf_def)

lemma Error_reported:
  assumes "lint_wf g" "call_ok f (ErrorCall f l c n m)"
  shows "\<exists>g'. Error f l c n m g = Inr g' \<and> reported f g g'"
proof -
  have "message_ok fmt f (format_error fmt f l c n m)" for fmt using assms(2) by (auto simp: message_ok_def)
  then have "reported f g (g\<lparr>cstate := IncrementErrorCount c (cstate g),
      stderr := stderr g @ [format_error (output_format (cstate g)) f l c n m]\<rparr>)"
    by (auto simp: reported_def settings_def IncrementErrorCount_def Let_def)
  then show ?thesis by (simp add: Error_wf [OF assms(1)])
qed

lemma nolint_calls: "list_all (\<lambda>e. is_error_call e \<and> call_ok f e) (snd (ParseNolintSuppressions f text l sp))"
  by (auto simp: ParseNolintSuppressions_def Let_def split: option.splits)

lemma errors_reported:
  assumes "lint_wf g" "list_all (\<lambda>e. is_error_call e \<and> call_ok f e) es"
  shows "\<exists>g'. fold_res (\<lambda>e g. case e of ErrorCall f l c n m \<Rightarrow> Error f l c n m g
      | NolintCall _ _ _ \<Rightarrow> Inr g) es g = Inr g' \<and> reported f g g'"
  using assms
proof (induction es arbitrary: g)
  case (Cons e es)
  then obtain l c n m where e: "e = ErrorCall f l c n m" "call_ok f (ErrorCall f l c n m)" by (cases e) auto
  from Error_reported [OF Cons.prems(1) e(2)] obtain g1 where
    g1: "Error f l c n m g = Inr g1" "reported f g g1" by blast
  from Cons.IH [OF reported_wf [OF g1(2) Cons.prems(1)]] Cons.prems(2) reported_trans [OF g1(2)] show ?case
    by (auto simp: e(1) g1(1))
qed simp

lemma perform_call_reported:
  assumes "lint_wf g" "call_ok f e"
  shows "\<exists>g'. perform_call e g = Inr g' \<and> reported f g g'"
proof (cases e)
  case (ErrorCall f' l c n m)
  with Error_reported [OF assms(1), of f l c n m] assms(2) show ?thesis by simp
next
  case (NolintCall f' raw_text l)
  with assms(2) have f': "f' = f" by simp
  obtain sp calls where p: "ParseNolintSuppressions f raw_text l (suppr g) = (sp, calls)" by fastforce
  have "lint_wf (g\<lparr>suppr := sp\<rparr>)" using assms(1) by (simp add: lint_wf_def)
  from errors_reported [OF this] nolint_calls [of f raw_text l "suppr g"] p
  obtain g' where "fold_res (\<lambda>e g. case e of ErrorCall f l c n m \<Rightarrow> Error f l c n m g
      | NolintCall _ _ _ \<Rightarrow> Inr g) calls (g\<lparr>suppr := sp\<rparr>) = Inr g'" "reported f (g\<lparr>suppr := sp\<rparr>) g'" by fastforce
  with p show ?thesis by (simp add: NolintCall f' reported_def)
qed

lemma perform_reported:
  "lint_wf g \<Longrightarrow> calls_ok f es \<Longrightarrow> \<exists>g'. perform es g = Inr g' \<and> reported f g g'"
  unfolding perform_def
proof (induction es arbitrary: g)
  case (Cons e es)
  from perform_call_reported [OF Cons.prems(1), of f e] Cons.prems(2) obtain g1 where
    g1: "perform_call e g = Inr g1" "reported f g g1" by auto
  from Cons.IH [OF reported_wf [OF g1(2) Cons.prems(1)]] Cons.prems(2) reported_trans [OF g1(2)] show ?case
    by (auto simp: g1(1))
qed simp

section \<open>Processing a file\<close>

abbreviation sound_step :: "string \<Rightarrow> lint \<Rightarrow> lint run \<Rightarrow> bool" where
  "sound_step filename g \<equiv> run_safe (\<lambda>g'. lint_wf g' \<and> reported filename g g')"

lemma perform_sound: "lint_wf g \<Longrightarrow> calls_ok f es \<Longrightarrow> sound_step f g (Some (perform es g))"
  using perform_reported [of g f es] reported_wf by fastforce

lemma report_sound: "lint_wf g \<Longrightarrow> run_safe (calls_ok f) r \<Longrightarrow> sound_step f g (report_run r g)"
  unfolding report_run_def by (erule run_safe_bind) (rule perform_sound)

lemma sound_bind:
  "sound_step f g m \<Longrightarrow> (\<And>g'. lint_wf g' \<Longrightarrow> reported f g g' \<Longrightarrow> sound_step f g' (k g')) \<Longrightarrow>
   sound_step f g (bind_run m k)"
  by (erule run_safe_bind) (auto intro: run_safe_mono reported_trans)

text \<open>The hypotheses on the environment: every name has a repository name and the guard is defined.\<close>

definition names_resolved :: "lint_config \<Rightarrow> string \<Rightarrow> bool" where
  "names_resolved cfg filename \<longleftrightarrow>
     guard_defined cfg filename \<and> (\<forall>name. RepositoryName (cfg_env cfg) name \<noteq> None)"

lemma names_resolvedD:
  assumes "names_resolved cfg f"
  shows "guard_defined cfg f" "repository_known cfg f" "module_known (cfg_env cfg) f"
    "\<exists>r. RepositoryName (cfg_env cfg) name = Some r"
  using assms by (auto simp: names_resolved_def repository_known_def module_known_def)

lemma process_lines_safe:
  assumes "cl_wf c" "names_resolved cfg f" "\<forall>check \<in> set extra. \<forall>c n. check_safe f (check f c n)"
    and "\<forall>n \<in> set ns. n < NumLines c" "file_wf c st" "lint_wf g" "0 \<le> verbose_level (cstate g)"
  shows "run_safe (\<lambda>(st', g'). lint_wf g' \<and> reported f g g') (process_lines cfg extra f ext c ns (st, g))"
  using assms(4-)
proof (induction ns arbitrary: st g)
  case (Cons n ns)
  note nr = names_resolvedD [OF assms(2)]
  from Cons.prems have n: "n < NumLines c" by simp
  note pl = ProcessLine_safe [OF assms(1) n Cons.prems(2,4) nr(1,2) assms(3), of ext]
  have flag: "run_safe (calls_ok f) (Some (FlagCxx11Features f c n))"
    using FlagCxx_ok(1) [OF assms(1) n, of f] by (simp add: run_safe_ok)
  show ?case unfolding process_lines.simps
  proof (rule run_safe_bind [OF pl], clarify)
    fix st1 es assume st1: "file_wf c st1" "calls_ok f es"
    show "run_safe (\<lambda>(st', g'). lint_wf g' \<and> reported f g g') (bind_run (Some (perform es g)) (\<lambda>g.
        bind_run (report_run (Some (FlagCxx11Features f c n)) g) (\<lambda>g. process_lines cfg extra f ext c ns (st1, g))))"
    proof (rule run_safe_bind [OF perform_sound [OF Cons.prems(3) st1(2)]], elim conjE,
        rule run_safe_bind [OF report_sound [OF _ flag]], assumption, elim conjE)
      fix g1 g2 assume g: "lint_wf g1" "reported f g g1" "lint_wf g2" "reported f g1 g2"
      from reported_trans [OF g(2,4)] have r: "reported f g g2" .
      with Cons.prems(4) have "0 \<le> verbose_level (cstate g2)" by (simp add: reported_def settings_def)
      from Cons.IH [OF _ st1(1) g(3) this] Cons.prems(1) r
      show "run_safe (\<lambda>(st', g'). lint_wf g' \<and> reported f g g') (process_lines cfg extra f ext c ns (st1, g2))"
        by (auto elim!: run_safe_mono intro: reported_trans)
    qed
  qed
qed simp

lemma file_calls_ok:
  "calls_ok f (CheckForCopyright f ls)" "calls_ok f (comment_errors f i)"
  "calls_ok f (CheckCompletedBlocks f st)" "calls_ok f (CheckForBadCharacters f lls)"
  "calls_ok f (CheckForNewlineAtEOF f ls)" "calls_ok f (check_guard f ls cppvar)"
proof -
  show "calls_ok f (CheckCompletedBlocks f st)"
    by (auto simp: CheckCompletedBlocks_def calls_ok_concat split: block_kind.splits)
  show "calls_ok f (CheckForBadCharacters f lls)"
    by (auto simp: CheckForBadCharacters_def bad_characters_def calls_ok_concat)
  show "calls_ok f (check_guard f ls cppvar)"
    by (simp add: check_guard_def check_endif_def Let_def split: option.splits)
qed (simp_all add: CheckForCopyright_def comment_errors_def CheckForNewlineAtEOF_def split: option.splits)

lemma header_guard_safe:
  assumes "guard_defined cfg f"
  shows "run_safe (calls_ok f) (CheckForHeaderGuard (cfg_env cfg) (cfg_root cfg) (cfg_root_debug cfg) f c)"
  using assms by (auto simp: CheckForHeaderGuard_def guard_defined_def Let_def file_calls_ok)

lemma own_header_safe:
  assumes "names_resolved cfg f"
  shows "\<exists>es. CheckHeaderFileIncluded (cfg_env cfg) f st = Some es \<and> calls_ok f es"
proof -
  obtain name where name: "\<And>n. RepositoryName (cfg_env cfg) n = Some (name n)"
    using names_resolvedD(4) [OF assms] by metis
  show ?thesis
    by (simp add: CheckHeaderFileIncluded_def BaseName_def Extension_def Split_def name Let_def
        split: option.splits prod.splits)
qed

lemma finish_file_sound:
  assumes "names_resolved cfg f" "lint_wf g"
  shows "sound_step f g (finish_file cfg io f ext ls c st g)"
proof -
  from CheckForIncludeWhatYouUse_ok [OF names_resolvedD(3) [OF assms(1)]]
  have iwyu: "run_safe (calls_ok f) (map_option Inr (CheckForIncludeWhatYouUse (cfg_env cfg) io f c (fs_include st)))"
    by (auto simp: run_safe_def)
  from own_header_safe [OF assms(1)]
  have own: "run_safe (calls_ok f) (map_option Inr (CheckHeaderFileIncluded (cfg_env cfg) f (fs_include st)))"
    by (auto simp: run_safe_def)
  have own_sound: "sound_step f g1 (if IsSourceExtension ext
      then report_run (map_option Inr (CheckHeaderFileIncluded (cfg_env cfg) f (fs_include st))) g1
      else Some (Inr g1))" if "lint_wf g1" for g1
    using report_sound [OF that own] that by simp
  show ?thesis unfolding finish_file_def
    by (rule sound_bind [OF perform_sound [OF assms(2) file_calls_ok(3)]],
        rule sound_bind [OF report_sound [OF _ iwyu]], assumption,
        rule sound_bind [OF own_sound], assumption,
        rule sound_bind [OF perform_sound [OF _ file_calls_ok(4)]], assumption,
        rule perform_sound [OF _ file_calls_ok(5)])
qed

lemma cleansed_wf:
  assumes "\<forall>l \<in> set ls. single_line l"
  shows "\<exists>c. CleansedLines ls = Inr c \<and> cl_wf c"
proof -
  have "\<exists>rs. raw_lines_loop None ls = Inr rs \<and> length rs = length ls"
    by (rule raw_lines_loop_total) simp
  then obtain rs where rs: "raw_lines_loop None ls = Inr rs" "length rs = length ls" by blast
  from cleanse_fold [OF raw_lines_loop_single [OF rs(1) assms], of "[]" "[]"] obtain elided where
    e: "fold_res cleanse_line rs ([], []) = Inr (elided, map CleanseComments rs)"
    "list_all2 (\<lambda>e l. \<exists>s. CollapseStrings l = Inr s \<and> e = CleanseComments s) elided rs" by auto
  with rs show ?thesis
    by (auto simp: CleansedLines_def CleanseRawStrings_def cl_wf_def list_all2_lengthD)
qed

lemma remove_comments_mask:
  "RemoveMultiLineComments f ls = (mask_comments ls, comment_errors f (open_comment ls))"
  by (simp add: RemoveMultiLineComments_def remove_comments_loop_mask option.map_ident)

lemma masked_single:
  assumes "\<forall>l \<in> set ls. single_line l"
  shows "\<forall>l \<in> set (mask_comments ls). single_line l"
proof
  fix l assume "l \<in> set (mask_comments ls)"
  then obtain i where i: "i < length (mask_comments ls)" "l = mask_comments ls ! i" by (auto simp: in_set_conv_nth)
  from mask_comments_lines [of ls] i have "i < length ls" "l = ls ! i \<or> l = ''/**/''"
    by (auto simp: list_all2_conv_all_nth)
  with assms show "single_line l" by auto
qed

text \<open>
  C1: a file is processed to its end, or stopped by an \<open>IndexError\<close>. For every list of lines
  without newline characters, whatever they hold, \<open>ProcessFileData\<close> returns or raises
  \<open>IndexError\<close> (which two checks can), and raises nothing else: no assertion, no attribute of
  \<open>None\<close>, no missing key, no endless loop. When it returns, the settings are what they were, and what was
  written to \<open>stderr\<close> are messages about this file, of a category in the table and of a
  confidence from 0 to 5, as many as errors were counted. The hypotheses: the filters are
  well-formed, the verbosity is not negative, the repositories and the guard of the file have
  names, and additional checks keep the same contract.
\<close>

theorem process_file_safe:
  assumes "names_resolved cfg f" "lint_wf g" "0 \<le> verbose_level (cstate g)"
    and "\<forall>l \<in> set file_lines. single_line l"
    and "\<forall>check \<in> set extra. \<forall>c n. check_safe f (check f c n)"
  shows "ProcessFileData cfg io extra f ext file_lines g = Some (Inl IndexError) \<or>
    (\<exists>g'. ProcessFileData cfg io extra f ext file_lines g = Some (Inr g') \<and> lint_wf g' \<and> reported f g g')"
proof -
  define ls0 where "ls0 = FIRST_MARKER # file_lines @ [LAST_MARKER]"
  let ?ls = "mask_comments ls0"
  have "\<forall>l \<in> set ls0. single_line l"
    using assms(4) by (simp add: ls0_def FIRST_MARKER_def LAST_MARKER_def)
  from cleansed_wf [OF masked_single [OF this]] obtain c where c: "CleansedLines ?ls = Inr c" "cl_wf c" by blast
  have guard: "sound_step f g1 (if IsHeaderExtension cfg ext
      then report_run (CheckForHeaderGuard (cfg_env cfg) (cfg_root cfg) (cfg_root_debug cfg) f c) g1
      else Some (Inr g1))" if "lint_wf g1" for g1
    using report_sound [OF that header_guard_safe [OF names_resolvedD(1) [OF assms(1)]]] that by simp
  have lines: "sound_step f g1 (bind_run (process_lines cfg extra f ext c [0..<NumLines c] (file_state_init, g1))
      (\<lambda>(st, g). finish_file cfg io f ext ?ls c st g))"
    if "lint_wf g1" "0 \<le> verbose_level (cstate g1)" for g1
  proof (rule run_safe_bind [OF process_lines_safe [OF c(2) assms(1,5) _ file_wf_init that]], simp, clarify)
    fix st g2 assume g2: "lint_wf g2" "reported f g1 g2"
    show "sound_step f g1 (finish_file cfg io f ext ?ls c st g2)"
      by (rule run_safe_mono [OF finish_file_sound [OF assms(1) g2(1)]]) (use g2(2) in \<open>auto intro: reported_trans\<close>)
  qed
  have "sound_step f (g\<lparr>suppr := ResetNolintSuppressions (suppr g)\<rparr>) (ProcessFileData cfg io extra f ext file_lines g)"
    unfolding ProcessFileData_def Let_def ls0_def [symmetric] remove_comments_mask prod.case c(1) bind_run_simps
  proof (rule sound_bind [OF perform_sound [OF _ file_calls_ok(1)]])
    show "lint_wf (g\<lparr>suppr := ResetNolintSuppressions (suppr g)\<rparr>)" using assms(2) by (simp add: lint_wf_def)
    fix g1 assume g1: "lint_wf g1" "reported f (g\<lparr>suppr := ResetNolintSuppressions (suppr g)\<rparr>) g1"
    have v: "0 \<le> verbose_level (cstate g1)" using g1(2) assms(3) by (simp add: reported_def settings_def)
    let ?g1 = "g1\<lparr>suppr := ProcessGlobalSuppresions ls0 (suppr g1)\<rparr>"
    have wf1: "lint_wf ?g1" using g1(1) by (simp add: lint_wf_def)
    have "sound_step f ?g1 (bind_run (Some (perform (comment_errors f (open_comment ls0)) ?g1)) (\<lambda>g.
        bind_run (if IsHeaderExtension cfg ext
          then report_run (CheckForHeaderGuard (cfg_env cfg) (cfg_root cfg) (cfg_root_debug cfg) f c) g
          else Some (Inr g)) (\<lambda>g.
        bind_run (process_lines cfg extra f ext c [0..<NumLines c] (file_state_init, g))
          (\<lambda>(st, g). finish_file cfg io f ext ?ls c st g))))"
    proof (rule sound_bind [OF perform_sound [OF wf1 file_calls_ok(2)]], rule sound_bind [OF guard], assumption, rule lines, assumption)
      fix g2 g3 assume "reported f ?g1 g2" "reported f g2 g3"
      with v show "0 \<le> verbose_level (cstate g3)" by (simp add: reported_def settings_def)
    qed
    then show "sound_step f g1 (bind_run (Some (perform (comment_errors f (open_comment ls0)) ?g1)) (\<lambda>g.
        bind_run (if IsHeaderExtension cfg ext
          then report_run (CheckForHeaderGuard (cfg_env cfg) (cfg_root cfg) (cfg_root_debug cfg) f c) g
          else Some (Inr g)) (\<lambda>g.
        bind_run (process_lines cfg extra f ext c [0..<NumLines c] (file_state_init, g))
          (\<lambda>(st, g). finish_file cfg io f ext ?ls c st g))))"
      by (simp add: reported_def)
  qed
  then show ?thesis by (simp add: run_safe_def reported_def)
qed

theorem process_file_safe_witness:
  "ProcessFileData (default_config \<lparr>getcwd = ''/w'', exists = (\<lambda>_. False)\<rparr>)
     \<lparr>io_open = (\<lambda>_. None), io_keys = (\<lambda>keys. keys)\<rparr> [] ''a.cc'' ''cc'' [''int a;'', []] lint_init =
       Some (Inl IndexError) \<or>
   (\<exists>g'. ProcessFileData (default_config \<lparr>getcwd = ''/w'', exists = (\<lambda>_. False)\<rparr>)
     \<lparr>io_open = (\<lambda>_. None), io_keys = (\<lambda>keys. keys)\<rparr> [] ''a.cc'' ''cc'' [''int a;'', []] lint_init =
       Some (Inr g') \<and> lint_wf g' \<and> reported ''a.cc'' lint_init g')"
proof (rule process_file_safe)
  let ?cfg = "default_config \<lparr>getcwd = ''/w'', exists = (\<lambda>_. False)\<rparr>"
  show "names_resolved ?cfg ''a.cc''"
    by (auto simp: names_resolved_def guard_defined_def default_config_def GetHeaderGuardCPPVariable_def
        RepositoryName_def FixupPathFromRoot_def Let_def)
  show "lint_wf lint_init" "0 \<le> verbose_level (cstate lint_init)"
    by code_simp+
qed simp_all

end
