(* ===== verification/Spec2Isabelle.thy ===== *)
theory Spec2Isabelle
  imports Process_Safety
begin

text \<open>
  A verification of \<^verbatim>\<open>src/tools/cpplint/cpplint.py\<close>, the C++ style checker of this
  repository and nearly all of its Python code. The definitions are translated function by
  function and keep the names of the source; each theory says in its opening text which part it
  holds.

  \<^bold>\<open>The program.\<close> \<open>ProcessFileData\<close> gets the lines of a file. It cleans them
  (\<open>RemoveMultiLineComments\<close>, then four parallel copies in \<open>CleansedLines\<close>), runs
  \<open>ProcessLine\<close> on each, and then the checks that need the whole file. Three objects live as
  long as a file: \<open>NestingState\<close> (the open blocks), \<open>_FunctionState\<close> (the length of the current
  function) and \<open>_IncludeState\<close> (the headers so far). Every check reports through \<open>Error\<close>, which
  asks the suppressions (\<open>NOLINT\<close>), the verbosity and the filters of the module-wide
  \<open>_CppLintState\<close> whether to count and print.

  \<^bold>\<open>The model.\<close> A check is a function from the lines and its state to the calls of \<open>Error\<close> it
  makes (type \<open>effect list\<close>) and the new state. An exception is a value of type \<open>exn\<close> in
  a result \<open>'a res = exn + 'a\<close>; every index, group and dictionary access that the source
  leaves unguarded is a branch of the model. A result of type \<open>'a run = 'a res option\<close> is \<open>None\<close>
  when the code does not return; the only loop of the program that may not end is the search for
  the top of a Subversion checkout, a \<open>partial_function\<close>. All other loops are functions with a
  measure, so that no fuel appears anywhere. The classes are records, with one function per
  method and the state passed on explicitly; blocks on the nesting stack carry an identity, since
  the code shares and mutates them. A regular expression is not replaced by a predicate: its
  pattern is compiled from the text in the source and run by a backtracking matcher.

  \<^bold>\<open>The theories.\<close>
  \<^item> \<open>Prelude\<close>: exceptions, results and their bind, folds that may raise, raw string literals
    (a backquote stands for the backslash), calls of \<open>Error\<close>, list indexing as in Python.
  \<^item> \<open>Py_Str\<close>, \<open>Py_Regex\<close>: the operations on strings and the part of the module \<open>re\<close> that the
    program uses, with \<open>Match\<close>, \<open>Search\<close>, \<open>ReplaceAll\<close>. \<open>Regex_Semantics\<close>: the meaning of a
    pattern as a relation on positions, and the matcher sound, complete and leftmost for it.
  \<^item> \<open>Suppressions\<close>: the category tables, \<open>ParseNolintSuppressions\<close>, the file markers,
    \<open>IsErrorSuppressedByNolint\<close>. \<open>Lint_State\<close>: \<open>_CppLintState\<close>, filters, \<open>_ShouldPrintError\<close>,
    \<open>Error\<close>, with the locale \<open>report_sink\<close> for what the checks rely on, interpreted on \<open>Error\<close>.
  \<^item> \<open>Include_State\<close>, \<open>Function_State\<close>: the classes \<open>_IncludeState\<close> and \<open>_FunctionState\<close>.
  \<^item> \<open>File_Info\<close>: \<open>os.path\<close> on POSIX, class \<open>FileInfo\<close>, \<open>PathSplitToList\<close>,
    \<open>GetHeaderGuardCPPVariable\<close> with its \<open>--root\<close> fix-up and debug messages. The locale
    \<open>path_splitter\<close> states what splitting relies on.
  \<^item> \<open>Expressions\<close>: \<open>CloseExpression\<close> and \<open>ReverseCloseExpression\<close>. The locale \<open>bracket_pair\<close>
    holds the theory of one stack machine, interpreted forward and backward.
  \<^item> \<open>Cleanse\<close>: \<open>CleanseRawStrings\<close>, multi-line comments, \<open>CleanseComments\<close>,
    \<open>_CollapseStrings\<close>, \<open>CleansedLines\<close>.
  \<^item> \<open>Nesting\<close>: the block classes and \<open>NestingState\<close> with \<open>Update\<close>, the preprocessor branches
    and the class-end checks.
  \<^item> \<open>Check_Tools\<close>: slices, sequences of checks and their contract \<open>calls_ok\<close>. \<open>File_Checks\<close>,
    \<open>Spacing\<close>, \<open>Braces\<close>, \<open>Class_Checks\<close>, \<open>Includes\<close>, \<open>Casts\<close>, \<open>Language\<close>, \<open>Include_Use\<close>: the
    checks, grouped as the source groups them.
  \<^item> \<open>Process\<close>: \<open>ProcessLine\<close> and \<open>ProcessFileData\<close>. \<open>Process_Safety\<close>: what they guarantee.

  \<^bold>\<open>What is shown.\<close>
  \<^item> Safety of a whole file (\<open>Process_Safety\<close>): on any lines whatever, processing ends, raises
    nothing but \<open>IndexError\<close>, and writes only messages about the file, of a known category and a
    confidence from 0 to 5, as many as it counts. Two places where \<open>IndexError\<close> does arise are
    shown in \<open>Class_Checks\<close> and \<open>Casts\<close>.
  \<^item> Brackets (\<open>Expressions\<close>, \<open>Language\<close>): from a round, square or curly bracket the scanners find
    exactly the end of the balanced expression, on any text, and are inverse to each other:
    the guesses that they make about angle brackets never matter. From an angle bracket what is
    found is balanced in the other brackets. \<open>_GetTextInside\<close> is exact.
  \<^item> Blocks (\<open>Nesting\<close>): \<open>Update\<close> refines a machine that reads the characters of a line; no block
    is shared between preprocessor branches in any reachable state.
  \<^item> Cleaning (\<open>Cleanse\<close>): every pass returns and keeps the number of lines; the comment pass
    equals a one-pass reference; literals are emptied whatever they hold, escapes included; the
    text of line comments never matters; plain code is unchanged.
  \<^item> Reporting (\<open>Suppressions\<close>, \<open>Lint_State\<close>): what \<open>NOLINT\<close> and the file markers suppress, the
    decision to print as the last filter that applies, the counters, the filters accepted.
  \<^item> Includes and paths (\<open>Include_State\<close>, \<open>Includes\<close>, \<open>Include_Use\<close>, \<open>File_Info\<close>): the order
    of headers that is accepted and how it differs from the documented one, duplicates, missing
    headers, the repository name and the guard made from it, and the corner cases where the
    code fails (\<open>/.svn\<close>, a repository at \<open>/\<close>, the debug messages).

  \<^bold>\<open>Parameters and bounds.\<close> The file system (\<open>os.path.exists\<close>, the working directory), the
  contents of headers that are opened, the order in which a dictionary gives its keys and the
  names of the command-line options are arguments of the definitions. Characters are the code
  points below 256: the source reads files as Unicode and classifies wider characters by their
  width and by \<open>re.UNICODE\<close>, none of which is modelled, nor are the conversions between byte and
  Unicode strings in messages. Integers are unbounded, as in Python. \<open>Process_Safety\<close> assumes of
  the environment that the searches for the repository of the file end and that its header guard
  can be computed.

  \<^bold>\<open>Not modelled.\<close> \<open>ProcessFile\<close> and \<open>ProcessConfigOverrides\<close> (opening files and walking the
  directories for configuration), \<open>ParseArguments\<close>, \<open>PrintUsage\<close> and \<open>main\<close> (command line and
  process exit); \<^verbatim>\<open>utils.py\<close> and \<^verbatim>\<open>install_hooks.py\<close> (wrappers around processes and files); the
  C++ code of the repository. The calls made by a check before it raises are not kept in the
  result of the exception.
\<close>

end
